(* ===== verification/MW_Prelude.thy ===== *)
theory MW_Prelude
  imports Main "HOL-Library.Word"
begin

text \<open>
  The prelude of the development. It fixes the machine types of the C++ sources (unsigned
  integers as words, \<^verbatim>\<open>std::vector<uint8_t>\<close> as byte lists), the exceptions the sources throw
  as values of one datatype, the monadic plumbing of fallible code, and the layout of an
  integer in memory (what \<^verbatim>\<open>memcpy\<close> between an integer and a byte buffer moves), with the
  generic lemmas on words, lists and results that the component theories share.

  Out-of-range accesses of a vector or an iterator range that runs backwards are undefined
  behaviour in C++; the model returns the error value \<open>UndefinedBehaviour\<close> there, so that
  absence of undefined behaviour is a provable statement. The \<^verbatim>\<open>assert\<close>s of the sources are no-ops:
  two of them (MMR.cpp line 77, FileBackend.h line 96) name things that do not exist, so the
  sources compile with \<^verbatim>\<open>NDEBUG\<close> only.
\<close>

unbundle bit_operations_syntax

named_theorems mw_codec \<open>unfolding rules of encoders and decoders\<close>
named_theorems mw_bits \<open>bit-level characterisations\<close>

section \<open>Machine types\<close>

type_synonym u8 = "8 word"
type_synonym u16 = "16 word"
type_synonym u32 = "32 word"
type_synonym u64 = "64 word"
type_synonym bytes = "u8 list"

section \<open>Exceptions\<close>

datatype EConsensusError =
    CUT_THROUGH
  | BLOCK_WEIGHT
  | KERNEL_SUMS
  | KERNEL_SIG
  | BULLETPROOF
  | PEGIN_MISMATCH
  | PEGOUT_MISMATCH

datatype exn =
    DeserializationException string
  | FileException string
  | ValidationException EConsensusError
  | DatabaseException string
  | UnimplementedException string
  | CryptoException string
  | NetworkException string
  | JsonException
  | StdException
  | LengthError
  | UndefinedBehaviour

type_synonym 'a result = "exn + 'a"

definition rbind :: "'a result \<Rightarrow> ('a \<Rightarrow> 'b result) \<Rightarrow> 'b result" where
  "rbind r f = (case r of Inl e \<Rightarrow> Inl e | Inr x \<Rightarrow> f x)"

lemma rbind_simps [simp]:
  "rbind (Inl e) f = Inl e"
  "rbind (Inr x) f = f x"
  by (simp_all add: rbind_def)

lemma rbind_eq_Inr [simp]:
  "rbind r f = Inr y \<longleftrightarrow> (\<exists>x. r = Inr x \<and> f x = Inr y)"
  by (cases r) auto

lemma rbind_cong [fundef_cong]:
  "r = r' \<Longrightarrow> (\<And>x. r' = Inr x \<Longrightarrow> f x = g x) \<Longrightarrow> rbind r f = rbind r' g"
  by (cases r') auto

lemma rbind_assoc: "rbind (rbind r f) g = rbind r (\<lambda>x. rbind (f x) g)"
  by (cases r) auto

lemma rbind_Inr [simp]: "rbind r Inr = r"
  by (cases r) auto

text \<open>Reading a C++ vector with \<^verbatim>\<open>operator[]\<close>: undefined behaviour out of range.\<close>

definition vec_at :: "'a list \<Rightarrow> nat \<Rightarrow> 'a result" where
  "vec_at xs i = (if i < length xs then Inr (xs ! i) else Inl UndefinedBehaviour)"

lemma vec_at_Inr [simp]: "vec_at xs i = Inr x \<longleftrightarrow> i < length xs \<and> x = xs ! i"
  by (auto simp: vec_at_def)

lemma vec_at_in [simp]: "i < length xs \<Longrightarrow> vec_at xs i = Inr (xs ! i)"
  by (simp add: vec_at_def)

definition vec_set :: "'a list \<Rightarrow> nat \<Rightarrow> 'a \<Rightarrow> 'a list result" where
  "vec_set xs i x = (if i < length xs then Inr (xs[i := x]) else Inl UndefinedBehaviour)"

lemma vec_set_in [simp]: "i < length xs \<Longrightarrow> vec_set xs i x = Inr (xs[i := x])"
  by (simp add: vec_set_def)

lemma vec_set_Inr [simp]: "vec_set xs i x = Inr ys \<longleftrightarrow> i < length xs \<and> ys = xs[i := x]"
  by (auto simp: vec_set_def)

text \<open>A \<^verbatim>\<open>for\<close> loop over a list of values (indices, elements), whose body may throw.\<close>

primrec rfold :: "('a \<Rightarrow> 's \<Rightarrow> 's result) \<Rightarrow> 'a list \<Rightarrow> 's \<Rightarrow> 's result" where
  "rfold f [] s = Inr s"
| "rfold f (x # xs) s = rbind (f x s) (rfold f xs)"

lemma rfold_append [simp]: "rfold f (xs @ ys) s = rbind (rfold f xs s) (rfold f ys)"
  by (induction xs arbitrary: s) (auto simp: rbind_def split: sum.split)

lemma rfold_upt_Suc: "rfold f [0..<Suc n] s = rbind (rfold f [0..<n] s) (f n)"
  by (simp add: rbind_def split: sum.split)

lemma rfold_cong:
  "(\<And>x s. x \<in> set xs \<Longrightarrow> f x s = g x s) \<Longrightarrow> rfold f xs s = rfold g xs s"
  by (induction xs arbitrary: s) (auto simp: rbind_def split: sum.split)

lemma rfold_pure: "(\<And>x s. x \<in> set xs \<Longrightarrow> f x s = Inr (g x s)) \<Longrightarrow> rfold f xs s = Inr (fold g xs s)"
  by (induction xs arbitrary: s) auto

text \<open>A value of the signed 32-bit type \<^verbatim>\<open>int\<close>; signed overflow is undefined behaviour.\<close>

definition c_int :: "int \<Rightarrow> int result" where
  "c_int v = (if - (2 ^ 31) \<le> v \<and> v < 2 ^ 31 then Inr v else Inl UndefinedBehaviour)"

text \<open>A vector resized with \<^verbatim>\<open>resize\<close>: truncated, or padded with value-initialised elements.\<close>

definition vec_resize :: "'a \<Rightarrow> nat \<Rightarrow> 'a list \<Rightarrow> 'a list" where
  "vec_resize d n xs = take n xs @ replicate (n - length xs) d"

lemma length_vec_resize [simp]: "length (vec_resize d n xs) = n"
  by (simp add: vec_resize_def)

lemma vec_resize_take: "n \<le> length xs \<Longrightarrow> vec_resize d n xs = take n xs"
  by (simp add: vec_resize_def)

text \<open>
  The bytes of the iterator range \<^verbatim>\<open>[begin + i, begin + j)\<close> of a buffer, with \<open>i\<close> and \<open>j\<close> as
  machine words: undefined behaviour when it runs backwards or past the end.
\<close>

definition byte_range :: "'b list \<Rightarrow> u64 \<Rightarrow> u64 \<Rightarrow> 'b list result" where
  "byte_range bs i j =
     (if i \<le> j \<and> unat j \<le> length bs
      then Inr (take (unat j - unat i) (drop (unat i) bs))
      else Inl UndefinedBehaviour)"

section \<open>Lists\<close>

lemma take_drop_append_exact:
  "length pre = i \<Longrightarrow> length mid = n \<Longrightarrow> take n (drop i (pre @ mid @ post)) = mid"
  by simp

lemma nth_append_snoc [simp]: "(xs @ [x]) ! length xs = x"
  by simp

section \<open>Words\<close>

lemma unat_u64_lt [simp]: "unat (w :: u64) < 18446744073709551616"
  using unsigned_less [of w, where ?'a = nat] by simp

lemma power_64: "(2 :: nat) ^ 64 = 18446744073709551616"
  by simp

lemma unat_of_nat_u64: "n < 2 ^ 64 \<Longrightarrow> unat (of_nat n :: u64) = n"
  by (simp add: unat_of_nat)

lemma unat_add_no_wrap:
  fixes a b :: "'a::len word"
  shows "unat a + unat b < 2 ^ LENGTH('a) \<Longrightarrow> unat (a + b) = unat a + unat b"
  by (simp add: unat_word_ariths)

lemma unat_sub_no_wrap:
  fixes a b :: "'a::len word"
  shows "unat b \<le> unat a \<Longrightarrow> unat (a - b) = unat a - unat b"
  by (simp add: unat_sub word_le_nat_alt)

lemma unat_drop_bit_1: "unat (drop_bit 1 (n :: 'a::len word)) = unat n div 2"
  by (subst unat_drop_bit_eq) (simp add: drop_bit_eq_div)

lemma unat_drop_bit_1_less: "n \<noteq> 0 \<Longrightarrow> unat (drop_bit 1 (n :: 'a::len word)) < unat n"
  unfolding unat_drop_bit_1 using unat_eq_0 [of n] by simp

lemmas unat_halve = unat_drop_bit_1 unat_drop_bit_1 [simplified]
lemmas unat_halve_less = unat_drop_bit_1_less unat_drop_bit_1_less [simplified]

lemma unat_mask: "k \<le> LENGTH('a) \<Longrightarrow> unat (mask k :: 'a::len word) = 2 ^ k - 1"
proof -
  assume k: "k \<le> LENGTH('a)"
  have "unat (mask k :: 'a word) = mask k"
    by (rule bit_eqI) (use k in \<open>auto simp: bit_unsigned_iff bit_mask_iff\<close>)
  then show ?thesis by (simp add: mask_eq_exp_minus_1)
qed

lemma drop_bit_1_mask_Suc: "k < LENGTH('a) \<Longrightarrow> drop_bit 1 (mask (Suc k) :: 'a::len word) = mask k"
  by (rule bit_word_eqI) (auto simp: bit_drop_bit_eq bit_mask_iff)

lemma mask_Suc_neq_0: "k < LENGTH('a) \<Longrightarrow> (mask (Suc k) :: 'a::len word) \<noteq> 0"
  by (metis bit_0 bit_mask_iff even_zero zero_less_Suc len_gt_0 possible_bit_word)

section \<open>Integers in memory\<close>

text \<open>
  \<open>le_bytes w\<close> are the bytes of \<open>w\<close>, least significant first; \<open>mem_of be w\<close> is what \<^verbatim>\<open>memcpy\<close>
  finds in memory on a host that is big endian (\<open>be\<close>) or little endian, and \<open>of_mem be bs\<close> is the
  integer that \<^verbatim>\<open>memcpy\<close> from a buffer creates.
\<close>

definition le_bytes :: "'a::len word \<Rightarrow> bytes" where
  "le_bytes w = map (\<lambda>i. ucast (drop_bit (8 * i) w)) [0..<LENGTH('a) div 8]"

primrec of_le_bytes :: "bytes \<Rightarrow> 'a::len word" where
  "of_le_bytes [] = 0"
| "of_le_bytes (b # bs) = ucast b OR push_bit 8 (of_le_bytes bs)"

definition mem_of :: "bool \<Rightarrow> 'a::len word \<Rightarrow> bytes" where
  "mem_of be w = (if be then rev (le_bytes w) else le_bytes w)"

definition of_mem :: "bool \<Rightarrow> bytes \<Rightarrow> 'a::len word" where
  "of_mem be bs = of_le_bytes (if be then rev bs else bs)"

abbreviation be_bytes :: "'a::len word \<Rightarrow> bytes" where
  "be_bytes w \<equiv> rev (le_bytes w)"

abbreviation sizeof :: "'a::len word itself \<Rightarrow> nat" where
  "sizeof t \<equiv> LENGTH('a) div 8"

lemma length_le_bytes [simp]: "length (le_bytes (w :: 'a::len word)) = LENGTH('a) div 8"
  by (simp add: le_bytes_def)

lemma length_mem_of [simp]: "length (mem_of be (w :: 'a::len word)) = LENGTH('a) div 8"
  by (simp add: mem_of_def)

lemma bit_of_le_bytes [mw_bits]:
  "bit (of_le_bytes bs :: 'a::len word) i \<longleftrightarrow>
     i < LENGTH('a) \<and> i div 8 < length bs \<and> bit (bs ! (i div 8)) (i mod 8)"
proof (induction bs arbitrary: i)
  case Nil
  then show ?case by simp
next
  case (Cons b bs)
  show ?case
  proof (cases "i < 8")
    case True
    then show ?thesis
      by (auto simp: bit_or_iff bit_ucast_iff bit_push_bit_iff)
  next
    case False
    then obtain k where k: "i = k + 8"
      by (metis le_add_diff_inverse2 linorder_not_less)
    have d: "(k + 8) div 8 = Suc (k div 8)" by simp
    have "\<not> bit b i" using False by (auto dest: bit_imp_le_length)
    then show ?thesis
      using Cons.IH [of k] d by (auto simp: bit_or_iff bit_ucast_iff bit_push_bit_iff k)
  qed
qed

lemma of_le_bytes_le_bytes [simp]:
  fixes w :: "'a::len word"
  assumes "8 dvd LENGTH('a)"
  shows "of_le_bytes (le_bytes w) = w"
proof (rule bit_word_eqI)
  fix n assume n: "n < LENGTH('a)"
  with assms have "n div 8 < LENGTH('a) div 8"
    by (simp add: div_less_iff_less_mult)
  then show "bit (of_le_bytes (le_bytes w) :: 'a word) n = bit w n"
    using n by (simp add: bit_of_le_bytes le_bytes_def bit_ucast_iff bit_drop_bit_eq)
qed

lemma le_bytes_of_le_bytes [simp]:
  assumes "8 dvd LENGTH('a)" "length bs = LENGTH('a) div 8"
  shows "le_bytes (of_le_bytes bs :: 'a::len word) = bs"
proof (rule nth_equalityI)
  show "length (le_bytes (of_le_bytes bs :: 'a word)) = length bs" using assms by simp
next
  fix i assume "i < length (le_bytes (of_le_bytes bs :: 'a word))"
  then have i: "i < LENGTH('a) div 8" by simp
  show "le_bytes (of_le_bytes bs :: 'a word) ! i = bs ! i"
  proof (rule bit_word_eqI)
    fix n :: nat assume n: "n < LENGTH(8)"
    then have n8: "n < 8" by simp
    have lt: "8 * i + n < LENGTH('a)" using i n8 assms(1) by (auto elim!: dvdE)
    show "bit (le_bytes (of_le_bytes bs :: 'a word) ! i) n = bit (bs ! i) n"
      using i n8 lt assms(2)
      by (simp add: le_bytes_def bit_ucast_iff bit_drop_bit_eq bit_of_le_bytes)
  qed
qed

lemma of_mem_mem_of [simp]:
  "8 dvd LENGTH('a) \<Longrightarrow> of_mem be (mem_of be (w :: 'a::len word)) = w"
  by (simp add: mem_of_def of_mem_def)

lemma mem_of_of_mem:
  "8 dvd LENGTH('a) \<Longrightarrow> length bs = LENGTH('a) div 8 \<Longrightarrow>
     mem_of be (of_mem be bs :: 'a::len word) = bs"
  by (simp add: mem_of_def of_mem_def)

lemma le_bytes_inject:
  "8 dvd LENGTH('a) \<Longrightarrow> le_bytes (v :: 'a::len word) = le_bytes w \<longleftrightarrow> v = w"
  by (metis of_le_bytes_le_bytes)

end
