(* ===== verification/MW_Util.thy ===== *)
theory MW_Util
  imports MW_Prelude
begin

text \<open>
  The utilities of \<^verbatim>\<open>include/mw/core/util\<close>: \<open>BitUtil\<close> (bit tricks on 64-bit words), \<open>EndianUtil\<close>
  (host byte order and byte swapping), \<open>HexUtil\<close> and \<open>StringUtil\<close>. The byte order of the host is
  the parameter \<open>be\<close>; what the code computes from it is shown to be independent of it.
\<close>

section \<open>BitUtil\<close>

definition FillOnesToRight :: "u64 \<Rightarrow> u64" where
  "FillOnesToRight input =
     (let x = input;
          x = x OR drop_bit 1 x;
          x = x OR drop_bit 2 x;
          x = x OR drop_bit 4 x;
          x = x OR drop_bit 8 x;
          x = x OR drop_bit 16 x;
          x = x OR drop_bit 32 x
      in x)"

function CountBitsSet_loop :: "u64 \<Rightarrow> u8 \<Rightarrow> u8" where
  "CountBitsSet_loop n count =
     (if n \<noteq> 0 then CountBitsSet_loop (drop_bit 1 n) (count + ucast (n AND 1)) else count)"
  by pat_completeness auto
termination
  by (relation "measure (\<lambda>(n, c). unat n)") (simp_all add: unat_halve_less)

definition CountBitsSet :: "u64 \<Rightarrow> u8" where
  "CountBitsSet input = CountBitsSet_loop input 0"

definition ConvertToU16 :: "u8 \<Rightarrow> u8 \<Rightarrow> u16" where
  "ConvertToU16 byte1 byte2 = push_bit 8 (ucast byte1) OR ucast byte2"

definition ConvertToU32 :: "u8 \<Rightarrow> u8 \<Rightarrow> u8 \<Rightarrow> u8 \<Rightarrow> u32" where
  "ConvertToU32 byte1 byte2 byte3 byte4 =
     push_bit 24 (ucast byte1) OR push_bit 16 (ucast byte2) OR push_bit 8 (ucast byte3) OR ucast byte4"

definition ConvertToU64 :: "u8 \<Rightarrow> u8 \<Rightarrow> u8 \<Rightarrow> u8 \<Rightarrow> u8 \<Rightarrow> u8 \<Rightarrow> u8 \<Rightarrow> u8 \<Rightarrow> u64" where
  "ConvertToU64 byte1 byte2 byte3 byte4 byte5 byte6 byte7 byte8 =
     push_bit 56 (ucast byte1) OR push_bit 48 (ucast byte2) OR push_bit 40 (ucast byte3)
     OR push_bit 32 (ucast byte4) OR push_bit 24 (ucast byte5) OR push_bit 16 (ucast byte6)
     OR push_bit 8 (ucast byte7) OR ucast byte8"

subsection \<open>FillOnesToRight sets every bit below the highest one\<close>

text \<open>
  \<open>y\<close> covers \<open>x\<close> with window \<open>w\<close>: bit \<open>i\<close> of \<open>y\<close> tells whether \<open>x\<close> has a bit in \<open>[i, i + w)\<close>.
\<close>

definition covers :: "u64 \<Rightarrow> u64 \<Rightarrow> nat \<Rightarrow> bool" where
  "covers x y w \<longleftrightarrow> (\<forall>i. bit y i \<longleftrightarrow> (\<exists>j<w. bit x (i + j)))"

lemma covers_refl: "covers x x 1"
  by (simp add: covers_def)

lemma covers_double:
  assumes "covers x y w" "v = 2 * w"
  shows "covers x (y OR drop_bit w y) v"
  unfolding covers_def
proof (intro allI iffI)
  fix i assume "bit (y OR drop_bit w y) i"
  then consider "bit y i" | "bit y (i + w)"
    by (auto simp: bit_or_iff bit_drop_bit_eq add.commute)
  then show "\<exists>j<v. bit x (i + j)"
  proof cases
    case 1
    then obtain j where "j < w" "bit x (i + j)" using assms by (auto simp: covers_def)
    then show ?thesis using assms by (intro exI [of _ j]) simp
  next
    case 2
    then obtain j where "j < w" "bit x (i + w + j)" using assms by (auto simp: covers_def)
    then show ?thesis using assms by (intro exI [of _ "w + j"]) (simp add: add.assoc)
  qed
next
  fix i assume "\<exists>j<v. bit x (i + j)"
  then obtain j where j: "j < v" "bit x (i + j)" by blast
  show "bit (y OR drop_bit w y) i"
  proof (cases "j < w")
    case True
    then show ?thesis using j assms by (auto simp: covers_def bit_or_iff)
  next
    case False
    then have "j - w < w" "i + w + (j - w) = i + j" using j assms by auto
    then have "bit y (i + w)" using j assms unfolding covers_def by metis
    then show ?thesis by (simp add: bit_or_iff bit_drop_bit_eq add.commute)
  qed
qed

lemma bit_FillOnesToRight [mw_bits]: "bit (FillOnesToRight x) i \<longleftrightarrow> (\<exists>j\<ge>i. bit x j)"
proof -
  have "covers x (FillOnesToRight x) 64"
    unfolding FillOnesToRight_def Let_def
    by (rule covers_double [where w = 32], rule covers_double [where w = 16],
        rule covers_double [where w = 8], rule covers_double [where w = 4],
        rule covers_double [where w = 2], rule covers_double [where w = 1],
        rule covers_refl) simp_all
  then have "bit (FillOnesToRight x) i \<longleftrightarrow> (\<exists>j<64. bit x (i + j))"
    by (simp add: covers_def)
  also have "\<dots> \<longleftrightarrow> (\<exists>j\<ge>i. bit x j)"
  proof
    assume "\<exists>j\<ge>i. bit x j"
    then obtain j where j: "i \<le> j" "bit x j" by blast
    then have "j < 64" using bit_imp_le_length by fastforce
    then show "\<exists>j<64. bit x (i + j)" using j by (intro exI [of _ "j - i"]) auto
  qed (use le_add1 in blast)
  finally show ?thesis .
qed

lemma FillOnesToRight_mask:
  assumes "2 ^ n \<le> unat x" "unat x < 2 ^ Suc n"
  shows "FillOnesToRight x = mask (Suc n)"
proof (rule bit_word_eqI)
  fix i assume i: "i < LENGTH(64)"
  have top: "bit x n"
  proof -
    have "unat x div 2 ^ n = 1"
      using assms by (simp add: div_nat_eqI)
    then have "bit (unat x) n" by (simp add: bit_iff_odd)
    then show ?thesis by (simp add: bit_unsigned_iff)
  qed
  have above: "\<not> bit x j" if "n < j" for j
  proof -
    have "unat x < 2 ^ j" using assms(2) that
      by (meson Suc_leI less_le_trans one_le_numeral power_increasing)
    then have "\<not> bit (unat x) j" by (simp add: bit_iff_odd)
    then show ?thesis using bit_imp_le_length [of x j] by (auto simp: bit_unsigned_iff)
  qed
  show "bit (FillOnesToRight x) i = bit (mask (Suc n) :: u64) i"
    using i top above
    by (auto simp: bit_FillOnesToRight bit_mask_iff less_Suc_eq_le) (metis le_trans not_le)
qed

lemma FillOnesToRight_0 [simp]: "FillOnesToRight 0 = 0"
  by (simp add: FillOnesToRight_def)


subsection \<open>CountBitsSet is the population count\<close>

fun popcount :: "nat \<Rightarrow> nat" where
  "popcount n = (if n = 0 then 0 else n mod 2 + popcount (n div 2))"

declare popcount.simps [simp del]

lemma popcount_0 [simp]: "popcount 0 = 0"
  by (simp add: popcount.simps)

lemma popcount_1 [simp]: "popcount (Suc 0) = Suc 0"
  by (simp add: popcount.simps [of "Suc 0"])

lemma popcount_rec: "popcount n = n mod 2 + popcount (n div 2)"
  by (cases "n = 0") (simp_all add: popcount.simps [of n])

lemma popcount_double [simp]: "popcount (2 * n) = popcount n"
  by (subst popcount_rec) simp

lemma popcount_double_Suc [simp]: "popcount (Suc (2 * n)) = Suc (popcount n)"
  by (subst popcount_rec) simp

lemma popcount_le: "popcount n \<le> n"
proof (induction n rule: popcount.induct)
  case (1 n)
  then show ?case by (cases "n = 0") (auto simp: popcount.simps [of n])
qed

lemma popcount_pow2: "popcount (2 ^ k) = 1"
  by (induction k) simp_all

lemma popcount_top: "m < 2 ^ k \<Longrightarrow> popcount (2 ^ k + m) = Suc (popcount m)"
proof (induction k arbitrary: m)
  case 0
  then show ?case by simp
next
  case (Suc k)
  have "popcount (2 ^ Suc k + m) = m mod 2 + popcount (2 ^ k + m div 2)"
    by (subst popcount_rec) simp
  also have "\<dots> = m mod 2 + Suc (popcount (m div 2))"
    using Suc by (subst Suc.IH) auto
  also have "\<dots> = Suc (popcount m)" by (subst (2) popcount_rec) simp
  finally show ?case .
qed

lemma popcount_bound: "n < 2 ^ k \<Longrightarrow> popcount n \<le> k"
proof (induction k arbitrary: n)
  case 0
  then show ?case by simp
next
  case (Suc k)
  then have "n div 2 < 2 ^ k" by auto
  from Suc.IH [OF this] show ?case by (subst popcount_rec) auto
qed

declare CountBitsSet_loop.simps [simp del]

lemma CountBitsSet_loop_popcount:
  "CountBitsSet_loop n c = c + of_nat (popcount (unat n))"
proof (induction n c rule: CountBitsSet_loop.induct)
  case (1 n c)
  show ?case
  proof (cases "n = 0")
    case True
    then show ?thesis by (simp add: CountBitsSet_loop.simps [of 0])
  next
    case False
    have low: "(ucast (n AND 1) :: u8) = of_nat (unat n mod 2)"
      using bit_unsigned_iff [of n 0, where ?'a = nat]
      by (simp add: and_one_eq mod_2_eq_odd bit_0)
    have half: "unat (drop_bit 1 n) = unat n div 2"
      by (subst unat_drop_bit_eq) (simp add: drop_bit_eq_div)
    show ?thesis
      using 1 False low half
      by (simp add: CountBitsSet_loop.simps [of n] popcount_rec [of "unat n"] add.assoc)
  qed
qed

lemma unat_CountBitsSet: "unat (CountBitsSet x) = popcount (unat x)"
proof -
  have "popcount (unat x) \<le> 64" by (rule popcount_bound) (simp add: unat_u64_lt)
  then show ?thesis
    by (simp add: CountBitsSet_def CountBitsSet_loop_popcount unat_of_nat)
qed


section \<open>EndianUtil\<close>

text \<open>
  The union in \<^verbatim>\<open>IsBigEndian\<close> reads the first byte in memory of an integer. The functions that
  write through a pointer take and return the bytes the pointer points to.
\<close>

definition IsBigEndian :: "bool \<Rightarrow> bool" where
  "IsBigEndian be \<longleftrightarrow> mem_of be (0x01020304 :: u32) ! 0 = 1"

definition changeEndianness16 :: "u16 \<Rightarrow> u16" where
  "changeEndianness16 val = push_bit 8 val OR (drop_bit 8 val AND 0x00ff)"

definition changeEndianness32 :: "u32 \<Rightarrow> u32" where
  "changeEndianness32 val =
     push_bit 24 val OR (push_bit 8 val AND 0x00ff0000) OR (drop_bit 8 val AND 0x0000ff00)
     OR (drop_bit 24 val AND 0x000000ff)"

definition changeEndianness64 :: "u64 \<Rightarrow> u64" where
  "changeEndianness64 val =
     (let x = val;
          x = push_bit 32 (x AND 0x00000000FFFFFFFF) OR drop_bit 32 (x AND 0xFFFFFFFF00000000);
          x = push_bit 16 (x AND 0x0000FFFF0000FFFF) OR drop_bit 16 (x AND 0xFFFF0000FFFF0000);
          x = push_bit 8 (x AND 0x00FF00FF00FF00FF) OR drop_bit 8 (x AND 0xFF00FF00FF00FF00)
      in x)"

definition GetBigEndian16 :: "bool \<Rightarrow> u16 \<Rightarrow> u16" where
  "GetBigEndian16 be val = (if IsBigEndian be then val else changeEndianness16 val)"

definition GetBigEndian32 :: "bool \<Rightarrow> u32 \<Rightarrow> u32" where
  "GetBigEndian32 be val = (if IsBigEndian be then val else changeEndianness32 val)"

definition GetBigEndian64 :: "bool \<Rightarrow> u64 \<Rightarrow> u64" where
  "GetBigEndian64 be val = (if IsBigEndian be then val else changeEndianness64 val)"

definition GetLittleEndian32 :: "bool \<Rightarrow> u32 \<Rightarrow> u32" where
  "GetLittleEndian32 be val = (if \<not> IsBigEndian be then val else changeEndianness32 val)"

definition GetLittleEndian64 :: "bool \<Rightarrow> u64 \<Rightarrow> u64" where
  "GetLittleEndian64 be val = (if \<not> IsBigEndian be then val else changeEndianness64 val)"

definition read_mem :: "bool \<Rightarrow> bytes \<Rightarrow> 'a::len word result" where
  "read_mem be ptr =
     (if LENGTH('a) div 8 \<le> length ptr then Inr (of_mem be (take (LENGTH('a) div 8) ptr))
      else Inl UndefinedBehaviour)"

definition write_mem :: "bool \<Rightarrow> bytes \<Rightarrow> 'a::len word \<Rightarrow> bytes result" where
  "write_mem be ptr v =
     (if LENGTH('a) div 8 \<le> length ptr then Inr (mem_of be v @ drop (LENGTH('a) div 8) ptr)
      else Inl UndefinedBehaviour)"

definition ReadBE32 :: "bool \<Rightarrow> bytes \<Rightarrow> u32 result" where
  "ReadBE32 be ptr = rbind (read_mem be ptr) (\<lambda>x. Inr (GetBigEndian32 be x))"

definition ReadBE64 :: "bool \<Rightarrow> bytes \<Rightarrow> u64 result" where
  "ReadBE64 be ptr = rbind (read_mem be ptr) (\<lambda>x. Inr (GetBigEndian64 be x))"

definition WriteBE32 :: "bool \<Rightarrow> bytes \<Rightarrow> u32 \<Rightarrow> bytes result" where
  "WriteBE32 be ptr x = (let v = GetBigEndian32 be x in write_mem be ptr v)"

definition WriteBE64 :: "bool \<Rightarrow> bytes \<Rightarrow> u64 \<Rightarrow> bytes result" where
  "WriteBE64 be ptr x = (let v = GetBigEndian64 be x in write_mem be ptr v)"

definition ReadLE32 :: "bool \<Rightarrow> bytes \<Rightarrow> u32 result" where
  "ReadLE32 be ptr = rbind (read_mem be ptr) (\<lambda>x. Inr (GetLittleEndian32 be x))"

definition WriteLE32 :: "bool \<Rightarrow> bytes \<Rightarrow> u32 \<Rightarrow> bytes result" where
  "WriteLE32 be ptr x = (let v = GetLittleEndian32 be x in write_mem be ptr v)"

definition WriteLE64 :: "bool \<Rightarrow> bytes \<Rightarrow> u64 \<Rightarrow> bytes result" where
  "WriteLE64 be ptr x = (let v = GetLittleEndian64 be x in write_mem be ptr v)"

lemma IsBigEndian_iff [simp]: "IsBigEndian be \<longleftrightarrow> be"
  by (simp add: IsBigEndian_def mem_of_def le_bytes_def upt_rec)

text \<open>The three byte swaps reverse the bytes in memory.\<close>

lemma le_bytes_eqI:
  fixes v :: "'a::len word"
  assumes "8 dvd LENGTH('a)" "length bs = LENGTH('a) div 8"
    and "\<And>i. i < LENGTH('a) \<Longrightarrow> bit v i = bit (bs ! (i div 8)) (i mod 8)"
  shows "le_bytes v = bs"
proof -
  have "v = of_le_bytes bs"
    by (rule bit_word_eqI) (use assms in \<open>auto simp: bit_of_le_bytes div_less_iff_less_mult\<close>)
  then show ?thesis using assms by simp
qed

lemma nth_be_bytes:
  "i < LENGTH('a) div 8 \<Longrightarrow>
     be_bytes (w :: 'a::len word) ! i = ucast (drop_bit (8 * (LENGTH('a) div 8 - Suc i)) w)"
  by (simp add: rev_nth le_bytes_def)

lemma le_bytes_swapI:
  fixes v w :: "'a::len word"
  assumes "8 dvd LENGTH('a)"
    and "list_all (\<lambda>i. bit v i = bit w (8 * (LENGTH('a) div 8 - Suc (i div 8)) + i mod 8)) [0..<LENGTH('a)]"
  shows "le_bytes v = be_bytes w"
proof (rule le_bytes_eqI)
  fix i assume i: "i < LENGTH('a)"
  then have "i div 8 < LENGTH('a) div 8" using assms(1) by (auto simp: div_less_iff_less_mult)
  moreover have "bit v i = bit w (8 * (LENGTH('a) div 8 - Suc (i div 8)) + i mod 8)"
    using assms(2) i by (simp add: list_all_iff)
  ultimately show "bit v i = bit (be_bytes w ! (i div 8)) (i mod 8)"
    by (simp add: nth_be_bytes bit_ucast_iff bit_drop_bit_eq)
qed (use assms(1) in simp_all)

lemmas swap_bits =
  upt_rec [of 0] upt_rec [of "Suc 0"] numeral_2_eq_2 [symmetric] bit_or_iff bit_and_iff bit_push_bit_iff bit_drop_bit_eq

lemma le_bytes_changeEndianness16: "le_bytes (changeEndianness16 w) = be_bytes w"
  by (rule le_bytes_swapI) (simp_all add: changeEndianness16_def swap_bits)

lemma le_bytes_changeEndianness32: "le_bytes (changeEndianness32 w) = be_bytes w"
  by (rule le_bytes_swapI) (simp_all add: changeEndianness32_def swap_bits)

lemma le_bytes_changeEndianness64: "le_bytes (changeEndianness64 w) = be_bytes w"
  by (rule le_bytes_swapI) (simp_all add: changeEndianness64_def Let_def swap_bits)


lemma mem_of_GetBigEndian [mw_codec]:
  "mem_of be (GetBigEndian16 be x16) = be_bytes x16"
  "mem_of be (GetBigEndian32 be x32) = be_bytes x32"
  "mem_of be (GetBigEndian64 be x64) = be_bytes x64"
  by (simp_all add: GetBigEndian16_def GetBigEndian32_def GetBigEndian64_def mem_of_def
      le_bytes_changeEndianness16 le_bytes_changeEndianness32 le_bytes_changeEndianness64)

lemma mem_of_GetLittleEndian [mw_codec]:
  "mem_of be (GetLittleEndian32 be x32) = le_bytes x32"
  "mem_of be (GetLittleEndian64 be x64) = le_bytes x64"
  by (simp_all add: GetLittleEndian32_def GetLittleEndian64_def mem_of_def
      le_bytes_changeEndianness32 le_bytes_changeEndianness64)

lemma changeEndianness_of_le_bytes:
  "length bs = 4 \<Longrightarrow> changeEndianness32 (of_le_bytes bs) = of_le_bytes (rev bs)"
  "length bs = 8 \<Longrightarrow> changeEndianness64 (of_le_bytes bs) = of_le_bytes (rev bs)"
  using le_bytes_inject [of "changeEndianness32 (of_le_bytes bs)" "of_le_bytes (rev bs)"]
    le_bytes_inject [of "changeEndianness64 (of_le_bytes bs)" "of_le_bytes (rev bs)"]
  by (simp_all add: le_bytes_changeEndianness32 le_bytes_changeEndianness64)

lemma GetBigEndian_of_mem [mw_codec]:
  "length bs = 4 \<Longrightarrow> GetBigEndian32 be (of_mem be bs) = of_le_bytes (rev bs)"
  "length bs = 8 \<Longrightarrow> GetBigEndian64 be (of_mem be bs) = of_le_bytes (rev bs)"
  by (simp_all add: GetBigEndian32_def GetBigEndian64_def of_mem_def changeEndianness_of_le_bytes)

lemma GetLittleEndian_of_mem [mw_codec]:
  "length bs = 4 \<Longrightarrow> GetLittleEndian32 be (of_mem be bs) = of_le_bytes bs"
  by (simp add: GetLittleEndian32_def of_mem_def changeEndianness_of_le_bytes)

lemmas endian_io_defs =
  ReadBE32_def ReadBE64_def WriteBE32_def WriteBE64_def ReadLE32_def WriteLE32_def WriteLE64_def
  read_mem_def write_mem_def Let_def

text \<open>
  What is written on a host with one byte order is read back on a host with the other: big
  endian for the BE functions, little endian for the LE ones.
\<close>

lemma ReadBE32_WriteBE32:
  "4 \<le> length ptr \<Longrightarrow>
     WriteBE32 be ptr x = Inr (be_bytes x @ drop 4 ptr) \<and>
     ReadBE32 be' (be_bytes x @ drop 4 ptr) = Inr x"
  by (simp add: endian_io_defs mw_codec)

lemma ReadBE64_WriteBE64:
  "8 \<le> length ptr \<Longrightarrow>
     WriteBE64 be ptr x = Inr (be_bytes x @ drop 8 ptr) \<and>
     ReadBE64 be' (be_bytes x @ drop 8 ptr) = Inr x"
  by (simp add: endian_io_defs mw_codec)

lemma ReadLE32_WriteLE32:
  "4 \<le> length ptr \<Longrightarrow>
     WriteLE32 be ptr x = Inr (le_bytes x @ drop 4 ptr) \<and>
     ReadLE32 be' (le_bytes x @ drop 4 ptr) = Inr x"
  by (simp add: endian_io_defs mw_codec)

text \<open>
  The endian helpers do not depend on the host: whatever the byte order of the machine that
  writes and of the machine that reads, \<open>WriteBE32\<close>, \<open>WriteBE64\<close> and \<open>WriteLE32\<close> fill the buffer
  with the same bytes and the matching read returns the value written, for any buffer that is
  large enough.
\<close>

lemma endian_roundtrip:
  assumes "8 \<le> length ptr"
  shows "(rbind (WriteBE32 be ptr x) (ReadBE32 be') = Inr x \<and> WriteBE32 be ptr x = WriteBE32 be' ptr x) \<and>
     (rbind (WriteBE64 be ptr y) (ReadBE64 be') = Inr y \<and> WriteBE64 be ptr y = WriteBE64 be' ptr y) \<and>
     (rbind (WriteLE32 be ptr x) (ReadLE32 be') = Inr x \<and> WriteLE32 be ptr x = WriteLE32 be' ptr x)"
  using assms ReadBE32_WriteBE32 [of ptr] ReadBE64_WriteBE64 [of ptr] ReadLE32_WriteLE32 [of ptr]
  by simp

theorem endian_roundtrip_witness:
  "rbind (WriteBE32 False (replicate 8 0) 0x01020304) (ReadBE32 True) = Inr 0x01020304"
proof -
  have h: "8 \<le> length (replicate 8 (0 :: u8))" by simp
  show ?thesis using endian_roundtrip [OF h] by blast
qed

section \<open>HexUtil\<close>

text \<open>A \<^verbatim>\<open>char\<close> is a signed byte on the supported platforms.\<close>

definition char_int :: "char \<Rightarrow> int" where
  "char_int c = (let n = int (of_char c) in if n < 128 then n else n - 256)"

definition is_hex_digit :: "char \<Rightarrow> bool" where
  "is_hex_digit c \<longleftrightarrow> c \<in> set ''0123456789abcdefABCDEF''"

definition IsValidHex :: "string \<Rightarrow> bool" where
  "IsValidHex data =
     (if take 2 data = ''0x'' \<and> 2 < length data
      then list_all is_hex_digit (drop 2 data)
      else list_all is_hex_digit data)"

definition FromHexChar :: "char \<Rightarrow> u8" where
  "FromHexChar value =
     (if char_int value \<le> char_int CHR ''9'' \<and> 0 \<le> char_int value
      then of_int (char_int value - char_int CHR ''0'')
      else if char_int CHR ''a'' \<le> char_int value
      then of_int (10 + char_int value - char_int CHR ''a'')
      else of_int (10 + char_int value - char_int CHR ''A''))"

text \<open>\<^verbatim>\<open>hex[i + 1]\<close> at the end of the string is the terminating NUL character.\<close>

fun FromHex :: "string \<Rightarrow> bytes" where
  "FromHex [] = []"
| "FromHex [c] = [FromHexChar c * 16 + FromHexChar (CHR 0x00)]"
| "FromHex (c # d # hex) = (FromHexChar c * 16 + FromHexChar d) # FromHex hex"

definition hex_char :: "nat \<Rightarrow> char" where
  "hex_char n = ''0123456789abcdef'' ! n"

definition ToHex :: "bytes \<Rightarrow> string" where
  "ToHex data = concat (map (\<lambda>byte. [hex_char (unat byte div 16), hex_char (unat byte mod 16)]) data)"

definition ToHex_n :: "bytes \<Rightarrow> nat \<Rightarrow> string result" where
  "ToHex_n data numBytes =
     (if numBytes \<le> length data then Inr (ToHex (take numBytes data)) else Inl UndefinedBehaviour)"

lemma all_nibbles: "(\<forall>n<16. P n) \<longleftrightarrow> list_all P [0..<16]" for P :: "nat \<Rightarrow> bool"
  by (auto simp: list_all_iff)

lemma FromHexChar_hex_char: "n < 16 \<Longrightarrow> FromHexChar (hex_char n) = of_nat n"
proof -
  have "\<forall>n<16. FromHexChar (hex_char n) = of_nat n"
    unfolding all_nibbles by code_simp
  then show "n < 16 \<Longrightarrow> ?thesis" by blast
qed

lemma is_hex_digit_hex_char: "n < 16 \<Longrightarrow> is_hex_digit (hex_char n)"
proof -
  have "\<forall>n<16. is_hex_digit (hex_char n)"
    unfolding all_nibbles by code_simp
  then show "n < 16 \<Longrightarrow> ?thesis" by blast
qed

lemma nibbles: "of_nat (unat (b::u8) div 16) * 16 + of_nat (unat b mod 16) = b"
proof -
  have "of_nat (unat b div 16) * 16 + of_nat (unat b mod 16) =
      (of_nat (unat b div 16 * 16 + unat b mod 16) :: u8)"
    by (simp only: of_nat_add of_nat_mult of_nat_numeral)
  also have "\<dots> = b" by (simp only: div_mult_mod_eq) simp
  finally show ?thesis .
qed

lemma unat_u8_div_16: "unat (b :: u8) div 16 < 16"
  using unsigned_less [of b, where ?'a = nat] by (simp add: div_less_iff_less_mult)

lemma FromHex_ToHex: "FromHex (ToHex data) = data"
  by (induction data) (simp_all add: ToHex_def FromHexChar_hex_char unat_u8_div_16 nibbles)

lemma length_ToHex [simp]: "length (ToHex data) = 2 * length data"
  by (induction data) (simp_all add: ToHex_def)

lemma list_all_ToHex: "list_all is_hex_digit (ToHex data)"
  by (induction data) (simp_all add: ToHex_def is_hex_digit_hex_char unat_u8_div_16)

lemma length_FromHex: "length (FromHex hex) = (length hex + 1) div 2"
  by (induction hex rule: FromHex.induct) simp_all

lemma ToHex_inject: "ToHex a = ToHex b \<longleftrightarrow> a = b"
  by (metis FromHex_ToHex)


text \<open>
  Hex encoding: \<open>ToHex\<close> writes two digits per byte, its result is accepted by \<open>IsValidHex\<close>, and
  \<open>FromHex\<close> returns the bytes that \<open>ToHex\<close> was given.
\<close>

lemma hex_roundtrip:
  "FromHex (ToHex data) = data \<and> IsValidHex (ToHex data) \<and> length (ToHex data) = 2 * length data"
proof -
  have x: "CHR ''x'' \<notin> set (ToHex data)"
  proof
    assume "CHR ''x'' \<in> set (ToHex data)"
    then have "is_hex_digit (CHR ''x'')" using list_all_ToHex [of data] by (simp add: list_all_iff)
    moreover have "\<not> is_hex_digit (CHR ''x'')" by code_simp
    ultimately show False by blast
  qed
  have "take 2 (ToHex data) \<noteq> ''0x''"
  proof
    assume "take 2 (ToHex data) = ''0x''"
    then have "CHR ''x'' \<in> set (take 2 (ToHex data))" by simp
    then show False using x by (auto dest: in_set_takeD)
  qed
  then show ?thesis using FromHex_ToHex list_all_ToHex by (simp add: IsValidHex_def)
qed

section \<open>StringUtil\<close>

definition StartsWith :: "string \<Rightarrow> string \<Rightarrow> bool" where
  "StartsWith value beginning =
     (if length beginning > length value then False
      else take (length beginning) value = beginning)"

definition EndsWith :: "string \<Rightarrow> string \<Rightarrow> bool" where
  "EndsWith value ending =
     (if length ending > length value then False
      else take (length ending) (rev value) = rev ending)"

text \<open>\<^verbatim>\<open>find_first_of\<close> and \<^verbatim>\<open>find_first_not_of\<close> from a position; \<open>None\<close> is \<^verbatim>\<open>npos\<close>.\<close>

definition find_from :: "(char \<Rightarrow> bool) \<Rightarrow> string \<Rightarrow> nat option \<Rightarrow> nat option" where
  "find_from P str pos =
     (case pos of None \<Rightarrow> None
      | Some i \<Rightarrow> (let k = i + length (takeWhile (\<lambda>c. \<not> P c) (drop i str))
                  in if k < length str then Some k else None))"

definition find_first_of :: "string \<Rightarrow> string \<Rightarrow> nat option \<Rightarrow> nat option" where
  "find_first_of str delimiter = find_from (\<lambda>c. c \<in> set delimiter) str"

definition find_first_not_of :: "string \<Rightarrow> string \<Rightarrow> nat option \<Rightarrow> nat option" where
  "find_first_not_of str delimiter = find_from (\<lambda>c. c \<notin> set delimiter) str"

definition substr :: "string \<Rightarrow> nat \<Rightarrow> nat option \<Rightarrow> string" where
  "substr str i j = (case j of None \<Rightarrow> drop i str | Some k \<Rightarrow> take (k - i) (drop i str))"

lemma find_from_Some:
  assumes "find_from P str (Some i) = Some k"
  shows "i \<le> k \<and> k < length str \<and> P (str ! k)"
proof -
  let ?t = "takeWhile (\<lambda>c. \<not> P c) (drop i str)"
  have k: "k = i + length ?t" "k < length str"
    using assms by (auto simp: find_from_def Let_def split: if_splits)
  then have "length ?t < length (drop i str)" by simp
  then have "P (drop i str ! length ?t)" using nth_length_takeWhile by blast
  then show ?thesis using k by simp
qed

text \<open>
  The loop of \<open>Split\<close>: \<open>lastPos\<close> determines \<open>pos\<close>, and the loop ends when both are \<^verbatim>\<open>npos\<close>,
  that is when \<open>lastPos\<close> is.
\<close>

function Split_loop :: "string \<Rightarrow> string \<Rightarrow> nat option \<Rightarrow> string list" where
  "Split_loop str delimiter lastPos =
     (case lastPos of None \<Rightarrow> []
      | Some l \<Rightarrow> (let pos = find_first_of str delimiter (Some l)
                  in substr str l pos #
                     Split_loop str delimiter (find_first_not_of str delimiter pos)))"
  by pat_completeness auto
termination
proof (relation "measure (\<lambda>(str, d, p). case p of None \<Rightarrow> 0 | Some l \<Rightarrow> Suc (length str - l))")
  fix str d lastPos l pos
  assume l: "lastPos = Some l" and pos: "pos = find_first_of str d (Some l)"
  show "((str, d, find_first_not_of str d pos), str, d, lastPos)
    \<in> measure (\<lambda>(str, d, p). case p of None \<Rightarrow> 0 | Some l \<Rightarrow> Suc (length str - l))"
  proof (cases "find_first_not_of str d pos")
    case (Some q)
    then obtain p where p: "pos = Some p" by (cases pos) (auto simp: find_first_not_of_def find_from_def)
    have "l \<le> p" "str ! p \<in> set d" using pos p find_from_Some [of _ str l p] by (auto simp: find_first_of_def)
    moreover have "p \<le> q" "q < length str" "str ! q \<notin> set d"
      using Some p find_from_Some [of _ str p q] by (auto simp: find_first_not_of_def)
    ultimately have "l < q" "q < length str" by (auto simp: le_less)
    then show ?thesis using Some l by auto
  qed (simp add: l)
qed simp

definition Split :: "string \<Rightarrow> string \<Rightarrow> string list" where
  "Split str delimiter = Split_loop str delimiter (find_first_not_of str delimiter (Some 0))"

definition tolower :: "char \<Rightarrow> char" where
  "tolower c = (if 65 \<le> (of_char c :: nat) \<and> (of_char c :: nat) \<le> 90 then char_of (of_char c + 32 :: nat) else c)"

definition ToLower :: "string \<Rightarrow> string" where
  "ToLower str = foldl (\<lambda>output elem. output @ [tolower elem]) [] str"

definition isspace :: "char \<Rightarrow> bool" where
  "isspace c \<longleftrightarrow> (of_char c :: nat) = 32 \<or> 9 \<le> (of_char c :: nat) \<and> (of_char c :: nat) \<le> 13"

definition Trim :: "string \<Rightarrow> string" where
  "Trim s = (let copy = dropWhile isspace s
             in rev (dropWhile (\<lambda>ch. \<not> (\<not> isspace ch \<and> ch \<noteq> CHR 0x0D \<and> ch \<noteq> CHR 0x0A)) (rev copy)))"

subsection \<open>Split against a reference tokeniser\<close>

text \<open>The maximal runs of characters outside the delimiter set, in order.\<close>

function tokens :: "(char \<Rightarrow> bool) \<Rightarrow> string \<Rightarrow> string list" where
  "tokens D [] = []"
| "tokens D (c # cs) =
     (if D c then tokens D cs
      else (c # takeWhile (\<lambda>x. \<not> D x) cs) # tokens D (dropWhile (\<lambda>x. \<not> D x) cs))"
  by pat_completeness auto
termination
  by (relation "measure (\<lambda>(D, s). length s)") (simp_all add: less_Suc_eq_le length_dropWhile_le)

lemma tokens_dropWhile: "tokens D (dropWhile D s) = tokens D s"
  by (induction s) simp_all

lemma tokens_first:
  "s \<noteq> [] \<Longrightarrow> \<not> D (hd s) \<Longrightarrow>
     tokens D s = takeWhile (\<lambda>x. \<not> D x) s # tokens D (dropWhile (\<lambda>x. \<not> D x) s)"
  by (cases s) simp_all

lemma drop_takeWhile_length: "drop (i + length (takeWhile P (drop i s))) s = dropWhile P (drop i s)"
  by (metis add.commute drop_drop dropWhile_eq_drop)

lemma find_from_eq:
  "find_from P str (Some i) =
     (if dropWhile (\<lambda>c. \<not> P c) (drop i str) = [] then None
      else Some (i + length (takeWhile (\<lambda>c. \<not> P c) (drop i str))))"
proof -
  let ?k = "i + length (takeWhile (\<lambda>c. \<not> P c) (drop i str))"
  have "dropWhile (\<lambda>c. \<not> P c) (drop i str) = drop ?k str"
    by (simp add: drop_takeWhile_length)
  then have "?k < length str \<longleftrightarrow> dropWhile (\<lambda>c. \<not> P c) (drop i str) \<noteq> []" by auto
  then show ?thesis by (simp add: find_from_def Let_def)
qed

declare Split_loop.simps [simp del]

lemma Split_loop_tokens:
  "Split_loop str d (find_first_not_of str d (Some i)) = tokens (\<lambda>c. c \<in> set d) (drop i str)"
proof (induction "length str - i" arbitrary: i rule: less_induct)
  case less
  let ?D = "\<lambda>c. c \<in> set d"
  let ?r = "dropWhile ?D (drop i str)"
  have toks: "tokens ?D (drop i str) = tokens ?D ?r" by (simp add: tokens_dropWhile)
  show ?case
  proof (cases "?r = []")
    case True
    then have "find_first_not_of str d (Some i) = None"
      by (simp add: find_first_not_of_def find_from_eq)
    then show ?thesis unfolding toks True by (simp add: Split_loop.simps [of _ _ None])
  next
    case False
    define q where "q = i + length (takeWhile ?D (drop i str))"
    have r: "?r = drop q str" by (simp add: q_def drop_takeWhile_length)
    have q: "q < length str" using False r by simp
    have nd: "\<not> ?D (hd (drop q str))" using False r hd_dropWhile by metis
    let ?t = "takeWhile (\<lambda>c. \<not> ?D c) (drop q str)"
    define k where "k = q + length ?t"
    have k: "drop k str = dropWhile (\<lambda>c. \<not> ?D c) (drop q str)" by (simp add: k_def drop_takeWhile_length)
    have t: "tokens ?D (drop q str) = ?t # tokens ?D (drop k str)"
      unfolding k using nd q by (intro tokens_first) simp_all
    have "?t \<noteq> []" using nd q by (cases "drop q str") auto
    then have qk: "q < k" by (simp add: k_def)
    have first: "find_first_not_of str d (Some i) = Some q"
      using False by (simp add: find_first_not_of_def find_from_eq q_def)
    have pos: "find_first_of str d (Some q) = (if drop k str = [] then None else Some k)"
      unfolding find_first_of_def find_from_eq k k_def [symmetric] ..
    have "substr str q (find_first_of str d (Some q)) = ?t"
    proof (cases "drop k str = []")
      case True
      then have e: "?t = drop q str" using k by (metis append_Nil2 takeWhile_dropWhile_id)
      show ?thesis unfolding e pos if_P [OF True] by (simp add: substr_def)
    next
      case False
      have "take (length ?t) (drop q str) = ?t" by (rule takeWhile_eq_take [symmetric])
      then show ?thesis unfolding pos if_not_P [OF False] by (simp add: substr_def k_def)
    qed
    moreover have "Split_loop str d (find_first_not_of str d (find_first_of str d (Some q))) =
        tokens ?D (drop k str)"
    proof (cases "drop k str = []")
      case True
      then show ?thesis
        using pos by (simp add: find_first_not_of_def find_from_def Split_loop.simps [of _ _ None])
    next
      case False
      then have "k < length str" by simp
      then have "length str - k < length str - i" using qk q_def by linarith
      then show ?thesis using less [of k] pos False by simp
    qed
    ultimately show ?thesis
      using toks r t first by (simp add: Split_loop.simps [of str d "Some q"] Let_def)
  qed
qed

text \<open>
  C40. \<open>Split\<close> returns the maximal runs of characters that are not delimiters, in order: the
  index loop over \<open>find_first_of\<close> and \<open>find_first_not_of\<close> agrees with a reference tokeniser and
  always ends.
\<close>

theorem Split_tokens: "Split str delimiter = tokens (\<lambda>c. c \<in> set delimiter) str"
  unfolding Split_def using Split_loop_tokens [of str delimiter 0] by simp

lemma StartsWith_iff: "StartsWith value beginning \<longleftrightarrow> (\<exists>rest. value = beginning @ rest)"
  by (auto simp: StartsWith_def) (metis append_take_drop_id)

lemma EndsWith_iff: "EndsWith value ending \<longleftrightarrow> (\<exists>front. value = front @ ending)"
proof -
  have "EndsWith value ending \<longleftrightarrow> StartsWith (rev value) (rev ending)"
    by (simp add: EndsWith_def StartsWith_def)
  also have "\<dots> \<longleftrightarrow> (\<exists>front. value = front @ ending)"
    unfolding StartsWith_iff by (metis rev_append rev_rev_ident)
  finally show ?thesis .
qed

lemma ToLower_map: "ToLower str = map tolower str"
proof -
  have "foldl (\<lambda>output elem. output @ [tolower elem]) acc str = acc @ map tolower str" for acc
    by (induction str arbitrary: acc) simp_all
  then show ?thesis by (simp add: ToLower_def)
qed

end
