(* ===== verification/MW_Mmr_Index.thy ===== *)
theory MW_Mmr_Index
  imports MW_Util
begin

text \<open>
  Positions in a Merkle Mountain Range: \<^verbatim>\<open>mmr/Index.h\<close>, \<^verbatim>\<open>mmr/Index.cpp\<close> and \<^verbatim>\<open>mmr/LeafIndex.h\<close>.
  The code computes heights, parents, siblings, children and leaf numbers with bit tricks on
  64-bit words. The reference is the definition the comment in Index.h draws: the list of node
  heights of a perfect binary tree in postorder, \<open>tree_heights\<close>. The lemmas show that every
  operation agrees with it wherever the 64-bit arithmetic does not wrap.
\<close>

section \<open>The model\<close>

record Index =
  m_position :: u64
  m_height :: u64

record LeafIndex =
  m_leafIndex :: u64
  m_nodeIndex :: Index

definition mk_Index :: "u64 \<Rightarrow> u64 \<Rightarrow> Index" where
  "mk_Index position height = \<lparr>m_position = position, m_height = height\<rparr>"

text \<open>\<^verbatim>\<open>1ULL << n\<close>: undefined behaviour when the shift is not less than the width.\<close>

definition shl_1 :: "u64 \<Rightarrow> u64 result" where
  "shl_1 n = (if n < 64 then Inr (push_bit (unat n) 1) else Inl UndefinedBehaviour)"

function CalculateHeight_loop :: "u64 \<Rightarrow> u64 \<Rightarrow> u64" where
  "CalculateHeight_loop peakSize height =
     (if peakSize \<noteq> 0
      then CalculateHeight_loop (drop_bit 1 peakSize)
             (if peakSize \<le> height then height - peakSize else height)
      else height)"
  by pat_completeness auto
termination
  by (relation "measure (\<lambda>(p, h). unat p)") (simp_all add: unat_halve_less)

definition CalculateHeight :: "u64 \<Rightarrow> u64" where
  "CalculateHeight position =
     CalculateHeight_loop (FillOnesToRight (position + 1)) position"

function CalculateLeafIndex_loop :: "u64 \<Rightarrow> u64 \<Rightarrow> u64 \<Rightarrow> u64" where
  "CalculateLeafIndex_loop peakSize numLeft leafIndex =
     (if peakSize \<noteq> 0
      then if peakSize \<le> numLeft
           then CalculateLeafIndex_loop (drop_bit 1 peakSize) (numLeft - peakSize)
                  (leafIndex + (peakSize + 1) div 2)
           else CalculateLeafIndex_loop (drop_bit 1 peakSize) numLeft leafIndex
      else leafIndex)"
  by pat_completeness auto
termination
  by (relation "measure (\<lambda>(p, n, l). unat p)") (simp_all add: unat_halve_less)

definition CalculateLeafIndex :: "u64 \<Rightarrow> u64" where
  "CalculateLeafIndex position =
     CalculateLeafIndex_loop (FillOnesToRight position) position 0"

definition Index_At :: "u64 \<Rightarrow> Index" where
  "Index_At position = mk_Index position (CalculateHeight position)"

definition Index_eq :: "Index \<Rightarrow> Index \<Rightarrow> bool" where
  "Index_eq lhs rhs \<longleftrightarrow> m_position lhs = m_position rhs \<and> m_height lhs = m_height rhs"

definition IsLeaf :: "Index \<Rightarrow> bool" where
  "IsLeaf idx \<longleftrightarrow> m_height idx = 0"

definition Index_GetLeafIndex :: "Index \<Rightarrow> u64" where
  "Index_GetLeafIndex idx = CalculateLeafIndex (m_position idx)"

definition Index_GetNext :: "Index \<Rightarrow> Index" where
  "Index_GetNext idx = Index_At (m_position idx + 1)"

definition Index_GetParent :: "Index \<Rightarrow> Index result" where
  "Index_GetParent idx =
     (if CalculateHeight (m_position idx + 1) = m_height idx + 1
      then Inr (mk_Index (m_position idx + 1) (m_height idx + 1))
      else rbind (shl_1 (m_height idx + 1)) (\<lambda>s.
        Inr (mk_Index (m_position idx + s) (m_height idx + 1))))"

definition Index_GetSibling :: "Index \<Rightarrow> Index result" where
  "Index_GetSibling idx =
     (if CalculateHeight (m_position idx + 1) = m_height idx + 1
      then rbind (shl_1 (m_height idx + 1)) (\<lambda>s.
        Inr (mk_Index (m_position idx + 1 - s) (m_height idx)))
      else rbind (shl_1 (m_height idx + 1)) (\<lambda>s.
        Inr (mk_Index (m_position idx + s - 1) (m_height idx))))"

definition Index_GetLeftChild :: "Index \<Rightarrow> Index result" where
  "Index_GetLeftChild idx =
     rbind (shl_1 (m_height idx)) (\<lambda>s.
       Inr (mk_Index (m_position idx - s) (m_height idx - 1)))"

definition Index_GetRightChild :: "Index \<Rightarrow> Index" where
  "Index_GetRightChild idx = mk_Index (m_position idx - 1) (m_height idx - 1)"

definition mk_LeafIndex :: "u64 \<Rightarrow> u64 \<Rightarrow> LeafIndex" where
  "mk_LeafIndex leafIndex position =
     \<lparr>m_leafIndex = leafIndex, m_nodeIndex = mk_Index position 0\<rparr>"

definition LeafIndex_At :: "u64 \<Rightarrow> LeafIndex" where
  "LeafIndex_At leafIndex =
     mk_LeafIndex leafIndex (2 * leafIndex - ucast (CountBitsSet leafIndex))"

definition LeafIndex_GetPosition :: "LeafIndex \<Rightarrow> u64" where
  "LeafIndex_GetPosition idx = m_position (m_nodeIndex idx)"

section \<open>The reference: heights of a perfect tree in postorder\<close>

primrec tree_heights :: "nat \<Rightarrow> nat list" where
  "tree_heights 0 = [0]"
| "tree_heights (Suc h) = tree_heights h @ tree_heights h @ [Suc h]"

definition tree_size :: "nat \<Rightarrow> nat" where
  "tree_size h = 2 ^ Suc h - 1"

lemma tree_size_simps [simp]:
  "tree_size 0 = 1"
  "tree_size (Suc h) = Suc (2 * tree_size h)"
proof -
  have "0 < (2::nat) ^ h" by simp
  then show "tree_size (Suc h) = Suc (2 * tree_size h)"
    unfolding tree_size_def power_Suc by linarith
qed (simp add: tree_size_def)

lemma Suc_tree_size: "Suc (tree_size h) = 2 ^ Suc h"
  by (simp add: tree_size_def)

lemma tree_size_pos [simp]: "0 < tree_size h"
  by (induction h) auto

lemma tree_size_mono: "h \<le> k \<Longrightarrow> tree_size h \<le> tree_size k"
  unfolding tree_size_def by (intro diff_le_mono power_increasing) auto

lemma length_tree_heights [simp]: "length (tree_heights h) = tree_size h"
  by (induction h) simp_all

text \<open>Each tree is the beginning of the next one, so the height of a position is well defined.\<close>

lemma tree_heights_prefix:
  "h \<le> k \<Longrightarrow> p < tree_size h \<Longrightarrow> tree_heights k ! p = tree_heights h ! p"
proof (induction k)
  case (Suc k)
  show ?case
  proof (cases "h = Suc k")
    case False
    then have "h \<le> k" using Suc.prems by simp
    then show ?thesis using Suc tree_size_mono [of h k] by (simp add: nth_append)
  qed simp
qed simp

definition node_height :: "nat \<Rightarrow> nat" where
  "node_height p = tree_heights p ! p"

lemma self_less_tree_size: "p < tree_size p"
  by (induction p) auto

lemma node_height_tree: "p < tree_size h \<Longrightarrow> node_height p = tree_heights h ! p"
  unfolding node_height_def
  using self_less_tree_size tree_heights_prefix nat_le_linear by metis

lemma node_height_0 [simp]: "node_height 0 = 0"
  by (simp add: node_height_def)

lemma node_height_shift: "q < tree_size h \<Longrightarrow> node_height (tree_size h + q) = node_height q"
  using node_height_tree [of "tree_size h + q" "Suc h"] node_height_tree [of q h]
  by (simp add: nth_append)

lemma node_height_root_Suc: "node_height (2 * tree_size h) = Suc h"
  using node_height_tree [of "2 * tree_size h" "Suc h"] by (simp add: nth_append)

lemma node_height_root: "node_height (tree_size h - 1) = h"
  by (cases h) (simp_all add: node_height_root_Suc)

text \<open>
  Every position of a tree lies in the left subtree, in the right subtree or is the root: the
  case analysis of all inductions below.
\<close>

lemma postorder_cases [consumes 1, case_names left right root]:
  assumes "p < tree_size (Suc h)"
  obtains "p < tree_size h"
  | q where "p = tree_size h + q" "q < tree_size h"
  | "p = 2 * tree_size h"
proof (cases "p < tree_size h")
  case False
  then obtain q where q: "p = tree_size h + q" by (metis le_iff_add not_less)
  show ?thesis
  proof (cases "q < tree_size h")
    case False
    then have "p = 2 * tree_size h" using q assms by simp
    then show ?thesis using that(3) by blast
  qed (use q that(2) in blast)
qed (use that(1) in blast)

section \<open>CalculateHeight computes the reference height\<close>

text \<open>The loop on natural numbers: the peak sizes are \<open>2 ^ k - 1\<close> for \<open>k, k - 1, \<dots>, 1\<close>.\<close>

fun height_loop :: "nat \<Rightarrow> nat \<Rightarrow> nat" where
  "height_loop 0 x = x"
| "height_loop (Suc k) x = height_loop k (if tree_size k \<le> x then x - tree_size k else x)"

declare CalculateHeight_loop.simps [simp del]
declare CalculateLeafIndex_loop.simps [simp del]

lemma unat_mask_tree_size: "k < 64 \<Longrightarrow> unat (mask (Suc k) :: u64) = tree_size k"
  by (subst unat_mask) (auto simp: tree_size_def)

lemma CalculateHeight_loop_mask:
  "k \<le> 64 \<Longrightarrow> unat (CalculateHeight_loop (mask k) x) = height_loop k (unat x)"
proof (induction k arbitrary: x)
  case 0
  then show ?case by (simp add: CalculateHeight_loop.simps [of 0])
next
  case (Suc k)
  have k: "k < LENGTH(64)" using Suc.prems by simp
  have le: "mask (Suc k) \<le> x \<longleftrightarrow> tree_size k \<le> unat x"
    using k unat_mask_tree_size [of k] by (simp add: word_le_nat_alt)
  show ?case
    using Suc mask_Suc_neq_0 [OF k] drop_bit_1_mask_Suc [OF k] le
    by (simp add: CalculateHeight_loop.simps [of "mask (Suc k)"] unat_sub unat_mask_tree_size)
qed

lemma height_loop_over: "height_loop k (Suc (tree_size k) + m) = k + 2 + m"
proof (induction k arbitrary: m)
  case (Suc k)
  have "Suc (tree_size (Suc k)) + m - tree_size k = Suc (tree_size k) + Suc m"
    "tree_size k \<le> Suc (tree_size (Suc k)) + m" by simp_all
  then show ?case using Suc.IH [of "Suc m"] by (simp only: height_loop.simps if_True)
qed simp

lemma height_loop_root: "height_loop k (tree_size k) = Suc k"
proof (cases k)
  case (Suc j)
  then show ?thesis using height_loop_over [of j 0] by simp
qed simp

lemma height_loop_node_height: "p < tree_size k \<Longrightarrow> height_loop k p = node_height p"
proof (induction k arbitrary: p)
  case (Suc k)
  from Suc.prems show ?case
  proof (cases rule: postorder_cases)
    case (right q)
    then show ?thesis using Suc.IH [of q] by (simp add: node_height_shift)
  next
    case root
    then show ?thesis by (simp add: height_loop_root node_height_root_Suc)
  qed (simp add: Suc.IH)
qed simp

lemma exists_top_bit: "0 < (n::nat) \<Longrightarrow> \<exists>k. 2 ^ k \<le> n \<and> n < 2 ^ Suc k"
  using ex_power_ivl1 [of 2 n] by auto

text \<open>The word \<open>FillOnesToRight\<close> starts the loops with: the size of a tree that is large enough.\<close>

lemma FillOnesToRight_tree_size:
  assumes "x \<noteq> (0 :: u64)"
  obtains k where "FillOnesToRight x = mask (Suc k)" "k < 64"
    "2 ^ k \<le> unat x" "unat x < 2 ^ Suc k"
proof -
  have "0 < unat x" using assms by (simp add: unat_gt_0)
  then obtain k where k: "2 ^ k \<le> unat x" "unat x < 2 ^ Suc k" using exists_top_bit by blast
  then have "(2::nat) ^ k < 2 ^ 64" using le_less_trans [OF k(1) unsigned_less [of x]] by simp
  then have "k < 64" by (rule power_less_imp_less_exp [rotated]) simp
  then show ?thesis using k that FillOnesToRight_mask by blast
qed

lemma unat_CalculateHeight:
  assumes "p + 1 \<noteq> 0"
  shows "unat (CalculateHeight p) = node_height (unat p)"
proof -
  have p1: "unat (p + 1) = unat p + 1" using assms by (simp add: unatSuc add.commute)
  obtain k where k: "FillOnesToRight (p + 1) = mask (Suc k)" "k < 64"
      "2 ^ k \<le> unat (p + 1)" "unat (p + 1) < 2 ^ Suc k"
    using FillOnesToRight_tree_size [OF assms] .
  have p: "unat p < tree_size k" using k p1 by (simp add: tree_size_def)
  have "unat (CalculateHeight p) = height_loop (Suc k) (unat p)"
    using k unfolding CalculateHeight_def by (simp only: CalculateHeight_loop_mask)
  also have "\<dots> = node_height (unat p)" using p by (simp add: height_loop_node_height)
  finally show ?thesis .
qed


section \<open>Parents and children in the reference\<close>

lemma node_height_children:
  assumes "p < tree_size H" "node_height p = Suc h"
  shows "2 ^ Suc h \<le> p \<and> node_height (p - 1) = h \<and> node_height (p - 2 ^ Suc h) = h \<and>
    node_height (Suc (p - 2 ^ Suc h)) = 0"
  using assms
proof (induction H arbitrary: p)
  case (Suc H)
  from Suc.prems(1) show ?case
  proof (cases rule: postorder_cases)
    case left
    then show ?thesis using Suc by simp
  next
    case (right q)
    then have IH: "2 ^ Suc h \<le> q" "node_height (q - 1) = h" "node_height (q - 2 ^ Suc h) = h"
        "node_height (Suc (q - 2 ^ Suc h)) = 0"
      using Suc by (simp_all add: node_height_shift)
    have "1 \<le> q" using IH(1) one_le_power [of "2::nat" "Suc h"] by linarith
    moreover have "node_height (tree_size H + (q - 1)) = h"
      using IH right by (subst node_height_shift) auto
    moreover have "node_height (tree_size H + (q - 2 ^ Suc h)) = h"
      using IH right by (subst node_height_shift) auto
    moreover have "node_height (tree_size H + Suc (q - 2 ^ Suc h)) = 0"
    proof (subst node_height_shift)
      have "(1::nat) < 2 ^ Suc h" by (rule one_less_power) auto
      then show "Suc (q - 2 ^ Suc h) < tree_size H" using IH(1) right(2) by linarith
    qed (rule IH(4))
    ultimately show ?thesis using IH(1) right(1) by simp
  next
    case root
    then have h: "h = H" using Suc.prems by (simp add: node_height_root_Suc)
    have "p - 1 = tree_size H + (tree_size H - 1)" using root tree_size_pos [of H] by linarith
    moreover have "p - 2 ^ Suc h = tree_size H - 1"
      using root Suc_tree_size [of H] unfolding h by linarith
    moreover have "2 ^ Suc h \<le> p"
      using root Suc_tree_size [of H] tree_size_pos [of H] unfolding h by linarith
    ultimately show ?thesis
      using node_height_root [of H] node_height_shift [of "tree_size H - 1" H]
        node_height_shift [of 0 H] h by simp
  qed
qed simp

lemma node_height_bound: "p < tree_size H \<Longrightarrow> node_height p \<le> H"
proof (induction H arbitrary: p)
  case (Suc H)
  from Suc.prems show ?case
    by (cases rule: postorder_cases)
      (use Suc.IH le_Suc_eq in \<open>force simp: node_height_shift node_height_root_Suc\<close>)+
qed simp

text \<open>
  A node that is not the root of the tree is a right child, and then its parent is the next
  node, or a left child, and then the next node is a leaf and the parent is \<open>2 ^ Suc h\<close> further.
\<close>

lemma node_height_parent:
  assumes "Suc p < tree_size H"
  shows "node_height (Suc p) = Suc (node_height p) \<or>
    node_height (Suc p) = 0 \<and> p + 2 ^ Suc (node_height p) < tree_size H \<and>
    node_height (p + 2 ^ Suc (node_height p)) = Suc (node_height p)"
  using assms
proof (induction H arbitrary: p)
  case (Suc H)
  have "p < tree_size (Suc H)" using Suc.prems by simp
  then show ?case
  proof (cases rule: postorder_cases)
    case left
    show ?thesis
    proof (cases "Suc p < tree_size H")
      case True
      then show ?thesis using Suc.IH by fastforce
    next
      case False
      then have p: "Suc p = tree_size H" using left by simp
      then have h: "node_height p = H" using node_height_root [of H] by (metis diff_Suc_1)
      have "node_height (Suc p) = 0" using p node_height_shift [of 0 H] by simp
      moreover have "p + 2 ^ Suc H = 2 * tree_size H"
        using p Suc_tree_size [of H] by linarith
      ultimately show ?thesis using h node_height_root_Suc [of H] by simp
    qed
  next
    case (right q)
    show ?thesis
    proof (cases "Suc q < tree_size H")
      case True
      let ?h = "node_height q"
      have shift: "node_height (tree_size H + q) = ?h"
        "node_height (tree_size H + Suc q) = node_height (Suc q)"
        using True right by (simp_all only: node_height_shift)
      from Suc.IH [OF True] show ?thesis
      proof
        assume "node_height (Suc q) = Suc ?h"
        then show ?thesis using shift right(1) by simp
      next
        assume *: "node_height (Suc q) = 0 \<and> q + 2 ^ Suc ?h < tree_size H \<and>
          node_height (q + 2 ^ Suc ?h) = Suc ?h"
        then have "node_height (tree_size H + (q + 2 ^ Suc ?h)) = Suc ?h"
          by (simp only: node_height_shift)
        then show ?thesis using * shift right(1) by (simp add: add.assoc)
      qed
    next
      case False
      then have q: "Suc q = tree_size H" using right by simp
      then have "node_height p = H"
        using node_height_root [of H] right by (metis diff_Suc_1 node_height_shift)
      moreover have "Suc p = 2 * tree_size H" using right q by simp
      ultimately show ?thesis using node_height_root_Suc [of H] by simp
    qed
  next
    case root
    then show ?thesis using Suc.prems by simp
  qed
qed simp

lemma node_height_lt_tree: "\<exists>H. p < tree_size H"
  using self_less_tree_size by blast


section \<open>The operations of Index agree with the reference\<close>

text \<open>Positions below \<open>tree_size 63 = 2 ^ 64 - 1\<close> are those whose height the code computes.\<close>

lemma tree_size_63: "tree_size 63 = 18446744073709551615"
  by (simp add: tree_size_def)

definition idx :: "nat \<Rightarrow> Index" where
  "idx n = mk_Index (of_nat n) (of_nat (node_height n))"

lemma idx_simps [simp]:
  "m_position (idx n) = of_nat n" "m_height (idx n) = of_nat (node_height n)"
  by (simp_all add: idx_def mk_Index_def)

lemma u64_of_nat_eq_iff:
  "a < 2 ^ 64 \<Longrightarrow> b < 2 ^ 64 \<Longrightarrow> (of_nat a :: u64) = of_nat b \<longleftrightarrow> a = b"
  by (metis unat_of_nat_u64)

lemma CalculateHeight_of_nat:
  assumes "n < tree_size 63"
  shows "CalculateHeight (of_nat n) = of_nat (node_height n)"
proof -
  have n: "unat (of_nat n :: u64) = n" using assms by (simp add: unat_of_nat_u64 tree_size_63)
  have "unat (1 + of_nat n :: u64) = Suc n"
    using assms unat_of_nat_u64 [of "Suc n"] by (simp add: tree_size_63)
  then have "of_nat n + 1 \<noteq> (0 :: u64)" by (metis Zero_not_Suc add.commute unat_0)
  then have "unat (CalculateHeight (of_nat n)) = node_height n"
    using unat_CalculateHeight [of "of_nat n"] n by simp
  then show ?thesis by (metis of_nat_unat ucast_id)
qed

lemma Index_At_of_nat: "n < tree_size 63 \<Longrightarrow> Index_At (of_nat n) = idx n"
  by (simp add: Index_At_def idx_def CalculateHeight_of_nat)

lemma node_height_63: "n < tree_size 63 \<Longrightarrow> node_height n < 64"
  using node_height_bound [of n 63] by simp

lemma shl_1_of_nat: "k < 64 \<Longrightarrow> shl_1 (of_nat k) = Inr (of_nat (2 ^ k))"
  by (simp add: shl_1_def push_bit_eq_mult word_less_nat_alt unat_of_nat_u64)

lemma IsLeaf_idx: "n < tree_size 63 \<Longrightarrow> IsLeaf (idx n) \<longleftrightarrow> node_height n = 0"
  using u64_of_nat_eq_iff [of "node_height n" 0] node_height_63 [of n] by (simp add: IsLeaf_def)

lemma GetNext_idx: "Suc n < tree_size 63 \<Longrightarrow> Index_GetNext (idx n) = idx (Suc n)"
  using Index_At_of_nat [of "Suc n"] by (simp add: Index_GetNext_def add.commute)

lemma GetLeftChild_idx:
  assumes "n < tree_size 63" "node_height n = Suc h"
  shows "Index_GetLeftChild (idx n) = Inr (idx (n - 2 ^ Suc h))"
  using assms node_height_63 [OF assms(1)] node_height_children [OF assms]
    shl_1_of_nat [of "Suc h"]
  by (simp add: Index_GetLeftChild_def idx_def mk_Index_def)

lemma GetRightChild_idx:
  assumes "n < tree_size 63" "node_height n = Suc h"
  shows "Index_GetRightChild (idx n) = idx (n - 1)"
proof -
  have "1 \<le> n" using assms(2) by (cases n) auto
  then show ?thesis using assms node_height_children [OF assms]
    by (simp add: Index_GetRightChild_def idx_def mk_Index_def)
qed

lemma next_height_eq_iff:
  assumes "Suc n < tree_size 63"
  shows "CalculateHeight (of_nat n + 1) = of_nat (node_height n) + 1 \<longleftrightarrow>
    node_height (Suc n) = Suc (node_height n)"
proof -
  have "CalculateHeight (of_nat n + 1) = of_nat (node_height (Suc n))"
    using CalculateHeight_of_nat [OF assms] by (simp add: add.commute)
  moreover have "of_nat (node_height n) + 1 = (of_nat (Suc (node_height n)) :: u64)" by simp
  ultimately show ?thesis
    using u64_of_nat_eq_iff [of "node_height (Suc n)" "Suc (node_height n)"]
      node_height_63 [OF assms] node_height_63 [of n] assms by (simp only:) simp
qed

lemma GetParent_right:
  assumes "Suc n < tree_size 63" "node_height (Suc n) = Suc (node_height n)"
  shows "Index_GetParent (idx n) = Inr (idx (Suc n))"
  using assms next_height_eq_iff [OF assms(1)]
  by (simp add: Index_GetParent_def idx_def mk_Index_def add.commute)

lemma GetParent_left:
  assumes "Suc n < tree_size 63" "node_height (Suc n) = 0"
  shows "Index_GetParent (idx n) = Inr (idx (n + 2 ^ Suc (node_height n)))"
proof -
  let ?h = "node_height n"
  have par: "n + 2 ^ Suc ?h < tree_size 63" "node_height (n + 2 ^ Suc ?h) = Suc ?h"
    using node_height_parent [OF assms(1)] assms(2) by auto
  have "shl_1 (of_nat ?h + 1) = Inr (of_nat (2 ^ Suc ?h))"
    using shl_1_of_nat [of "Suc ?h"] node_height_63 [OF par(1)] par(2) by (simp add: add.commute)
  then show ?thesis
    using next_height_eq_iff [OF assms(1)] assms(2) par(2)
    by (simp add: Index_GetParent_def idx_def mk_Index_def add.commute)
qed

text \<open>
  Children and parents are inverse: the parent of \<open>n\<close> has \<open>n\<close> as its left or right child, and
  \<open>GetSibling\<close> is the other one.
\<close>

lemma GetSibling_right:
  assumes "Suc n < tree_size 63" "node_height (Suc n) = Suc (node_height n)"
  shows "Index_GetSibling (idx n) = Index_GetLeftChild (idx (Suc n))"
proof -
  let ?h = "node_height n"
  have ch: "2 ^ Suc ?h \<le> Suc n" "node_height (Suc n - 2 ^ Suc ?h) = ?h"
    using node_height_children [OF assms] by auto
  have "shl_1 (of_nat ?h + 1) = Inr (of_nat (2 ^ Suc ?h))"
    using shl_1_of_nat [of "Suc ?h"] node_height_63 [OF assms(1)] assms(2) by (simp add: add.commute)
  moreover have "of_nat n + 1 - of_nat (2 ^ Suc ?h) = (of_nat (Suc n - 2 ^ Suc ?h) :: u64)"
    using ch(1) by (simp add: add.commute)
  ultimately show ?thesis
    using next_height_eq_iff [OF assms(1)] assms ch(2) GetLeftChild_idx [OF assms]
    by (simp add: Index_GetSibling_def) (simp add: idx_def)
qed

lemma GetSibling_left:
  assumes "Suc n < tree_size 63" "node_height (Suc n) = 0"
  shows "Index_GetSibling (idx n) = Inr (Index_GetRightChild (idx (n + 2 ^ Suc (node_height n))))"
proof -
  let ?h = "node_height n"
  have par: "n + 2 ^ Suc ?h < tree_size 63" "node_height (n + 2 ^ Suc ?h) = Suc ?h"
    using node_height_parent [OF assms(1)] assms(2) by auto
  have "shl_1 (of_nat ?h + 1) = Inr (of_nat (2 ^ Suc ?h))"
    using shl_1_of_nat [of "Suc ?h"] node_height_63 [OF par(1)] par(2) by (simp add: add.commute)
  moreover have "of_nat n + of_nat m - 1 = (of_nat (n + m - 1) :: u64)" if "0 < m" for m :: nat
    using that by (cases m) simp_all
  from this [of "2 ^ Suc ?h"]
  have "of_nat n + of_nat (2 ^ Suc ?h) - 1 = (of_nat (n + 2 ^ Suc ?h - 1) :: u64)" by simp
  ultimately show ?thesis
    using next_height_eq_iff [OF assms(1)] assms(2) GetRightChild_idx [OF par]
      node_height_children [OF par] by (simp add: Index_GetSibling_def) (simp add: idx_def)
qed


section \<open>Leaves\<close>

definition leaf_pos :: "nat \<Rightarrow> nat" where
  "leaf_pos n = 2 * n - popcount n"

primrec leaves_before :: "nat \<Rightarrow> nat" where
  "leaves_before 0 = 0"
| "leaves_before (Suc p) = leaves_before p + (if node_height p = 0 then 1 else 0)"

lemma leaf_pos_0 [simp]: "leaf_pos 0 = 0"
  by (simp add: leaf_pos_def)

lemma leaf_pos_ge: "n \<le> leaf_pos n"
  using popcount_le [of n] by (simp add: leaf_pos_def)

lemma leaf_pos_less_tree: "m < 2 ^ k \<Longrightarrow> leaf_pos m < tree_size k"
  using Suc_tree_size [of k] unfolding leaf_pos_def power_Suc by linarith

lemma leaf_pos_top:
  assumes "m < 2 ^ k"
  shows "leaf_pos (2 ^ k + m) = tree_size k + leaf_pos m"
proof -
  have "2 * (2 ^ k + m) = Suc (tree_size k + 2 * m)" using Suc_tree_size [of k] by simp
  then show ?thesis
    unfolding leaf_pos_def popcount_top [OF assms] using popcount_le [of m] by simp
qed

lemma bit_split_cases [consumes 1, case_names low high]:
  assumes "n < 2 ^ Suc k"
  obtains "n < (2::nat) ^ k" | m where "n = 2 ^ k + m" "m < 2 ^ k"
proof (cases "n < 2 ^ k")
  case False
  then obtain m where "n = 2 ^ k + m" by (metis le_iff_add not_less)
  then show ?thesis using assms that(2) by simp
qed (use that(1) in blast)

lemma leaves_before_tree_add:
  "q \<le> tree_size k \<Longrightarrow> leaves_before (tree_size k + q) = leaves_before (tree_size k) + leaves_before q"
  by (induction q) (auto simp: node_height_shift)

lemma leaves_before_tree: "leaves_before (tree_size k) = 2 ^ k"
proof (induction k)
  case (Suc k)
  have "leaves_before (2 * tree_size k) = 2 * 2 ^ k"
    using leaves_before_tree_add [of "tree_size k" k] Suc by (simp add: mult_2)
  then show ?case by (simp add: node_height_root_Suc)
qed simp

lemma leaf_pos_spec_aux: "n < 2 ^ k \<Longrightarrow> node_height (leaf_pos n) = 0 \<and> leaves_before (leaf_pos n) = n"
proof (induction k arbitrary: n)
  case (Suc k)
  from Suc.prems show ?case
  proof (cases rule: bit_split_cases)
    case (high m)
    then show ?thesis
      using Suc.IH [of m] leaf_pos_less_tree [of m k]
      by (simp add: leaf_pos_top node_height_shift leaves_before_tree_add leaves_before_tree)
  qed (simp add: Suc.IH)
qed simp

lemma node_height_leaf_pos [simp]: "node_height (leaf_pos n) = 0"
  and leaves_before_leaf_pos [simp]: "leaves_before (leaf_pos n) = n"
  using leaf_pos_spec_aux [of n n] by simp_all

lemma leaves_before_mono: "p \<le> q \<Longrightarrow> leaves_before p \<le> leaves_before q"
  by (induction rule: dec_induct) auto

lemma leaf_pos_less: "m < n \<Longrightarrow> leaf_pos m < leaf_pos n"
  by (metis leaves_before_leaf_pos leaves_before_mono linorder_not_le)

lemma leaf_pos_mono: "m \<le> n \<Longrightarrow> leaf_pos m \<le> leaf_pos n"
  by (metis leaf_pos_less le_eq_less_or_eq)

lemma leaf_pos_less_iff [simp]: "leaf_pos m < leaf_pos n \<longleftrightarrow> m < n"
  by (metis leaf_pos_less linorder_neqE_nat order_less_asym)

text \<open>Between two consecutive leaves there are inner nodes only.\<close>

lemma inner_between_leaves:
  assumes "leaf_pos n < p" "p < leaf_pos (Suc n)"
  shows "node_height p \<noteq> 0"
proof
  assume h: "node_height p = 0"
  have "Suc n \<le> leaves_before p"
    using leaves_before_mono [of "Suc (leaf_pos n)" p] assms(1) by simp
  then have "Suc (Suc n) \<le> leaves_before (Suc p)" using h by simp
  also have "\<dots> \<le> leaves_before (leaf_pos (Suc n))"
    using assms(2) by (intro leaves_before_mono) simp
  finally show False by simp
qed

lemma leaf_pos_leaves_before:
  assumes "node_height p = 0"
  shows "leaf_pos (leaves_before p) = p"
proof (rule ccontr)
  let ?n = "leaves_before p"
  assume "leaf_pos ?n \<noteq> p"
  then consider "leaf_pos ?n < p" | "p < leaf_pos ?n" by linarith
  then show False
  proof cases
    case 1
    then have "Suc ?n \<le> leaves_before p"
      using leaves_before_mono [of "Suc (leaf_pos ?n)" p] by simp
    then show False by simp
  next
    case 2
    then have "leaves_before (Suc p) \<le> ?n"
      using leaves_before_mono [of "Suc p" "leaf_pos ?n"] by simp
    then show False using assms by simp
  qed
qed

subsection \<open>CalculateLeafIndex and LeafIndex::At\<close>

fun leaf_loop :: "nat \<Rightarrow> nat \<Rightarrow> nat \<Rightarrow> nat" where
  "leaf_loop 0 x acc = acc"
| "leaf_loop (Suc k) x acc =
     (if tree_size k \<le> x then leaf_loop k (x - tree_size k) (acc + 2 ^ k) else leaf_loop k x acc)"

lemma leaf_loop_leaf_pos: "n < 2 ^ k \<Longrightarrow> leaf_loop k (leaf_pos n) acc = acc + n"
proof (induction k arbitrary: n acc)
  case (Suc k)
  from Suc.prems show ?case
  proof (cases rule: bit_split_cases)
    case low
    then show ?thesis using Suc.IH leaf_pos_less_tree [of n k] by simp
  next
    case (high m)
    then show ?thesis using Suc.IH [of m] by (simp add: leaf_pos_top)
  qed
qed simp

lemma half_mask: "k < 63 \<Longrightarrow> (mask (Suc k) + 1) div 2 = (of_nat (2 ^ k) :: u64)"
proof -
  assume k: "k < 63"
  have "(mask (Suc k) + 1 :: u64) = 2 ^ Suc k" by (simp add: mask_eq_exp_minus_1)
  also have "\<dots> div 2 = 2 ^ k"
    using k exp_div_exp_eq [of "Suc k" 1, where ?'a = u64] exp_eq_zero_iff [of "Suc k", where ?'a = 64]
    by simp
  finally show ?thesis by simp
qed


lemma CalculateLeafIndex_loop_mask:
  "k < 64 \<Longrightarrow> CalculateLeafIndex_loop (mask k) x (of_nat acc) = of_nat (leaf_loop k (unat x) acc)"
proof (induction k arbitrary: x acc)
  case 0
  then show ?case by (simp add: CalculateLeafIndex_loop.simps [of 0])
next
  case (Suc k)
  have k: "k < LENGTH(64)" using Suc.prems by simp
  have le: "mask (Suc k) \<le> x \<longleftrightarrow> tree_size k \<le> unat x"
    using k unat_mask_tree_size [of k] by (simp add: word_le_nat_alt)
  have acc: "of_nat acc + of_nat (2 ^ k) = (of_nat (acc + 2 ^ k) :: u64)" by simp
  show ?case
    using Suc.prems Suc.IH mask_Suc_neq_0 [OF k] drop_bit_1_mask_Suc [OF k] le half_mask [of k]
    by (simp only: CalculateLeafIndex_loop.simps [of "mask (Suc k)"] acc)
      (auto simp: unat_sub unat_mask_tree_size)
qed

lemma leaf_pos_63: "n < 2 ^ 63 \<Longrightarrow> leaf_pos n < tree_size 63"
  by (rule leaf_pos_less_tree)

lemma CalculateLeafIndex_leaf_pos:
  assumes "n < 2 ^ 63"
  shows "CalculateLeafIndex (of_nat (leaf_pos n)) = of_nat n"
proof (cases "n = 0")
  case True
  then show ?thesis by (simp add: CalculateLeafIndex_def CalculateLeafIndex_loop.simps [of 0])
next
  case False
  let ?p = "of_nat (leaf_pos n) :: u64"
  have p: "unat ?p = leaf_pos n"
    using leaf_pos_63 [OF assms] by (simp add: unat_of_nat_u64 tree_size_63)
  have "?p \<noteq> 0" using False leaf_pos_ge [of n] p by (metis le_zero_eq unat_0)
  then obtain k where k: "FillOnesToRight ?p = mask (Suc k)" "k < 64"
      "2 ^ k \<le> unat ?p" "unat ?p < 2 ^ Suc k"
    by (rule FillOnesToRight_tree_size)
  have n: "n < 2 ^ Suc k" using k(4) p leaf_pos_ge [of n] by simp
  show ?thesis
  proof (cases "k = 63")
    case True
    have "\<not> mask 64 \<le> ?p"
      using leaf_pos_63 [OF assms] unat_mask_tree_size [of 63] p by (simp add: word_le_nat_alt)
    then have "CalculateLeafIndex ?p = CalculateLeafIndex_loop (mask 63) ?p (of_nat 0)"
      using True k(1) drop_bit_1_mask_Suc [of 63, where ?'a = 64]
        mask_Suc_neq_0 [of 63, where ?'a = 64]
      by (simp add: CalculateLeafIndex_def CalculateLeafIndex_loop.simps [of "mask 64"])
    also have "\<dots> = of_nat (leaf_loop 63 (leaf_pos n) 0)"
      using CalculateLeafIndex_loop_mask [of 63 ?p 0] p by simp
    finally show ?thesis using assms leaf_loop_leaf_pos [of n 63 0] by simp
  next
    case False
    then have "CalculateLeafIndex ?p = of_nat (leaf_loop (Suc k) (leaf_pos n) 0)"
      using k CalculateLeafIndex_loop_mask [of "Suc k" ?p 0] p by (simp add: CalculateLeafIndex_def)
    then show ?thesis using n by (simp only: leaf_loop_leaf_pos) simp
  qed
qed

lemma LeafIndex_At_of_nat:
  assumes "n < 2 ^ 63"
  shows "LeafIndex_At (of_nat n) = \<lparr>m_leafIndex = of_nat n, m_nodeIndex = idx (leaf_pos n)\<rparr>"
proof -
  have n: "unat (of_nat n :: u64) = n" using assms by (intro unat_of_nat_u64) simp
  have "ucast (CountBitsSet (of_nat n)) = (of_nat (popcount n) :: u64)"
    using unat_CountBitsSet [of "of_nat n"] n by (metis of_nat_unat)
  then have "2 * of_nat n - ucast (CountBitsSet (of_nat n)) = (of_nat (leaf_pos n) :: u64)"
    using popcount_le [of n] by (simp add: leaf_pos_def)
  then show ?thesis by (simp add: LeafIndex_At_def mk_LeafIndex_def idx_def)
qed


section \<open>Properties of the index arithmetic\<close>

lemma u64_cases:
  obtains n where "p = (of_nat n :: u64)" "n = unat p" "n < 2 ^ 64"
  by (rule that [of "unat p"]) simp_all

text \<open>
  C28. For every position but the last word, \<open>CalculateHeight\<close> returns the height of the node at
  that position in the postorder traversal of a perfect tree (any tree large enough), the
  definition that the comment of Index.h pictures.
\<close>

theorem CalculateHeight_postorder:
  assumes "p \<noteq> - 1" and "unat p < tree_size h"
  shows "unat (CalculateHeight p) = tree_heights h ! unat p"
proof -
  have "p + 1 \<noteq> 0" using assms(1) by (simp add: add_eq_0_iff2)
  then show ?thesis using unat_CalculateHeight assms(2) node_height_tree by simp
qed

theorem CalculateHeight_postorder_witness:
  "(6 :: u64) \<noteq> - 1 \<and> unat (6 :: u64) < tree_size 2 \<and>
   unat (CalculateHeight 6) = tree_heights 2 ! 6 \<and> tree_heights 2 ! 6 = 2"
proof -
  have h: "(6 :: u64) \<noteq> - 1" "unat (6 :: u64) < tree_size 2"
    by (simp_all add: tree_size_def)
  have "tree_heights 2 ! 6 = 2" by code_simp
  then show ?thesis using h CalculateHeight_postorder [OF h] by simp
qed

text \<open>
  C29. Below the root of the largest tree, \<open>GetParent\<close> does not fail, returns an index one level
  up whose stored height is the one \<open>Index::At\<close> computes, has the given node as its left or
  right child, and \<open>GetSibling\<close> returns the other child.
\<close>

theorem GetParent_GetSibling_correct:
  assumes "unat p + 1 < 2 ^ 64 - 1"
  shows "\<exists>i. Index_GetParent (Index_At p) = Inr i \<and> i = Index_At (m_position i) \<and>
     m_height i = m_height (Index_At p) + 1 \<and>
     (Index_GetRightChild i = Index_At p \<and> Index_GetSibling (Index_At p) = Index_GetLeftChild i \<or>
      Index_GetLeftChild i = Inr (Index_At p) \<and>
      Index_GetSibling (Index_At p) = Inr (Index_GetRightChild i))"
proof -
  obtain n where n: "p = of_nat n" "n = unat p" by (rule u64_cases)
  have lt: "Suc n < tree_size 63" "n < tree_size 63" using assms n(2) by (simp_all add: tree_size_63)
  let ?h = "node_height n"
  show ?thesis
  proof (cases "node_height (Suc n) = Suc ?h")
    case True
    then show ?thesis
      using lt GetParent_right [OF lt(1) True] GetSibling_right [OF lt(1) True]
        GetRightChild_idx [OF lt(1) True] Index_At_of_nat [OF lt(1)]
      by (simp add: n(1) Index_At_of_nat add.commute)
  next
    case False
    then have z: "node_height (Suc n) = 0" "n + 2 ^ Suc ?h < tree_size 63"
      "node_height (n + 2 ^ Suc ?h) = Suc ?h"
      using node_height_parent [OF lt(1)] by auto
    have "Index_GetLeftChild (idx (n + 2 ^ Suc ?h)) = Inr (idx n)"
      using GetLeftChild_idx [OF z(2,3)] by simp
    then show ?thesis
      using lt z GetParent_left [OF lt(1) z(1)] GetSibling_left [OF lt(1) z(1)]
        Index_At_of_nat [OF z(2)]
      by (simp add: n(1) Index_At_of_nat add.commute)
  qed
qed

theorem GetParent_GetSibling_correct_witness:
  "unat (1 :: u64) + 1 < 2 ^ 64 - 1 \<and>
   (\<exists>i. Index_GetParent (Index_At 1) = Inr i \<and> i = Index_At (m_position i) \<and>
     m_height i = m_height (Index_At 1) + 1 \<and>
     (Index_GetRightChild i = Index_At 1 \<and> Index_GetSibling (Index_At 1) = Index_GetLeftChild i \<or>
      Index_GetLeftChild i = Inr (Index_At 1) \<and>
      Index_GetSibling (Index_At 1) = Inr (Index_GetRightChild i)))"
proof -
  have h: "unat (1 :: u64) + 1 < 2 ^ 64 - 1" by simp
  show ?thesis using h GetParent_GetSibling_correct [OF h] by (intro conjI)
qed

text \<open>
  The children of an inner node are the nodes whose parent it is, and the heights stored in
  them are the ones \<open>Index::At\<close> computes.
\<close>

lemma children_have_parent:
  assumes "p \<noteq> - 1" and "\<not> IsLeaf (Index_At p)"
  shows "\<exists>l. Index_GetLeftChild (Index_At p) = Inr l \<and> l = Index_At (m_position l) \<and>
     Index_GetParent l = Inr (Index_At p) \<and>
     Index_GetParent (Index_GetRightChild (Index_At p)) = Inr (Index_At p) \<and>
     Index_GetRightChild (Index_At p) = Index_At (p - 1)"
proof -
  obtain n where n: "p = of_nat n" "n = unat p" "n < 2 ^ 64" by (rule u64_cases)
  have "n \<noteq> 2 ^ 64 - 1" using assms(1) n(1) by auto
  then have lt: "n < tree_size 63" using n(3) by (simp add: tree_size_63)
  obtain h where h: "node_height n = Suc h"
    using assms(2) IsLeaf_idx [OF lt] by (cases "node_height n") (simp_all add: n(1) Index_At_of_nat lt)
  let ?l = "n - 2 ^ Suc h"
  have ch: "2 ^ Suc h \<le> n" "node_height (n - 1) = h" "node_height ?l = h" "node_height (Suc ?l) = 0"
    using node_height_children [OF lt h] by auto
  have n1: "1 \<le> n" using h by (cases n) auto
  have "(1::nat) < 2 ^ Suc h" by (rule one_less_power) auto
  then have l: "Suc ?l < tree_size 63" "?l + 2 ^ Suc h = n" using ch(1) lt by linarith+
  have "Index_GetParent (idx ?l) = Inr (idx n)"
    using GetParent_left [OF l(1) ch(4)] ch(3) l(2) by simp
  moreover have "Index_GetParent (idx (n - 1)) = Inr (idx n)"
    using GetParent_right [of "n - 1"] ch(2) h lt n1 by simp
  moreover have "p - 1 = of_nat (n - 1)" using n(1) n1 by simp
  ultimately show ?thesis
    using lt l GetLeftChild_idx [OF lt h] GetRightChild_idx [OF lt h]
      Index_At_of_nat [of ?l] Index_At_of_nat [of "n - 1"]
    by (simp add: n(1) Index_At_of_nat)
qed

lemma IsLeaf_At_2: "\<not> IsLeaf (Index_At 2)"
  using IsLeaf_idx [of 2] Index_At_of_nat [of 2]
  by (simp add: tree_size_63) (simp add: node_height_def numeral_2_eq_2)

lemma children_have_parent_example:
  "(2 :: u64) \<noteq> - 1 \<and> \<not> IsLeaf (Index_At 2) \<and>
   (\<exists>l. Index_GetLeftChild (Index_At 2) = Inr l \<and> l = Index_At (m_position l) \<and>
     Index_GetParent l = Inr (Index_At 2) \<and>
     Index_GetParent (Index_GetRightChild (Index_At 2)) = Inr (Index_At 2) \<and>
     Index_GetRightChild (Index_At 2) = Index_At (2 - 1))"
proof -
  have h: "(2 :: u64) \<noteq> - 1" by simp
  show ?thesis using h IsLeaf_At_2 children_have_parent [OF h IsLeaf_At_2] by (intro conjI)
qed

text \<open>
  C30. \<open>LeafIndex::At\<close> places leaf number \<open>n\<close> at a leaf with exactly \<open>n\<close> leaves before it, and
  \<open>Index::GetLeafIndex\<close> reads \<open>n\<close> back from that position.
\<close>

theorem LeafIndex_At_roundtrip:
  assumes "n < 2 ^ 63"
  shows "IsLeaf (Index_At (LeafIndex_GetPosition (LeafIndex_At n))) \<and>
     m_nodeIndex (LeafIndex_At n) = Index_At (LeafIndex_GetPosition (LeafIndex_At n)) \<and>
     leaves_before (unat (LeafIndex_GetPosition (LeafIndex_At n))) = unat n \<and>
     Index_GetLeafIndex (Index_At (LeafIndex_GetPosition (LeafIndex_At n))) = n"
proof -
  obtain k where k: "n = of_nat k" "k = unat n" by (rule u64_cases)
  have k63: "k < 2 ^ 63" using assms k(2) by (simp add: word_less_nat_alt)
  have lt: "leaf_pos k < tree_size 63" by (rule leaf_pos_63 [OF k63])
  then have "unat (of_nat (leaf_pos k) :: u64) = leaf_pos k"
    by (simp add: unat_of_nat_u64 tree_size_63)
  then show ?thesis
    using k63 lt CalculateLeafIndex_leaf_pos [OF k63]
    unfolding k(1)
    by (simp add: unat_of_nat_u64 LeafIndex_At_of_nat LeafIndex_GetPosition_def Index_At_of_nat IsLeaf_idx
        Index_GetLeafIndex_def)
qed

theorem LeafIndex_At_roundtrip_witness:
  "(5 :: u64) < 2 ^ 63 \<and> leaves_before (unat (LeafIndex_GetPosition (LeafIndex_At 5))) = 5 \<and>
   Index_GetLeafIndex (Index_At (LeafIndex_GetPosition (LeafIndex_At 5))) = 5"
proof -
  have h: "(5 :: u64) < 2 ^ 63" by simp
  show ?thesis using h LeafIndex_At_roundtrip [OF h] by simp
qed

end
