(* ===== verification/MW_Serialization.thy ===== *)
theory MW_Serialization
  imports MW_Util
begin

text \<open>
  The byte streams of \<^verbatim>\<open>include/mw/core/serialization\<close>: \<open>Serializer\<close> appends to a byte vector,
  \<open>Deserializer\<close> reads from one with a moving index. Both are modelled with the byte order of the
  host as a parameter, with 64-bit index arithmetic that wraps, and with exceptions and undefined
  behaviour as error values.

  The theory also sets up the two interfaces the data models rely on. \<open>decodes des x bs\<close> says that
  a reader consumes exactly \<open>bs\<close> wherever they stand in a buffer and returns \<open>x\<close>; the locale
  \<open>codec\<close> states what a pair of \<^verbatim>\<open>Serialize\<close> and \<^verbatim>\<open>Deserialize\<close> promises and derives round trips for
  lists and for whole buffers. \<open>reader_safe des\<close> says that a reader never runs into undefined
  behaviour and only moves the index forward inside the buffer.
\<close>

section \<open>Serializer\<close>

record Serializer =
  m_serialized :: bytes

definition new_Serializer :: Serializer where
  "new_Serializer = \<lparr>m_serialized = []\<rparr>"

definition Append :: "bool \<Rightarrow> 'a::len word \<Rightarrow> Serializer \<Rightarrow> Serializer" where
  "Append be t s =
     (let temp = mem_of be t
      in if IsBigEndian be
         then s\<lparr>m_serialized := m_serialized s @ temp\<rparr>
         else s\<lparr>m_serialized := m_serialized s @ rev temp\<rparr>)"

definition AppendLE :: "bool \<Rightarrow> 'a::len word \<Rightarrow> Serializer \<Rightarrow> Serializer" where
  "AppendLE be t s =
     (let temp = mem_of be t
      in if IsBigEndian be
         then s\<lparr>m_serialized := m_serialized s @ rev temp\<rparr>
         else s\<lparr>m_serialized := m_serialized s @ temp\<rparr>)"

definition AppendVec :: "bytes \<Rightarrow> Serializer \<Rightarrow> Serializer" where
  "AppendVec vectorToAppend s = s\<lparr>m_serialized := m_serialized s @ vectorToAppend\<rparr>"

definition AppendArr :: "bytes \<Rightarrow> Serializer \<Rightarrow> Serializer" where
  "AppendArr arr s = s\<lparr>m_serialized := m_serialized s @ arr\<rparr>"

definition string_bytes :: "string \<Rightarrow> bytes" where
  "string_bytes str = map (\<lambda>c. of_nat (of_char c)) str"

definition bytes_string :: "bytes \<Rightarrow> string" where
  "bytes_string bs = map (\<lambda>b. char_of (unat b)) bs"

definition AppendString :: "bool \<Rightarrow> string \<Rightarrow> Serializer \<Rightarrow> Serializer" where
  "AppendString be varString s =
     (let s' = Append be (of_nat (length varString) :: u64) s
      in s'\<lparr>m_serialized := m_serialized s' @ string_bytes varString\<rparr>)"

text \<open>\<^verbatim>\<open>Append(const char*)\<close> reads the characters up to the terminating NUL.\<close>

definition AppendCStr :: "bool \<Rightarrow> string \<Rightarrow> Serializer \<Rightarrow> Serializer" where
  "AppendCStr be str s = AppendString be (takeWhile (\<lambda>c. c \<noteq> CHR 0x00) str) s"

text \<open>\<^verbatim>\<open>ISerializable::Serialized\<close>: the bytes an object appends to an empty serializer.\<close>

definition Serialized :: "(Serializer \<Rightarrow> Serializer) \<Rightarrow> bytes" where
  "Serialized serialize = m_serialized (serialize new_Serializer)"

definition Serializer_at :: "Serializer \<Rightarrow> nat \<Rightarrow> u8 result" where
  "Serializer_at s x = vec_at (m_serialized s) x"

lemma char_of_of_char [simp]: "char_of (unat (of_nat (of_char c) :: u8)) = c"
proof -
  have "of_char c < (256 :: nat)" by simp
  then show ?thesis by (simp add: unat_of_nat)
qed

lemma bytes_string_bytes [simp]: "bytes_string (string_bytes str) = str"
  by (induction str) (simp_all add: bytes_string_def string_bytes_def)

lemma string_bytes_Nil: "string_bytes [] = []"
  by (simp add: string_bytes_def)

lemma length_string_bytes [simp]: "length (string_bytes str) = length str"
  by (simp add: string_bytes_def)

text \<open>What is appended does not depend on the byte order of the host.\<close>

definition appends :: "(Serializer \<Rightarrow> Serializer) \<Rightarrow> bytes \<Rightarrow> bool" where
  "appends f bs \<longleftrightarrow> (\<forall>s. f s = s\<lparr>m_serialized := m_serialized s @ bs\<rparr>)"

lemma appendsI: "(\<And>s. f s = s\<lparr>m_serialized := m_serialized s @ bs\<rparr>) \<Longrightarrow> appends f bs"
  by (simp add: appends_def)

lemma appendsD: "appends f bs \<Longrightarrow> f s = s\<lparr>m_serialized := m_serialized s @ bs\<rparr>"
  by (simp add: appends_def)

lemma Append_eq [mw_codec]:
  "Append be t s = s\<lparr>m_serialized := m_serialized s @ be_bytes t\<rparr>"
  by (simp add: Append_def mem_of_def)

lemma AppendLE_eq [mw_codec]:
  "AppendLE be t s = s\<lparr>m_serialized := m_serialized s @ le_bytes t\<rparr>"
  by (simp add: AppendLE_def mem_of_def)

lemma AppendString_eq [mw_codec]:
  "AppendString be str s =
     s\<lparr>m_serialized := m_serialized s @ be_bytes (of_nat (length str) :: u64) @ string_bytes str\<rparr>"
  by (simp add: AppendString_def Append_eq)

lemma appends_comp: "appends f xs \<Longrightarrow> appends g ys \<Longrightarrow> appends (\<lambda>s. g (f s)) (xs @ ys)"
  by (simp add: appends_def)

lemma appends_simps [simp, intro]:
  "appends (Append be t) (be_bytes t)"
  "appends (AppendLE be t) (le_bytes t)"
  "appends (AppendVec v) v"
  "appends (AppendArr v) v"
  "appends (AppendString be str) (be_bytes (of_nat (length str) :: u64) @ string_bytes str)"
  by (simp_all add: appends_def mw_codec AppendVec_def AppendArr_def)

lemma Serialized_appends: "appends f bs \<Longrightarrow> Serialized f = bs"
  by (simp add: Serialized_def new_Serializer_def appends_def)

text \<open>\<^verbatim>\<open>std::for_each\<close> over a vector, serializing each element.\<close>

definition serialize_all :: "('a \<Rightarrow> Serializer \<Rightarrow> Serializer) \<Rightarrow> 'a list \<Rightarrow> Serializer \<Rightarrow> Serializer" where
  "serialize_all ser xs s = fold ser xs s"

lemma appends_serialize_all:
  "(\<And>x. x \<in> set xs \<Longrightarrow> appends (ser x) (enc x)) \<Longrightarrow>
     appends (serialize_all ser xs) (concat (map enc xs))"
proof (induction xs)
  case (Cons x xs)
  have "appends (\<lambda>s. serialize_all ser xs (ser x s)) (enc x @ concat (map enc xs))"
    using Cons by (intro appends_comp) auto
  then show ?case by (simp add: serialize_all_def)
qed (simp add: appends_def serialize_all_def)

section \<open>Deserializer\<close>

record Deserializer =
  m_index :: u64
  m_bytes :: bytes

type_synonym 'a reader = "Deserializer \<Rightarrow> ('a \<times> Deserializer) result"

definition new_Deserializer :: "bytes \<Rightarrow> Deserializer" where
  "new_Deserializer bs = \<lparr>m_index = 0, m_bytes = bs\<rparr>"

definition dreturn :: "'a \<Rightarrow> 'a reader" where
  "dreturn x d = Inr (x, d)"

definition dthrow :: "exn \<Rightarrow> 'a reader" where
  "dthrow e d = Inl e"

definition dbind :: "'a reader \<Rightarrow> ('a \<Rightarrow> 'b reader) \<Rightarrow> 'b reader" where
  "dbind m f d = rbind (m d) (\<lambda>(x, d'). f x d')"

abbreviation past_end :: exn where
  "past_end \<equiv> DeserializationException ''Attempted to read past end of buffer.''"

abbreviation past_end_LE :: exn where
  "past_end_LE \<equiv> DeserializationException ''Attempted to read past end of Deserializer.''"

definition vec_size :: "Deserializer \<Rightarrow> u64" where
  "vec_size d = of_nat (length (m_bytes d))"

definition ReadBigEndian :: "bool \<Rightarrow> 'a::len word reader" where
  "ReadBigEndian be d =
     (let n = of_nat (LENGTH('a) div 8)
      in if m_index d + n > vec_size d then Inl past_end
         else rbind (byte_range (m_bytes d) (m_index d) (m_index d + n)) (\<lambda>bs.
           Inr (if IsBigEndian be then of_mem be bs else of_mem be (rev bs),
                d\<lparr>m_index := m_index d + n\<rparr>)))"

definition ReadLittleEndian :: "bool \<Rightarrow> 'a::len word reader" where
  "ReadLittleEndian be d =
     (let n = of_nat (LENGTH('a) div 8)
      in if m_index d + n > vec_size d then Inl past_end_LE
         else rbind (byte_range (m_bytes d) (m_index d) (m_index d + n)) (\<lambda>bs.
           Inr (if IsBigEndian be then of_mem be (rev bs) else of_mem be bs,
                d\<lparr>m_index := m_index d + n\<rparr>)))"

definition Read :: "bool \<Rightarrow> 'a::len word reader" where
  "Read be d = ReadBigEndian be d"

definition ReadLE :: "bool \<Rightarrow> 'a::len word reader" where
  "ReadLE be d = ReadLittleEndian be d"

definition ReadVarStr :: "bool \<Rightarrow> string reader" where
  "ReadVarStr be =
     dbind (Read be) (\<lambda>stringLength :: u64. \<lambda>d.
       if stringLength = 0 then Inr ('''', d)
       else if m_index d + stringLength > vec_size d then Inl past_end
       else rbind (byte_range (m_bytes d) (m_index d) (m_index d + stringLength)) (\<lambda>temp.
         Inr (bytes_string temp, d\<lparr>m_index := m_index d + stringLength\<rparr>)))"

definition ReadVector :: "u64 \<Rightarrow> bytes reader" where
  "ReadVector numBytes d =
     (if m_index d + numBytes > vec_size d then Inl past_end
      else let index = m_index d; d' = d\<lparr>m_index := m_index d + numBytes\<rparr>
           in rbind (byte_range (m_bytes d) index (index + numBytes)) (\<lambda>bs. Inr (bs, d')))"

definition ReadArray :: "u64 \<Rightarrow> bytes reader" where
  "ReadArray T d =
     (if m_index d + T > vec_size d then Inl past_end
      else let index = m_index d; d' = d\<lparr>m_index := m_index d + T\<rparr>
           in rbind (byte_range (m_bytes d) index (index + T)) (\<lambda>arr. Inr (arr, d')))"

definition GetRemainingSize :: "Deserializer \<Rightarrow> u64" where
  "GetRemainingSize d = vec_size d - m_index d"

text \<open>
  A loop that reads \<open>n\<close> elements into a vector after \<^verbatim>\<open>reserve(n)\<close>. \<^verbatim>\<open>reserve\<close> throws when more is
  asked for than the implementation can allocate; the limit \<open>cap\<close> is a parameter.
\<close>

primrec read_times :: "'a reader \<Rightarrow> nat \<Rightarrow> 'a list reader" where
  "read_times r 0 = dreturn []"
| "read_times r (Suc n) = dbind r (\<lambda>x. dbind (read_times r n) (\<lambda>xs. dreturn (x # xs)))"

definition read_list :: "u64 \<Rightarrow> 'a reader \<Rightarrow> u64 \<Rightarrow> 'a list reader" where
  "read_list cap r n = (if n > cap then dthrow LengthError else read_times r (unat n))"


section \<open>Index arithmetic without wrap-around\<close>

text \<open>
  A well-formed deserializer: the index is inside the buffer, and the buffer is no longer than
  \<^verbatim>\<open>PTRDIFF_MAX\<close>, the largest \<^verbatim>\<open>std::vector<uint8_t>\<close>.
\<close>

definition Deserializer_wf :: "Deserializer \<Rightarrow> bool" where
  "Deserializer_wf d \<longleftrightarrow> unat (m_index d) \<le> length (m_bytes d) \<and> length (m_bytes d) < 2 ^ 63"

text \<open>The Deserializer standing after the bytes \<open>pre\<close> of a buffer.\<close>

definition reader_at :: "bytes \<Rightarrow> bytes \<Rightarrow> Deserializer" where
  "reader_at pre rest = \<lparr>m_index = of_nat (length pre), m_bytes = pre @ rest\<rparr>"

lemma reader_at_simps [simp]:
  "m_index (reader_at pre rest) = of_nat (length pre)"
  "m_bytes (reader_at pre rest) = pre @ rest"
  by (simp_all add: reader_at_def)

lemma reader_at_Nil: "reader_at [] bs = new_Deserializer bs"
  by (simp add: reader_at_def new_Deserializer_def)

lemma wf_reader_at_cases:
  assumes "Deserializer_wf d"
  obtains pre rest where "d = reader_at pre rest" "length (pre @ rest) < 2 ^ 63"
proof -
  let ?i = "unat (m_index d)"
  have i: "?i \<le> length (m_bytes d)" using assms by (simp add: Deserializer_wf_def)
  have "d = reader_at (take ?i (m_bytes d)) (drop ?i (m_bytes d))"
    using i by (simp add: reader_at_def min_absorb2)
  then show ?thesis using that assms by (fastforce simp: Deserializer_wf_def)
qed

lemma wf_reader_at: "length (pre @ rest) < 2 ^ 63 \<Longrightarrow> Deserializer_wf (reader_at pre rest)"
  by (simp add: Deserializer_wf_def unat_of_nat_u64)

lemma reader_at_advance:
  "reader_at pre (mid @ rest)\<lparr>m_index := of_nat (length pre) + of_nat (length mid)\<rparr> =
     reader_at (pre @ mid) rest"
  by (simp add: reader_at_def)

text \<open>The bounds check of the readers for a length that does not make the sum wrap.\<close>

lemma bounds_check_iff:
  assumes "length (pre @ rest) < 2 ^ 63" "n < 2 ^ 63"
  shows "of_nat (length pre) + of_nat n > vec_size (reader_at pre rest) \<longleftrightarrow> length rest < n"
proof -
  have "of_nat (length pre) + of_nat n = (of_nat (length pre + n) :: u64)" by simp
  moreover have "length pre + n < 2 ^ 64" "length (pre @ rest) < 2 ^ 64" using assms by simp_all
  ultimately show ?thesis
    by (simp only: vec_size_def word_less_nat_alt unat_of_nat_u64 reader_at_simps) simp
qed

lemma byte_range_at:
  assumes "length (pre @ mid @ rest) < 2 ^ 63"
  shows "byte_range (pre @ mid @ rest) (of_nat (length pre)) (of_nat (length pre) + of_nat (length mid)) = Inr mid"
proof -
  have "of_nat (length pre) + of_nat (length mid) = (of_nat (length pre + length mid) :: u64)" by simp
  moreover have "length pre + length mid < 2 ^ 64" "length pre < 2 ^ 64" using assms by simp_all
  ultimately show ?thesis
    by (simp only: byte_range_def word_le_nat_alt unat_of_nat_u64) simp
qed

lemma split_rest:
  assumes "n \<le> length rest"
  obtains mid rest' where "rest = mid @ rest'" "length mid = n"
  using assms by (metis append_take_drop_id length_take min_absorb2)

text \<open>\<open>ReadVector\<close> for every length, when the sum with the index does not wrap and when it does.\<close>

lemma ReadVector_short:
  assumes "length (pre @ rest) < 2 ^ 63" "length rest < n" "n < 2 ^ 63"
  shows "ReadVector (of_nat n) (reader_at pre rest) = Inl past_end"
  using assms bounds_check_iff [of pre rest n] by (simp add: ReadVector_def)

lemma ReadVector_exact:
  assumes "length (pre @ mid @ rest) < 2 ^ 63"
  shows "ReadVector (of_nat (length mid)) (reader_at pre (mid @ rest)) =
    Inr (mid, reader_at (pre @ mid) rest)"
  using assms bounds_check_iff [of pre "mid @ rest" "length mid"] byte_range_at [OF assms]
  by (simp add: ReadVector_def reader_at_advance)

text \<open>\<open>Read\<close> and \<open>ReadLE\<close> of an integer type of at most 8 bytes.\<close>

lemma Read_exact:
  fixes x :: "'a::len word"
  assumes "8 dvd LENGTH('a)" "LENGTH('a) \<le> 64" "length (pre @ be_bytes x @ rest) < 2 ^ 63"
  shows "Read be (reader_at pre (be_bytes x @ rest)) = Inr (x, reader_at (pre @ be_bytes x) rest)"
proof -
  have n: "length (be_bytes x) = LENGTH('a) div 8" by simp
  have "LENGTH('a) div 8 < 2 ^ 63" using assms(2) by simp
  then show ?thesis
    using assms bounds_check_iff [of pre "be_bytes x @ rest" "LENGTH('a) div 8"]
      byte_range_at [OF assms(3)] reader_at_advance [of pre "be_bytes x" rest]
    unfolding n by (simp add: Read_def ReadBigEndian_def Let_def of_mem_def)
qed

lemma ReadLE_exact:
  fixes x :: "'a::len word"
  assumes "8 dvd LENGTH('a)" "LENGTH('a) \<le> 64" "length (pre @ le_bytes x @ rest) < 2 ^ 63"
  shows "ReadLE be (reader_at pre (le_bytes x @ rest)) = Inr (x, reader_at (pre @ le_bytes x) rest)"
proof -
  have n: "length (le_bytes x) = LENGTH('a) div 8" by simp
  have "LENGTH('a) div 8 < 2 ^ 63" using assms(2) by simp
  then show ?thesis
    using assms bounds_check_iff [of pre "le_bytes x @ rest" "LENGTH('a) div 8"]
      byte_range_at [OF assms(3)] reader_at_advance [of pre "le_bytes x" rest]
    unfolding n by (simp add: ReadLE_def ReadLittleEndian_def Let_def of_mem_def)
qed

lemma Read_cases:
  assumes "8 dvd LENGTH('a::len)" "LENGTH('a) \<le> 64" "length (pre @ rest) < 2 ^ 63"
  shows "length rest < LENGTH('a) div 8 \<and> (Read be :: 'a word reader) (reader_at pre rest) = Inl past_end
    \<or> (\<exists>x rest'. rest = be_bytes (x :: 'a word) @ rest' \<and>
          (Read be :: 'a word reader) (reader_at pre rest) = Inr (x, reader_at (pre @ be_bytes x) rest'))"
proof (cases "length rest < LENGTH('a) div 8")
  case True
  have "LENGTH('a) div 8 < 2 ^ 63" using assms(2) by simp
  then show ?thesis
    using True assms bounds_check_iff [of pre rest "LENGTH('a) div 8"] by (simp add: Read_def ReadBigEndian_def Let_def)
next
  case False
  then obtain mid rest' where r: "rest = mid @ rest'" "length mid = LENGTH('a) div 8"
    using split_rest [of "LENGTH('a) div 8" rest] by auto
  define x where "x = (of_le_bytes (rev mid) :: 'a word)"
  have "mid = be_bytes x" using assms(1) r(2) by (simp add: x_def)
  then show ?thesis using assms r Read_exact [OF assms(1,2), of pre x rest' be] by auto
qed

section \<open>Readers that decode\<close>

definition decodes :: "'a reader \<Rightarrow> 'a \<Rightarrow> bytes \<Rightarrow> bool" where
  "decodes des x bs \<longleftrightarrow> (\<forall>pre rest. length (pre @ bs @ rest) < 2 ^ 63 \<longrightarrow>
     des (reader_at pre (bs @ rest)) = Inr (x, reader_at (pre @ bs) rest))"

lemma decodesI:
  "(\<And>pre rest. length (pre @ bs @ rest) < 2 ^ 63 \<Longrightarrow>
     des (reader_at pre (bs @ rest)) = Inr (x, reader_at (pre @ bs) rest)) \<Longrightarrow> decodes des x bs"
  by (simp add: decodes_def)

lemma decodesD:
  "decodes des x bs \<Longrightarrow> length (pre @ bs @ rest) < 2 ^ 63 \<Longrightarrow>
     des (reader_at pre (bs @ rest)) = Inr (x, reader_at (pre @ bs) rest)"
  by (simp add: decodes_def)

lemma decodes_return [simp, intro]: "decodes (dreturn x) x []"
  by (simp add: decodes_def dreturn_def)

lemma decodes_bind:
  assumes "decodes m x xs" "decodes (f x) y ys"
  shows "decodes (dbind m f) y (xs @ ys)"
proof (rule decodesI)
  fix pre rest assume len: "length (pre @ (xs @ ys) @ rest) < 2 ^ 63"
  have "m (reader_at pre (xs @ ys @ rest)) = Inr (x, reader_at (pre @ xs) (ys @ rest))"
    using decodesD [OF assms(1), of pre "ys @ rest"] len by simp
  moreover have "f x (reader_at (pre @ xs) (ys @ rest)) = Inr (y, reader_at ((pre @ xs) @ ys) rest)"
    using decodesD [OF assms(2), of "pre @ xs" rest] len by simp
  ultimately show "dbind m f (reader_at pre ((xs @ ys) @ rest)) = Inr (y, reader_at (pre @ xs @ ys) rest)"
    by (simp add: dbind_def)
qed

lemma decodes_bind_return:
  "decodes m x xs \<Longrightarrow> f x = dreturn y \<Longrightarrow> decodes (dbind m f) y xs"
  using decodes_bind [of m x xs f y "[]"] by simp

lemma decodes_Read [simp, intro]:
  "8 dvd LENGTH('a) \<Longrightarrow> LENGTH('a) \<le> 64 \<Longrightarrow> decodes (Read be) (x :: 'a::len word) (be_bytes x)"
  by (simp add: decodes_def Read_exact)

lemma decodes_ReadLE [simp, intro]:
  "8 dvd LENGTH('a) \<Longrightarrow> LENGTH('a) \<le> 64 \<Longrightarrow> decodes (ReadLE be) (x :: 'a::len word) (le_bytes x)"
  by (simp add: decodes_def ReadLE_exact)

lemma decodes_ReadVector:
  "unat n = length bs \<Longrightarrow> decodes (ReadVector n) bs bs"
  by (rule decodesI) (metis ReadVector_exact of_nat_unat ucast_id)

lemma decodes_read_times:
  "(\<And>x. x \<in> set xs \<Longrightarrow> decodes r x (enc x)) \<Longrightarrow>
     decodes (read_times r (length xs)) xs (concat (map enc xs))"
proof (induction xs)
  case (Cons x xs)
  have "decodes (dbind (read_times r (length xs)) (\<lambda>xs. dreturn (x # xs))) (x # xs) (concat (map enc xs))"
    using Cons by (intro decodes_bind_return) auto
  then show ?case using Cons.prems by (auto intro: decodes_bind)
qed simp

lemma decodes_read_list:
  assumes "\<And>x. x \<in> set xs \<Longrightarrow> decodes r x (enc x)" "length xs \<le> unat cap"
  shows "decodes (read_list cap r (of_nat (length xs))) xs (concat (map enc xs))"
proof -
  have "length xs < 2 ^ 64" using le_less_trans [OF assms(2) unsigned_less [of cap]] by simp
  then have "unat (of_nat (length xs) :: u64) = length xs" by (rule unat_of_nat_u64)
  then show ?thesis
    using assms decodes_read_times [of xs r enc] by (simp add: read_list_def word_less_nat_alt)
qed

text \<open>Two values whose encodings start the same buffer are equal.\<close>

lemma decodes_unique:
  assumes "decodes des x xs" "decodes des y ys" "xs @ r = ys @ r'" "length (xs @ r) < 2 ^ 63"
  shows "x = y \<and> xs = ys"
proof -
  have 1: "des (reader_at [] (xs @ r)) = Inr (x, reader_at xs r)"
    using decodesD [OF assms(1), of "[]" r] assms(4) by simp
  have 2: "des (reader_at [] (xs @ r)) = Inr (y, reader_at ys r')"
    using decodesD [OF assms(2), of "[]" r'] assms(3,4) by simp
  have "x = y" "(of_nat (length xs) :: u64) = of_nat (length ys)"
    using 1 2 by (auto simp: reader_at_def)
  moreover have "length xs + length r = length ys + length r'"
    using arg_cong [OF assms(3), of length] by simp
  then have "length xs < 2 ^ 64" "length ys < 2 ^ 64" using assms(4) by simp_all
  ultimately have "x = y" "length xs = length ys" by (metis unat_of_nat_u64)+
  then show ?thesis using assms(3) by simp
qed


section \<open>Readers that are safe on every input\<close>

definition reader_safe :: "'a reader \<Rightarrow> bool" where
  "reader_safe r \<longleftrightarrow> (\<forall>pre rest. length (pre @ rest) < 2 ^ 63 \<longrightarrow>
     (case r (reader_at pre rest) of
        Inl e \<Rightarrow> e \<noteq> UndefinedBehaviour
      | Inr (x, d') \<Rightarrow> (\<exists>mid rest'. rest = mid @ rest' \<and> d' = reader_at (pre @ mid) rest')))"

lemma reader_safeI:
  assumes "\<And>pre rest. length (pre @ rest) < 2 ^ 63 \<Longrightarrow>
     (\<exists>e. r (reader_at pre rest) = Inl e \<and> e \<noteq> UndefinedBehaviour) \<or>
     (\<exists>x mid rest'. r (reader_at pre rest) = Inr (x, reader_at (pre @ mid) rest') \<and> rest = mid @ rest')"
  shows "reader_safe r"
  unfolding reader_safe_def using assms by (fastforce split: sum.split)

lemma reader_safeE:
  assumes "reader_safe r" "length (pre @ rest) < 2 ^ 63"
  obtains (error) e where "r (reader_at pre rest) = Inl e" "e \<noteq> UndefinedBehaviour"
  | (ok) x mid rest' where "r (reader_at pre rest) = Inr (x, reader_at (pre @ mid) rest')"
      "rest = mid @ rest'"
proof (cases "r (reader_at pre rest)")
  case (Inl e)
  then show ?thesis using assms that(1) unfolding reader_safe_def by fastforce
next
  case (Inr p)
  then obtain x d' where "r (reader_at pre rest) = Inr (x, d')" by (cases p) auto
  then show ?thesis using assms that(2) unfolding reader_safe_def by fastforce
qed

lemma reader_safe_return [simp, intro]: "reader_safe (dreturn x)"
proof (rule reader_safeI)
  fix pre rest :: bytes
  have "dreturn x (reader_at pre rest) = Inr (x, reader_at (pre @ []) rest) \<and> rest = [] @ rest"
    by (simp add: dreturn_def)
  then show "(\<exists>e. dreturn x (reader_at pre rest) = Inl e \<and> e \<noteq> UndefinedBehaviour) \<or>
     (\<exists>y mid rest'. dreturn x (reader_at pre rest) = Inr (y, reader_at (pre @ mid) rest') \<and> rest = mid @ rest')"
    by blast
qed

lemma reader_safe_throw [simp, intro]: "e \<noteq> UndefinedBehaviour \<Longrightarrow> reader_safe (dthrow e)"
  by (rule reader_safeI) (auto simp: dthrow_def)

lemma reader_safe_bind [intro]:
  assumes "reader_safe m" "\<And>x. reader_safe (f x)"
  shows "reader_safe (dbind m f)"
proof (rule reader_safeI)
  fix pre rest :: bytes assume len: "length (pre @ rest) < 2 ^ 63"
  show "(\<exists>e. dbind m f (reader_at pre rest) = Inl e \<and> e \<noteq> UndefinedBehaviour) \<or>
     (\<exists>x mid rest'. dbind m f (reader_at pre rest) = Inr (x, reader_at (pre @ mid) rest') \<and> rest = mid @ rest')"
    using assms(1) len
  proof (cases rule: reader_safeE)
    case (error e)
    then show ?thesis by (simp add: dbind_def)
  next
    case (ok x mid rest')
    have len': "length ((pre @ mid) @ rest') < 2 ^ 63" using len ok(2) by simp
    have eq: "dbind m f (reader_at pre rest) = f x (reader_at (pre @ mid) rest')"
      using ok(1) by (simp add: dbind_def)
    from assms(2) [of x] len' show ?thesis
    proof (cases rule: reader_safeE)
      case (error e)
      then show ?thesis using eq by simp
    next
      case (ok y mid2 rest2)
      have "rest = (mid @ mid2) @ rest2" using \<open>rest = mid @ rest'\<close> ok(2) by simp
      moreover have "dbind m f (reader_at pre rest) = Inr (y, reader_at (pre @ (mid @ mid2)) rest2)"
        using eq ok(1) by simp
      ultimately show ?thesis by blast
    qed
  qed
qed

lemma reader_safe_if [intro]:
  "(b \<Longrightarrow> reader_safe r) \<Longrightarrow> (\<not> b \<Longrightarrow> reader_safe r') \<Longrightarrow> reader_safe (if b then r else r')"
  by simp

lemma reader_safe_Read [simp, intro]:
  assumes "8 dvd LENGTH('a::len)" "LENGTH('a) \<le> 64"
  shows "reader_safe (Read be :: 'a word reader)"
proof (rule reader_safeI)
  fix pre rest :: bytes assume len: "length (pre @ rest) < 2 ^ 63"
  show "(\<exists>e. (Read be :: 'a word reader) (reader_at pre rest) = Inl e \<and> e \<noteq> UndefinedBehaviour) \<or>
     (\<exists>x mid rest'. (Read be :: 'a word reader) (reader_at pre rest) = Inr (x, reader_at (pre @ mid) rest') \<and> rest = mid @ rest')"
    using Read_cases [OF assms len, of be] by auto
qed

text \<open>Vectors are safe to read when the length is bounded, so that the sum cannot wrap.\<close>

lemma reader_safe_ReadVector:
  assumes "unat n < 2 ^ 63"
  shows "reader_safe (ReadVector n)"
proof (rule reader_safeI)
  fix pre rest :: bytes assume len: "length (pre @ rest) < 2 ^ 63"
  obtain k where k: "n = of_nat k" "k = unat n" by (rule that [of "unat n"]) simp_all
  show "(\<exists>e. ReadVector n (reader_at pre rest) = Inl e \<and> e \<noteq> UndefinedBehaviour) \<or>
     (\<exists>x mid rest'. ReadVector n (reader_at pre rest) = Inr (x, reader_at (pre @ mid) rest') \<and> rest = mid @ rest')"
  proof (cases "length rest < k")
    case True
    then show ?thesis
      using ReadVector_short [OF len True] assms k(2) unfolding k(1) by (simp add: k(2) [symmetric])
  next
    case False
    then obtain mid rest' where r: "rest = mid @ rest'" "length mid = k"
      using split_rest [of k rest] by auto
    then show ?thesis
      using ReadVector_exact [of pre mid rest'] len unfolding k(1) r(2) [symmetric] r(1) by auto
  qed
qed

lemma reader_safe_read_times [intro]: "reader_safe r \<Longrightarrow> reader_safe (read_times r n)"
  by (induction n) auto

lemma reader_safe_read_list [intro]: "reader_safe r \<Longrightarrow> reader_safe (read_list cap r n)"
  by (auto simp: read_list_def)

section \<open>The contract of Serialize and Deserialize\<close>

locale codec =
  fixes ser :: "'a \<Rightarrow> Serializer \<Rightarrow> Serializer"
    and des :: "'a reader"
    and enc :: "'a \<Rightarrow> bytes"
    and valid :: "'a \<Rightarrow> bool"
  assumes ser_appends: "appends (ser x) (enc x)"
    and des_enc: "valid x \<Longrightarrow> decodes des x (enc x)"
    and des_safe: "reader_safe des"
begin

lemma Serialized_enc: "Serialized (ser x) = enc x"
  by (rule Serialized_appends) (rule ser_appends)

lemma roundtrip:
  "valid x \<Longrightarrow> length (enc x @ rest) < 2 ^ 63 \<Longrightarrow>
     des (new_Deserializer (Serialized (ser x) @ rest)) = Inr (x, reader_at (enc x) rest)"
  using decodesD [OF des_enc, of x "[]" rest] by (simp add: Serialized_enc reader_at_Nil)

lemma roundtrip_stream:
  assumes "valid x" "length (enc x) < 2 ^ 62" "length rest < 2 ^ 62"
  shows "des (new_Deserializer (Serialized (ser x) @ rest)) = Inr (x, reader_at (Serialized (ser x)) rest)"
proof -
  have "length (enc x @ rest) < 2 ^ 63" using assms(2,3) by simp
  then show ?thesis using roundtrip [OF assms(1)] by (simp only: Serialized_enc)
qed

lemma serialize_all_enc: "appends (serialize_all ser xs) (concat (map enc xs))"
  by (rule appends_serialize_all) (rule ser_appends)

lemma list_enc:
  "list_all valid xs \<Longrightarrow> length xs \<le> unat cap \<Longrightarrow>
     decodes (read_list cap des (of_nat (length xs))) xs (concat (map enc xs))"
  by (rule decodes_read_list) (auto simp: list_all_iff intro: des_enc)

lemma enc_inject:
  assumes "valid x" "valid y" "enc x = enc y" "length (enc x) < 2 ^ 63"
  shows "x = y"
  using decodes_unique [OF des_enc [OF assms(1)] des_enc [OF assms(2)], of "[]" "[]"] assms by simp

lemma never_undefined:
  assumes "length bs < 2 ^ 63"
  shows "des (new_Deserializer bs) \<noteq> Inl UndefinedBehaviour"
proof -
  have "length ([] @ bs) < 2 ^ 63" using assms by simp
  with des_safe show ?thesis
    by (cases rule: reader_safeE) (auto simp: reader_at_Nil [symmetric])
qed

end

interpretation u8_codec: codec "Append be" "Read be" "\<lambda>x :: u8. be_bytes x" "\<lambda>_. True" for be
  by unfold_locales auto

interpretation u64_codec: codec "Append be" "Read be" "\<lambda>x :: u64. be_bytes x" "\<lambda>_. True" for be
  by unfold_locales auto

section \<open>Properties of the streams\<close>

lemma decodes_ReadVarStr:
  assumes "length str < 2 ^ 63"
  shows "decodes (ReadVarStr be) str (be_bytes (of_nat (length str) :: u64) @ string_bytes str)"
  unfolding ReadVarStr_def
proof (rule decodes_bind)
  let ?n = "of_nat (length str) :: u64"
  show "decodes (Read be) ?n (be_bytes ?n)" by auto
  have n: "unat ?n = length str" using assms by (intro unat_of_nat_u64) simp
  then have z: "?n = 0 \<longleftrightarrow> str = []" by (metis length_0_conv unat_eq_0)
  show "decodes (\<lambda>d. if ?n = 0 then Inr ('''', d)
       else if m_index d + ?n > vec_size d then Inl past_end
       else rbind (byte_range (m_bytes d) (m_index d) (m_index d + ?n)) (\<lambda>temp.
         Inr (bytes_string temp, d\<lparr>m_index := m_index d + ?n\<rparr>))) str (string_bytes str)"
    (is "decodes ?r str ?bs")
  proof (rule decodesI)
    fix pre rest assume len: "length (pre @ ?bs @ rest) < 2 ^ 63"
    have adv: "reader_at pre (?bs @ rest)\<lparr>m_index := of_nat (length pre) + ?n\<rparr> = reader_at (pre @ ?bs) rest"
      using reader_at_advance [of pre ?bs rest] by simp
    have "\<not> vec_size (reader_at pre (?bs @ rest)) < of_nat (length pre) + ?n"
      using bounds_check_iff [of pre "?bs @ rest" "length str"] len assms by simp
    moreover have "byte_range (pre @ ?bs @ rest) (of_nat (length pre)) (of_nat (length pre) + ?n) = Inr ?bs"
      using byte_range_at [OF len] by simp
    ultimately show "?r (reader_at pre (?bs @ rest)) = Inr (str, reader_at (pre @ ?bs) rest)"
      using z adv by (cases "str = []") (auto simp: string_bytes_Nil)
  qed
qed

text \<open>
  C32. Values written by a \<open>Serializer\<close> on a host of any byte order are read back in the same
  order by a \<open>Deserializer\<close> on a host of any byte order: a 64-bit integer in network order, one in
  little-endian order, a string with its length, and a byte vector.
\<close>

theorem stream_roundtrip:
  assumes "length str + length v < 2 ^ 62"
  shows "dbind (Read be') (\<lambda>a'. dbind (ReadLE be') (\<lambda>b'. dbind (ReadVarStr be') (\<lambda>str'.
       dbind (ReadVector (of_nat (length v))) (\<lambda>v'. dreturn (a', b', str', v')))))
     (new_Deserializer (Serialized (\<lambda>s. AppendVec v (AppendString be str (AppendLE be b (Append be a s))))))
   = Inr ((a :: u64, b :: u64, str, v),
       reader_at (Serialized (\<lambda>s. AppendVec v (AppendString be str (AppendLE be b (Append be a s))))) [])"
proof -
  let ?enc = "be_bytes a @ le_bytes b @ (be_bytes (of_nat (length str) :: u64) @ string_bytes str) @ v"
  let ?r = "dbind (Read be') (\<lambda>a'. dbind (ReadLE be') (\<lambda>b'. dbind (ReadVarStr be') (\<lambda>str'.
       dbind (ReadVector (of_nat (length v))) (\<lambda>v'. dreturn (a', b', str', v')))))"
  have "appends (\<lambda>s. AppendVec v (AppendString be str (AppendLE be b (Append be a s)))) ?enc"
    by (simp add: appends_def mw_codec AppendVec_def)
  then have ser: "Serialized (\<lambda>s. AppendVec v (AppendString be str (AppendLE be b (Append be a s)))) = ?enc"
    by (rule Serialized_appends)
  have v: "unat (of_nat (length v) :: u64) = length v" using assms by (intro unat_of_nat_u64) simp
  have "decodes ?r (a, b, str, v) ?enc"
  proof (rule decodes_bind)
    show "decodes (Read be') a (be_bytes a)" by auto
    have str: "decodes (ReadVarStr be') str (be_bytes (of_nat (length str) :: u64) @ string_bytes str)"
      using assms by (intro decodes_ReadVarStr) simp
    have "decodes (ReadVector (of_nat (length v))) v v"
      using assms v by (intro decodes_ReadVector) simp_all
    then have "decodes (dbind (ReadVarStr be') (\<lambda>str'. dbind (ReadVector (of_nat (length v)))
        (\<lambda>v'. dreturn (a, b, str', v')))) (a, b, str, v)
        ((be_bytes (of_nat (length str) :: u64) @ string_bytes str) @ v)"
      by (rule decodes_bind [OF str decodes_bind_return]) (rule refl)
    then show "decodes (dbind (ReadLE be') (\<lambda>b'. dbind (ReadVarStr be') (\<lambda>str'.
        dbind (ReadVector (of_nat (length v))) (\<lambda>v'. dreturn (a, b', str', v'))))) (a, b, str, v)
        (le_bytes b @ (be_bytes (of_nat (length str) :: u64) @ string_bytes str) @ v)"
      by (rule decodes_bind [rotated]) auto
  qed
  then show ?thesis
    using decodesD [of ?r "(a, b, str, v)" ?enc "[]" "[]"] assms
    unfolding ser by (simp add: reader_at_Nil)
qed

theorem stream_roundtrip_witness:
  "length ''grin'' + length [1 :: u8, 2] < 2 ^ 62 \<and>
   (\<exists>d. dbind (Read True) (\<lambda>a'. dbind (ReadLE True) (\<lambda>b'. dbind (ReadVarStr True) (\<lambda>str'.
       dbind (ReadVector (of_nat (length [1 :: u8, 2]))) (\<lambda>v'. dreturn (a', b', str', v')))))
     (new_Deserializer (Serialized (\<lambda>s. AppendVec [1, 2] (AppendString False ''grin''
        (AppendLE False (7 :: u64) (Append False (9 :: u64) s))))))
   = Inr ((9 :: u64, 7 :: u64, ''grin'', [1, 2]), d))"
proof -
  have h: "length ''grin'' + length [1 :: u8, 2] < 2 ^ 62" by simp
  show ?thesis using h stream_roundtrip [OF h] by blast
qed

text \<open>
  C33. \<open>ReadVector\<close> on a well-formed deserializer, for every requested length: it returns the
  next bytes and advances when they are there; it throws when they are not and the sum of index and
  length fits 64 bits; and it runs into undefined behaviour exactly when that sum wraps around,
  because the wrapped sum passes the bounds check.
\<close>

theorem ReadVector_outcomes:
  assumes "Deserializer_wf d"
  shows "ReadVector n d =
    (let i = unat (m_index d) in
     if i + unat n \<le> length (m_bytes d)
     then Inr (take (unat n) (drop i (m_bytes d)), d\<lparr>m_index := m_index d + n\<rparr>)
     else if i + unat n < 2 ^ 64 then Inl past_end
     else Inl UndefinedBehaviour)"
proof -
  let ?i = "unat (m_index d)" and ?L = "length (m_bytes d)"
  have wf: "?i \<le> ?L" "?L < 2 ^ 63" using assms by (simp_all add: Deserializer_wf_def)
  have L: "unat (vec_size d) = ?L" using wf(2) by (simp add: vec_size_def unat_of_nat_u64)
  show ?thesis
  proof (cases "?i + unat n < 2 ^ 64")
    case True
    then have s: "unat (m_index d + n) = ?i + unat n" by (intro unat_add_no_wrap) simp
    show ?thesis
      using True s L by (auto simp: ReadVector_def byte_range_def Let_def word_less_nat_alt word_le_nat_alt)
  next
    case False
    have "unat (m_index d + n) = (?i + unat n) mod 2 ^ 64" by (simp add: unat_word_ariths)
    also have "\<dots> = (?i + unat n - 2 ^ 64) mod 2 ^ 64" using False by (intro le_mod_geq) simp
    also have "\<dots> = ?i + unat n - 2 ^ 64"
      using unat_u64_lt [of "m_index d"] unat_u64_lt [of n]
      unfolding power_64 by (intro mod_less) linarith
    finally have s: "unat (m_index d + n) < ?i" using False unat_u64_lt [of n] unfolding power_64 by linarith
    have "\<not> m_index d \<le> m_index d + n" using s by (simp add: word_le_nat_alt)
    moreover have "\<not> m_index d + n > vec_size d" using s wf L by (simp add: word_less_nat_alt)
    moreover have "\<not> ?i + unat n \<le> ?L" using False wf by simp
    ultimately show ?thesis
      using False by (simp add: ReadVector_def byte_range_def Let_def)
  qed
qed

theorem ReadVector_outcomes_witness:
  "Deserializer_wf \<lparr>m_index = 1, m_bytes = [7, 8, 9]\<rparr> \<and>
   ReadVector (- 1) \<lparr>m_index = 1, m_bytes = [7, 8, 9]\<rparr> = Inl UndefinedBehaviour \<and>
   ReadVector 2 \<lparr>m_index = 1, m_bytes = [7, 8, 9]\<rparr> = Inr ([8, 9], \<lparr>m_index = 3, m_bytes = [7, 8, 9]\<rparr>)"
proof -
  let ?d = "\<lparr>m_index = 1, m_bytes = [7, 8, 9]\<rparr>"
  have h: "Deserializer_wf ?d" by (simp add: Deserializer_wf_def)
  have "unat (- 1 :: u64) = 2 ^ 64 - 1" by (simp add: unsigned_minus_1_eq_mask mask_eq_exp_minus_1)
  then show ?thesis
    using h ReadVector_outcomes [OF h, of "- 1"] ReadVector_outcomes [OF h, of 2] by simp
qed

end
