(* ===== verification/MW_Json.thy ===== *)
theory MW_Json
  imports MW_Prelude
begin

text \<open>
  The wrapper \<open>Json\<close> of \<^verbatim>\<open>include/mw/core/serialization/Json.h\<close> and the glue of
  \<^verbatim>\<open>include/mw/core/traits/Jsonable.h\<close>. The library behind them (nlohmann::json) is not part of the
  repository: it is the parameter \<open>J\<close> of every definition here, a record of the operations the
  sources call. \<open>json_laws J\<close> states the documented behaviour the sources rely on; \<open>json_ref\<close> is an
  instance of it on a plain datatype, at which the laws are shown to hold.
\<close>

section \<open>The JSON library as a parameter\<close>

record 'j json_lib =
  j_find :: "'j \<Rightarrow> string \<Rightarrow> 'j option"
  j_is_null :: "'j \<Rightarrow> bool"
  j_is_bool :: "'j \<Rightarrow> bool"
  j_is_number :: "'j \<Rightarrow> bool"
  j_is_string :: "'j \<Rightarrow> bool"
  j_is_object :: "'j \<Rightarrow> bool"
  j_is_array :: "'j \<Rightarrow> bool"
  j_get_bool :: "'j \<Rightarrow> bool result"
  j_get_int :: "'j \<Rightarrow> int result"
  j_get_string :: "'j \<Rightarrow> string result"
  j_get_array :: "'j \<Rightarrow> 'j list result"
  j_keys :: "'j \<Rightarrow> string list"
  j_null :: 'j
  j_bool :: "bool \<Rightarrow> 'j"
  j_int :: "int \<Rightarrow> 'j"
  j_string :: "string \<Rightarrow> 'j"
  j_array :: "'j list \<Rightarrow> 'j"
  j_object :: "(string \<times> 'j) list \<Rightarrow> 'j"
  j_dump :: "'j \<Rightarrow> string"

definition json_laws :: "'j json_lib \<Rightarrow> bool" where
  "json_laws J \<longleftrightarrow>
     (\<forall>n. j_is_number J (j_int J n) \<and> j_get_int J (j_int J n) = Inr n) \<and>
     (\<forall>b. j_is_bool J (j_bool J b) \<and> j_get_bool J (j_bool J b) = Inr b) \<and>
     (\<forall>s. j_is_string J (j_string J s) \<and> j_get_string J (j_string J s) = Inr s) \<and>
     (\<forall>xs. j_is_array J (j_array J xs) \<and> j_get_array J (j_array J xs) = Inr xs) \<and>
     (\<forall>kvs. j_is_object J (j_object J kvs)) \<and>
     (\<forall>kvs k. distinct (map fst kvs) \<longrightarrow> j_find J (j_object J kvs) k = map_of kvs k) \<and>
     j_is_null J (j_null J) \<and>
     (\<forall>v. j_is_object J v \<or> j_is_array J v \<longrightarrow>
        \<not> j_is_null J v \<and> \<not> j_is_number J v \<and> \<not> j_is_string J v \<and> \<not> j_is_bool J v) \<and>
     (\<forall>v. j_is_number J v \<longrightarrow> \<not> j_is_null J v \<and> \<not> j_is_string J v \<and> \<not> j_is_bool J v) \<and>
     (\<forall>v. j_is_string J v \<longrightarrow> \<not> j_is_null J v \<and> \<not> j_is_bool J v) \<and>
     (\<forall>v. j_is_bool J v \<longrightarrow> \<not> j_is_null J v)"

lemma json_laws_simps:
  assumes "json_laws J"
  shows "j_is_number J (j_int J n)" "j_get_int J (j_int J n) = Inr n"
    "j_is_bool J (j_bool J b)" "j_get_bool J (j_bool J b) = Inr b"
    "j_is_string J (j_string J s)" "j_get_string J (j_string J s) = Inr s"
    "j_is_array J (j_array J xs)" "j_get_array J (j_array J xs) = Inr xs"
    "j_is_object J (j_object J kvs)" "j_is_null J (j_null J)"
    "distinct (map fst kvs) \<Longrightarrow> j_find J (j_object J kvs) k = map_of kvs k"
  using assms unfolding json_laws_def by blast+

lemma json_laws_kinds:
  assumes "json_laws J"
  shows "j_is_object J v \<Longrightarrow> \<not> j_is_null J v" "j_is_object J v \<Longrightarrow> \<not> j_is_number J v"
    "j_is_object J v \<Longrightarrow> \<not> j_is_string J v"
    "j_is_array J v \<Longrightarrow> \<not> j_is_null J v" "j_is_array J v \<Longrightarrow> \<not> j_is_number J v"
    "j_is_array J v \<Longrightarrow> \<not> j_is_string J v"
    "j_is_number J v \<Longrightarrow> \<not> j_is_object J v" "j_is_number J v \<Longrightarrow> \<not> j_is_array J v"
    "j_is_string J v \<Longrightarrow> \<not> j_is_object J v" "j_is_string J v \<Longrightarrow> \<not> j_is_array J v"
    "j_is_null J v \<Longrightarrow> \<not> j_is_object J v" "j_is_null J v \<Longrightarrow> \<not> j_is_array J v"
    "j_is_bool J v \<Longrightarrow> \<not> j_is_object J v" "j_is_bool J v \<Longrightarrow> \<not> j_is_array J v"
  using assms unfolding json_laws_def by blast+

section \<open>Json\<close>

record 'j Json =
  m_json :: 'j

definition Json_GetNumber :: "'j json_lib \<Rightarrow> 'j Json \<Rightarrow> string \<Rightarrow> int option result" where
  "Json_GetNumber J js key =
     (case j_find J (m_json js) key of
        Some iter \<Rightarrow> if j_is_number J iter then rbind (j_get_int J iter) (\<lambda>v. Inr (Some v)) else Inr None
      | None \<Rightarrow> Inr None)"

definition Json_GetBool :: "'j json_lib \<Rightarrow> 'j Json \<Rightarrow> string \<Rightarrow> bool option result" where
  "Json_GetBool J js key =
     (case j_find J (m_json js) key of
        Some iter \<Rightarrow> if j_is_bool J iter then rbind (j_get_bool J iter) (\<lambda>v. Inr (Some v)) else Inr None
      | None \<Rightarrow> Inr None)"

definition Json_GetString :: "'j json_lib \<Rightarrow> 'j Json \<Rightarrow> string \<Rightarrow> string option result" where
  "Json_GetString J js key =
     (case j_find J (m_json js) key of
        Some iter \<Rightarrow> if j_is_string J iter then rbind (j_get_string J iter) (\<lambda>v. Inr (Some v)) else Inr None
      | None \<Rightarrow> Inr None)"

definition Json_Get_json :: "'j json_lib \<Rightarrow> 'j Json \<Rightarrow> string \<Rightarrow> 'j option" where
  "Json_Get_json J js key =
     (case j_find J (m_json js) key of
        Some iter \<Rightarrow> if j_is_object J iter \<or> j_is_array J iter then Some iter else None
      | None \<Rightarrow> None)"

definition Json_Get_Json :: "'j json_lib \<Rightarrow> 'j Json \<Rightarrow> string \<Rightarrow> 'j Json option" where
  "Json_Get_Json J js key =
     (case j_find J (m_json js) key of
        Some iter \<Rightarrow> if j_is_object J iter \<or> j_is_array J iter then Some \<lparr>m_json = iter\<rparr> else None
      | None \<Rightarrow> None)"

text \<open>\<^verbatim>\<open>get<T>\<close> of a model class goes through \<^verbatim>\<open>from_json\<close>, which calls its \<^verbatim>\<open>FromJSON\<close>.\<close>

definition from_json :: "('j Json \<Rightarrow> 'a result) \<Rightarrow> 'j \<Rightarrow> 'a result" where
  "from_json FromJSON j = FromJSON \<lparr>m_json = j\<rparr>"

definition to_json :: "('a \<Rightarrow> 'j) \<Rightarrow> 'a \<Rightarrow> 'j" where
  "to_json ToJSON v = ToJSON v"

definition Json_GetJsonable :: "'j json_lib \<Rightarrow> ('j Json \<Rightarrow> 'a result) \<Rightarrow> 'j Json \<Rightarrow> string \<Rightarrow> 'a option result" where
  "Json_GetJsonable J FromJSON js key =
     (case j_find J (m_json js) key of
        Some iter \<Rightarrow>
          if j_is_object J iter \<or> j_is_array J iter
          then rbind (from_json FromJSON iter) (\<lambda>v. Inr (Some v)) else Inr None
      | None \<Rightarrow> Inr None)"

definition Json_GetOr :: "('j Json \<Rightarrow> string \<Rightarrow> 'a option result) \<Rightarrow> 'j Json \<Rightarrow> string \<Rightarrow> 'a \<Rightarrow> 'a result" where
  "Json_GetOr getT js key defaultValue =
     rbind (getT js key) (\<lambda>v. Inr (case v of Some x \<Rightarrow> x | None \<Rightarrow> defaultValue))"

definition Json_GetRequired :: "'j json_lib \<Rightarrow> ('j \<Rightarrow> 'a result) \<Rightarrow> 'j Json \<Rightarrow> string \<Rightarrow> 'a result" where
  "Json_GetRequired J getT js key =
     (case j_find J (m_json js) key of
        Some iter \<Rightarrow> getT iter
      | None \<Rightarrow> Inl (DeserializationException (''Failed to deserialize '' @ key)))"

definition Json_Get :: "('j \<Rightarrow> 'a result) \<Rightarrow> 'j Json \<Rightarrow> 'a result" where
  "Json_Get getT js = getT (m_json js)"

definition Json_GetKeys :: "'j json_lib \<Rightarrow> 'j Json \<Rightarrow> string list" where
  "Json_GetKeys J js = j_keys J (m_json js)"

definition Json_Exists :: "'j json_lib \<Rightarrow> 'j Json \<Rightarrow> string \<Rightarrow> bool" where
  "Json_Exists J js key \<longleftrightarrow> j_find J (m_json js) key \<noteq> None"

definition Json_Format :: "'j json_lib \<Rightarrow> 'j Json \<Rightarrow> string" where
  "Json_Format J js = j_dump J (m_json js)"

text \<open>Conversions of the library between arithmetic types: \<^verbatim>\<open>static_cast\<close> to the target width.\<close>

definition j_get_word :: "'j json_lib \<Rightarrow> 'j \<Rightarrow> 'a::len word result" where
  "j_get_word J v = rbind (j_get_int J v) (\<lambda>n. Inr (of_int n))"

definition j_word :: "'j json_lib \<Rightarrow> 'a::len word \<Rightarrow> 'j" where
  "j_word J w = j_int J (uint w)"

lemma j_get_word_word: "json_laws J \<Longrightarrow> j_get_word J (j_word J w) = Inr w"
  by (simp add: j_get_word_def j_word_def json_laws_simps)

text \<open>\<^verbatim>\<open>get<std::vector<T>>\<close>: every element converted, the first failure thrown.\<close>

primrec rmapM :: "('a \<Rightarrow> 'b result) \<Rightarrow> 'a list \<Rightarrow> 'b list result" where
  "rmapM f [] = Inr []"
| "rmapM f (x # xs) = rbind (f x) (\<lambda>y. rbind (rmapM f xs) (\<lambda>ys. Inr (y # ys)))"

definition j_get_vector :: "'j json_lib \<Rightarrow> ('j \<Rightarrow> 'a result) \<Rightarrow> 'j \<Rightarrow> 'a list result" where
  "j_get_vector J get v = rbind (j_get_array J v) (rmapM get)"

definition j_vector :: "'j json_lib \<Rightarrow> ('a \<Rightarrow> 'j) \<Rightarrow> 'a list \<Rightarrow> 'j" where
  "j_vector J put xs = j_array J (map put xs)"

lemma rmapM_map: "(\<And>x. x \<in> set xs \<Longrightarrow> get (put x) = Inr x) \<Longrightarrow> rmapM get (map put xs) = Inr xs"
  by (induction xs) auto

lemma rmapM_Inr_iff: "rmapM f xs = Inr ys \<longleftrightarrow> list_all2 (\<lambda>x y. f x = Inr y) xs ys"
  by (induction xs arbitrary: ys) (auto simp: list_all2_Cons1)

lemma j_get_vector_vector:
  "json_laws J \<Longrightarrow> (\<And>x. x \<in> set xs \<Longrightarrow> get (put x) = Inr x) \<Longrightarrow>
     j_get_vector J get (j_vector J put xs) = Inr xs"
  by (simp add: j_get_vector_def j_vector_def json_laws_simps rmapM_map)

section \<open>A reference instance of the library\<close>

datatype json_value =
    JNull
  | JBool bool
  | JNumber int
  | JString string
  | JArray "json_value list"
  | JObject "(string \<times> json_value) list"

definition json_ref :: "json_value json_lib" where
  "json_ref = \<lparr>
     j_find = (\<lambda>v k. case v of JObject kvs \<Rightarrow> map_of kvs k | _ \<Rightarrow> None),
     j_is_null = (\<lambda>v. case v of JNull \<Rightarrow> True | _ \<Rightarrow> False),
     j_is_bool = (\<lambda>v. case v of JBool _ \<Rightarrow> True | _ \<Rightarrow> False),
     j_is_number = (\<lambda>v. case v of JNumber _ \<Rightarrow> True | _ \<Rightarrow> False),
     j_is_string = (\<lambda>v. case v of JString _ \<Rightarrow> True | _ \<Rightarrow> False),
     j_is_object = (\<lambda>v. case v of JObject _ \<Rightarrow> True | _ \<Rightarrow> False),
     j_is_array = (\<lambda>v. case v of JArray _ \<Rightarrow> True | _ \<Rightarrow> False),
     j_get_bool = (\<lambda>v. case v of JBool b \<Rightarrow> Inr b | _ \<Rightarrow> Inl JsonException),
     j_get_int = (\<lambda>v. case v of JNumber n \<Rightarrow> Inr n | _ \<Rightarrow> Inl JsonException),
     j_get_string = (\<lambda>v. case v of JString s \<Rightarrow> Inr s | _ \<Rightarrow> Inl JsonException),
     j_get_array = (\<lambda>v. case v of JArray xs \<Rightarrow> Inr xs | _ \<Rightarrow> Inl JsonException),
     j_keys = (\<lambda>v. case v of JObject kvs \<Rightarrow> map fst kvs | _ \<Rightarrow> []),
     j_null = JNull, j_bool = JBool, j_int = JNumber, j_string = JString,
     j_array = JArray, j_object = JObject,
     j_dump = (\<lambda>v. [])\<rparr>"

lemma json_ref_laws: "json_laws json_ref"
proof -
  have "\<not> j_is_null json_ref v \<and> \<not> j_is_number json_ref v \<and> \<not> j_is_string json_ref v \<and> \<not> j_is_bool json_ref v"
    if "j_is_object json_ref v \<or> j_is_array json_ref v" for v
    using that by (cases v) (simp_all add: json_ref_def)
  moreover have "\<not> j_is_null json_ref v \<and> \<not> j_is_string json_ref v \<and> \<not> j_is_bool json_ref v"
    if "j_is_number json_ref v" for v
    using that by (cases v) (simp_all add: json_ref_def)
  moreover have "\<not> j_is_null json_ref v \<and> \<not> j_is_bool json_ref v" if "j_is_string json_ref v" for v
    using that by (cases v) (simp_all add: json_ref_def)
  moreover have "\<not> j_is_null json_ref v" if "j_is_bool json_ref v" for v
    using that by (cases v) (simp_all add: json_ref_def)
  ultimately show ?thesis
    unfolding json_laws_def by (simp add: json_ref_def)
qed

section \<open>What the typed getters return\<close>

lemma GetRequired_object:
  "json_laws J \<Longrightarrow> distinct (map fst kvs) \<Longrightarrow>
     Json_GetRequired J getT \<lparr>m_json = j_object J kvs\<rparr> key =
       (case map_of kvs key of Some v \<Rightarrow> getT v
        | None \<Rightarrow> Inl (DeserializationException (''Failed to deserialize '' @ key)))"
  by (simp add: Json_GetRequired_def json_laws_simps)

lemma GetString_object:
  "json_laws J \<Longrightarrow> distinct (map fst kvs) \<Longrightarrow> map_of kvs key = Some (j_string J s) \<Longrightarrow>
     Json_GetString J \<lparr>m_json = j_object J kvs\<rparr> key = Inr (Some s)"
  by (simp add: Json_GetString_def json_laws_simps)

lemma GetNumber_object:
  "json_laws J \<Longrightarrow> distinct (map fst kvs) \<Longrightarrow> map_of kvs key = Some (j_int J n) \<Longrightarrow>
     Json_GetNumber J \<lparr>m_json = j_object J kvs\<rparr> key = Inr (Some n)"
  by (simp add: Json_GetNumber_def json_laws_simps)

lemma Get_json_object:
  "json_laws J \<Longrightarrow> distinct (map fst kvs) \<Longrightarrow>
     Json_Get_json J \<lparr>m_json = j_object J kvs\<rparr> key =
       (case map_of kvs key of Some v \<Rightarrow> if j_is_object J v \<or> j_is_array J v then Some v else None
        | None \<Rightarrow> None)"
  by (simp add: Json_Get_json_def json_laws_simps)

lemma Get_json_structured: "Json_Get_json J js key = Some v \<Longrightarrow> j_is_object J v \<or> j_is_array J v"
  by (auto simp: Json_Get_json_def split: option.splits if_splits)

end
