(* ===== verification/MW_Crypto_Models.thy ===== *)
theory MW_Crypto_Models
  imports MW_Serialization MW_Json "HOL-Library.Signed_Division"
begin

text \<open>
  The value classes of \<^verbatim>\<open>include/mw/core/models/crypto\<close>: \<open>BigInt\<close> (a fixed-width big-endian
  byte string with comparison, xor, and the division of the test build), and the classes wrapped
  around it or around a byte vector: \<open>Hash\<close>, \<open>BlindingFactor\<close>, \<open>SecretKey\<close>, \<open>PublicKey\<close>,
  \<open>Commitment\<close>, \<open>Signature\<close>, \<open>RangeProof\<close>, \<open>ProofMessage\<close>, \<open>ScryptParameters\<close>. Each serialized class
  is shown to satisfy the contract \<open>codec\<close> of \<^verbatim>\<open>MW_Serialization\<close>.
\<close>

section \<open>BigInt\<close>

record BigInt =
  big_bytes :: bytes

definition new_BigInt :: "nat \<Rightarrow> BigInt" where
  "new_BigInt NUM_BYTES = \<lparr>big_bytes = replicate NUM_BYTES 0\<rparr>"

definition mk_BigInt :: "bytes \<Rightarrow> BigInt" where
  "mk_BigInt bs = \<lparr>big_bytes = bs\<rparr>"

text \<open>The destructor overwrites the bytes; what it leaves in the freed buffer.\<close>

definition BigInt_destroy :: "BigInt \<Rightarrow> bytes result" where
  "BigInt_destroy a = rfold (\<lambda>i bs. vec_set bs i 0) [0..<length (big_bytes a)] (big_bytes a)"

definition ValueOf :: "nat \<Rightarrow> u8 \<Rightarrow> BigInt" where
  "ValueOf NUM_BYTES v = mk_BigInt ((replicate NUM_BYTES 0)[NUM_BYTES - 1 := v])"

definition BigInt_FromHex :: "string \<Rightarrow> BigInt" where
  "BigInt_FromHex hex = mk_BigInt (FromHex hex)"

definition BigInt_Max :: "nat \<Rightarrow> BigInt result" where
  "BigInt_Max NUM_BYTES =
     rbind (rfold (\<lambda>i bs. vec_set bs i 0xFF) [0..<NUM_BYTES] (replicate NUM_BYTES 0)) (\<lambda>bs. Inr (mk_BigInt bs))"

definition BigInt_ToHex :: "BigInt \<Rightarrow> string" where
  "BigInt_ToHex a = ToHex (big_bytes a)"

definition BigInt_at :: "BigInt \<Rightarrow> nat \<Rightarrow> u8 result" where
  "BigInt_at a x = vec_at (big_bytes a) x"

definition BigInt_xor :: "nat \<Rightarrow> BigInt \<Rightarrow> BigInt \<Rightarrow> BigInt result" where
  "BigInt_xor NUM_BYTES a rhs =
     rfold (\<lambda>i result. rbind (BigInt_at result i) (\<lambda>x. rbind (BigInt_at rhs i) (\<lambda>y.
        Inr \<lparr>big_bytes = (big_bytes result)[i := x XOR y]\<rparr>))) [0..<NUM_BYTES] a"

text \<open>
  The comparisons start with a test for the same object; \<open>same\<close> tells whether both operands are one
  object (and then \<open>a = rhs\<close>).
\<close>

primrec BigInt_less_loop :: "bytes \<Rightarrow> bytes \<Rightarrow> nat list \<Rightarrow> bool result" where
  "BigInt_less_loop a rhs [] = Inr False"
| "BigInt_less_loop a rhs (i # is) =
     rbind (vec_at a i) (\<lambda>x. rbind (vec_at rhs i) (\<lambda>y.
       if x \<noteq> y then Inr (x < y) else BigInt_less_loop a rhs is))"

definition BigInt_less :: "nat \<Rightarrow> bool \<Rightarrow> BigInt \<Rightarrow> BigInt \<Rightarrow> bool result" where
  "BigInt_less NUM_BYTES same a rhs =
     (if same then Inr False
      else BigInt_less_loop (big_bytes a) (big_bytes rhs) [0..<NUM_BYTES])"

definition BigInt_greater :: "nat \<Rightarrow> bool \<Rightarrow> BigInt \<Rightarrow> BigInt \<Rightarrow> bool result" where
  "BigInt_greater NUM_BYTES same a rhs = BigInt_less NUM_BYTES same rhs a"

definition BigInt_eq :: "bool \<Rightarrow> BigInt \<Rightarrow> BigInt \<Rightarrow> bool" where
  "BigInt_eq same a rhs \<longleftrightarrow> same \<or> big_bytes a = big_bytes rhs"

definition BigInt_neq :: "bool \<Rightarrow> BigInt \<Rightarrow> BigInt \<Rightarrow> bool" where
  "BigInt_neq same a rhs \<longleftrightarrow> \<not> BigInt_eq same a rhs"

definition BigInt_le :: "nat \<Rightarrow> bool \<Rightarrow> BigInt \<Rightarrow> BigInt \<Rightarrow> bool result" where
  "BigInt_le NUM_BYTES same a rhs =
     rbind (BigInt_less NUM_BYTES same a rhs) (\<lambda>lt. Inr (lt \<or> BigInt_eq same a rhs))"

definition BigInt_ge :: "nat \<Rightarrow> bool \<Rightarrow> BigInt \<Rightarrow> BigInt \<Rightarrow> bool result" where
  "BigInt_ge NUM_BYTES same a rhs =
     rbind (BigInt_greater NUM_BYTES same a rhs) (\<lambda>gt. Inr (gt \<or> BigInt_eq same a rhs))"

definition BigInt_Serialize :: "BigInt \<Rightarrow> Serializer \<Rightarrow> Serializer" where
  "BigInt_Serialize a serializer = AppendVec (big_bytes a) serializer"

definition BigInt_Deserialize :: "nat \<Rightarrow> BigInt reader" where
  "BigInt_Deserialize NUM_BYTES = dbind (ReadVector (of_nat NUM_BYTES)) (\<lambda>v. dreturn (mk_BigInt v))"

text \<open>Schoolbook division by an \<^verbatim>\<open>int\<close>, with the overflow checks of the C++ type.\<close>

definition BigInt_div_step :: "bytes \<Rightarrow> int \<Rightarrow> nat \<Rightarrow> bytes \<times> int \<Rightarrow> (bytes \<times> int) result" where
  "BigInt_div_step bs divisor i st =
     (let (quotient, remainder) = st in
      rbind (vec_at bs i) (\<lambda>b.
      rbind (c_int (remainder * 256)) (\<lambda>r256.
      rbind (c_int (r256 + uint b)) (\<lambda>remainder.
      if divisor = 0 then Inl UndefinedBehaviour
      else rbind (c_int (remainder sdiv divisor)) (\<lambda>q.
        let q8 = of_int q :: u8 in
        rbind (vec_set quotient i q8) (\<lambda>quotient.
        rbind (c_int (uint q8 * divisor)) (\<lambda>p.
        rbind (c_int (remainder - p)) (\<lambda>remainder. Inr (quotient, remainder)))))))))"

definition BigInt_div :: "nat \<Rightarrow> BigInt \<Rightarrow> int \<Rightarrow> BigInt result" where
  "BigInt_div NUM_BYTES a divisor =
     rbind (rfold (BigInt_div_step (big_bytes a) divisor) [0..<NUM_BYTES] (replicate NUM_BYTES 0, 0))
       (\<lambda>(quotient, remainder). Inr (mk_BigInt quotient))"

subsection \<open>The number a BigInt denotes\<close>

primrec big_val :: "bytes \<Rightarrow> nat" where
  "big_val [] = 0"
| "big_val (b # bs) = unat b * 256 ^ length bs + big_val bs"

lemma unat_u8_lt [simp]: "unat (b :: u8) < 256"
  using unsigned_less [of b, where ?'a = nat] by simp

lemma big_val_less: "big_val bs < 256 ^ length bs"
proof (induction bs)
  case (Cons b bs)
  have "unat b * 256 ^ length bs + big_val bs < Suc (unat b) * 256 ^ length bs" using Cons by simp
  also have "\<dots> \<le> 256 * 256 ^ length bs"
    using unat_u8_lt [of b] by (intro mult_le_mono1) linarith
  finally show ?case by simp
qed simp

lemma big_val_snoc: "big_val (bs @ [b]) = big_val bs * 256 + unat b"
  by (induction bs) (simp_all add: algebra_simps)

lemma big_val_Cons_less:
  assumes "length xs = length ys"
  shows "big_val (x # xs) < big_val (y # ys) \<longleftrightarrow> x < y \<or> x = y \<and> big_val xs < big_val ys"
proof -
  let ?p = "256 ^ length ys :: nat"
  have b: "big_val xs < ?p" "big_val ys < ?p" using big_val_less [of xs] big_val_less [of ys] assms by simp_all
  have step: "u * ?p + r < v * ?p + s" if "u < v" "r < ?p" for u v r s :: nat
  proof -
    have "Suc u * ?p \<le> v * ?p" using that(1) by (intro mult_le_mono1) simp
    then show ?thesis using that(2) by simp
  qed
  consider "x < y" | "x = y" | "y < x" by force
  then show ?thesis
  proof cases
    case 1
    then show ?thesis using step [of "unat x" "unat y" "big_val xs" "big_val ys"] b assms
      by (simp add: word_less_nat_alt)
  next
    case 2
    then show ?thesis using assms by simp
  next
    case 3
    then show ?thesis using step [of "unat y" "unat x" "big_val ys" "big_val xs"] b assms
      by (auto simp: word_less_nat_alt)
  qed
qed

lemma big_val_inject: "length xs = length ys \<Longrightarrow> big_val xs = big_val ys \<longleftrightarrow> xs = ys"
proof (induction xs ys rule: list_induct2)
  case (Cons x xs y ys)
  have "x = y \<and> xs = ys" if "big_val (x # xs) = big_val (y # ys)"
    using that big_val_Cons_less [OF Cons.hyps, of x y]
      big_val_Cons_less [OF Cons.hyps [symmetric], of y x] Cons.IH
    by (metis less_irrefl linorder_neqE)
  then show ?case by auto
qed simp

lemma BigInt_less_loop_drop:
  assumes "length a = n" "length b = n" "k \<le> n"
  shows "BigInt_less_loop a b [k..<n] = Inr (big_val (drop k a) < big_val (drop k b))"
  using assms(3)
proof (induction rule: inc_induct)
  case base
  then show ?case using assms by simp
next
  case (step k)
  have "drop k a = a ! k # drop (Suc k) a" "drop k b = b ! k # drop (Suc k) b"
    using step assms by (simp_all add: Cons_nth_drop_Suc)
  moreover have "[k..<n] = k # [Suc k..<n]" using step by (simp add: upt_conv_Cons)
  ultimately show ?case
    using step assms big_val_Cons_less [of "drop (Suc k) a" "drop (Suc k) b" "a ! k" "b ! k"] by simp
qed

text \<open>
  C36. On BigInts of the declared width the comparison operators never read out of range, and they
  are the comparisons of the big-endian numbers the byte strings denote.
\<close>

theorem BigInt_order:
  assumes "length (big_bytes a) = n" "length (big_bytes b) = n" "same \<Longrightarrow> a = b"
  shows "BigInt_less n same a b = Inr (big_val (big_bytes a) < big_val (big_bytes b)) \<and>
    BigInt_greater n same a b = Inr (big_val (big_bytes a) > big_val (big_bytes b)) \<and>
    BigInt_le n same a b = Inr (big_val (big_bytes a) \<le> big_val (big_bytes b)) \<and>
    BigInt_ge n same a b = Inr (big_val (big_bytes a) \<ge> big_val (big_bytes b)) \<and>
    (BigInt_eq same a b \<longleftrightarrow> big_val (big_bytes a) = big_val (big_bytes b)) \<and>
    (BigInt_neq same a b \<longleftrightarrow> big_val (big_bytes a) \<noteq> big_val (big_bytes b))"
proof (intro conjI)
  show less: "BigInt_less n same a b = Inr (big_val (big_bytes a) < big_val (big_bytes b))"
    using assms BigInt_less_loop_drop [of "big_bytes a" n "big_bytes b" 0] by (auto simp: BigInt_less_def)
  show greater: "BigInt_greater n same a b = Inr (big_val (big_bytes a) > big_val (big_bytes b))"
    using assms BigInt_less_loop_drop [of "big_bytes b" n "big_bytes a" 0]
    by (auto simp: BigInt_less_def BigInt_greater_def)
  show eq: "BigInt_eq same a b \<longleftrightarrow> big_val (big_bytes a) = big_val (big_bytes b)"
    using assms by (auto simp: BigInt_eq_def big_val_inject)
  show "BigInt_neq same a b \<longleftrightarrow> big_val (big_bytes a) \<noteq> big_val (big_bytes b)"
    by (simp add: BigInt_neq_def eq)
  show "BigInt_le n same a b = Inr (big_val (big_bytes a) \<le> big_val (big_bytes b))"
    by (auto simp: BigInt_le_def less eq)
  show "BigInt_ge n same a b = Inr (big_val (big_bytes a) \<ge> big_val (big_bytes b))"
    by (auto simp: BigInt_ge_def greater eq)
qed

theorem BigInt_order_witness:
  "BigInt_less 2 False (mk_BigInt [1, 0]) (mk_BigInt [0, 255]) = Inr False \<and>
   BigInt_ge 2 False (mk_BigInt [1, 0]) (mk_BigInt [0, 255]) = Inr True"
proof -
  have h: "length (big_bytes (mk_BigInt [1, 0])) = 2" "length (big_bytes (mk_BigInt [0, 255])) = 2"
    by (simp_all add: mk_BigInt_def)
  have v: "big_val (big_bytes (mk_BigInt [1, 0])) = 256" "big_val (big_bytes (mk_BigInt [0, 255])) = 255"
    by (simp_all add: mk_BigInt_def)
  show ?thesis
    using BigInt_order [OF h, of False] unfolding v by simp
qed

subsection \<open>Division\<close>

lemma c_int_in: "- 2147483648 \<le> v \<Longrightarrow> v < 2147483648 \<Longrightarrow> c_int v = Inr v"
  by (simp add: c_int_def)

lemma div_less_quotient:
  fixes m d k :: int
  assumes "0 < d" "m < k * d"
  shows "m div d < k"
proof (rule ccontr)
  assume "\<not> m div d < k"
  then have "k * d \<le> m div d * d" using assms(1) by (intro mult_right_mono) simp_all
  also have "\<dots> \<le> m" using pos_mod_sign [OF assms(1), of m] div_mult_mod_eq [of m d] by linarith
  finally show False using assms(2) by simp
qed

lemma div_carry:
  fixes v d b :: int
  shows "v * 256 + b = d * (v div d * 256) + (v mod d * 256 + b)"
proof -
  have "v * 256 = (d * (v div d) + v mod d) * 256" by simp
  also have "\<dots> = d * (v div d * 256) + v mod d * 256" by (simp only: distrib_right mult.assoc)
  finally show ?thesis by simp
qed

lemma BigInt_div_step_ok:
  assumes "i < length bs" "i < length q" "0 < d" "d \<le> 8388608" "0 \<le> r" "r < d"
  shows "BigInt_div_step bs d i (q, r) =
    Inr (q[i := of_int ((r * 256 + uint (bs ! i)) div d)], (r * 256 + uint (bs ! i)) mod d)"
proof -
  let ?n = "r * 256 + uint (bs ! i)"
  have u: "0 \<le> uint (bs ! i)" "uint (bs ! i) < 256" using uint_lt2p [of "bs ! i"] by simp_all
  have r256: "c_int (r * 256) = Inr (r * 256)" using assms(4-6) by (intro c_int_in) linarith+
  have n: "c_int ?n = Inr ?n" using assms(4-6) u by (intro c_int_in) linarith+
  have n0: "0 \<le> ?n" using assms(5) u by simp
  have "?n < 256 * d" using assms(6) u by linarith
  then have q: "0 \<le> ?n div d" "?n div d < 256"
    using assms(3) n0 div_less_quotient [of d ?n 256] by (simp_all add: pos_imp_zdiv_nonneg_iff)
  have qd: "?n div d * d \<le> ?n"
    using pos_mod_sign [OF assms(3), of ?n] div_mult_mod_eq [of ?n d] by linarith
  have nb: "?n < 2147483648" using assms(4-6) u by linarith
  have sd: "?n sdiv d = ?n div d" using n0 assms(3) by (simp add: signed_divide_int_def sgn_if)
  have q8: "uint (of_int (?n div d) :: u8) = ?n div d"
    using q by (simp add: uint_word_of_int take_bit_int_eq_self)
  have cq: "c_int (?n div d) = Inr (?n div d)" using q by (intro c_int_in) linarith+
  have cm: "c_int (?n div d * d) = Inr (?n div d * d)"
    using q qd nb mult_nonneg_nonneg [OF q(1), of d] assms(3) by (intro c_int_in) linarith+
  have m: "?n - ?n div d * d = ?n mod d" by (simp add: minus_div_mult_eq_mod)
  have cr: "c_int (?n mod d) = Inr (?n mod d)"
    using pos_mod_bound [of d ?n] pos_mod_sign [of d ?n] assms(3,4) by (intro c_int_in) linarith+
  show ?thesis
    using assms(1-3) by (simp add: BigInt_div_step_def r256 n sd cq q8 cm m cr Let_def)
qed

lemma BigInt_div_loop:
  assumes "length bs = n" "0 < d" "d \<le> 2 ^ 23" "k \<le> n"
  shows "\<exists>q. rfold (BigInt_div_step bs d) [0..<k] (replicate n 0, 0) =
      Inr (q @ replicate (n - k) 0, int (big_val (take k bs)) mod d) \<and>
    length q = k \<and> int (big_val q) = int (big_val (take k bs)) div d"
  using assms(4)
proof (induction k)
  case (Suc k)
  then obtain q where q: "rfold (BigInt_div_step bs d) [0..<k] (replicate n 0, 0) =
      Inr (q @ replicate (n - k) 0, int (big_val (take k bs)) mod d)"
    "length q = k" "int (big_val q) = int (big_val (take k bs)) div d" by auto
  let ?v = "int (big_val (take k bs))" and ?b = "uint (bs ! k)"
  let ?m = "?v mod d * 256 + ?b"
  have m0: "0 \<le> ?m" "?m < 256 * d"
  proof -
    have "?b < 256" using uint_lt2p [of "bs ! k"] by simp
    then show "?m < 256 * d" using pos_mod_bound [OF assms(2), of ?v] by linarith
    show "0 \<le> ?m" using pos_mod_sign [OF assms(2), of ?v] by simp
  qed
  have b8: "unat (of_int (?m div d) :: u8) = nat (?m div d)"
  proof -
    have "?m div d < 256" "0 \<le> ?m div d" using m0 assms(2)
        div_less_quotient [of d ?m 256] by (simp_all add: pos_imp_zdiv_nonneg_iff)
    then show ?thesis by (simp add: unat_eq_nat_uint uint_word_of_int take_bit_int_eq_self)
  qed
  have step: "BigInt_div_step bs d k (q @ replicate (n - k) 0, ?v mod d) =
      Inr ((q @ replicate (n - k) 0)[k := of_int (?m div d)], ?m mod d)"
    using Suc.prems assms q(2) pos_mod_bound [OF assms(2), of ?v] pos_mod_sign [OF assms(2), of ?v]
    by (intro BigInt_div_step_ok) simp_all
  have "n - k = Suc (n - Suc k)" using Suc.prems by simp
  then have upd: "(q @ replicate (n - k) 0)[k := of_int (?m div d)] =
      (q @ [of_int (?m div d)]) @ replicate (n - Suc k) (0 :: u8)"
    using q(2) by (simp add: list_update_append)
  have tk: "take (Suc k) bs = take k bs @ [bs ! k]" using Suc.prems assms(1) by (simp add: take_Suc_conv_app_nth)
  have val: "int (big_val (take (Suc k) bs)) = ?v * 256 + ?b"
    by (simp add: tk big_val_snoc)
  have split: "?v * 256 + ?b = d * (?v div d * 256) + ?m"  by (rule div_carry)
  have "int (big_val (q @ [of_int (?m div d)])) = ?v div d * 256 + ?m div d"
    using q(3) b8 m0 assms(2) by (simp add: big_val_snoc pos_imp_zdiv_nonneg_iff)
  also have "\<dots> = int (big_val (take (Suc k) bs)) div d"
    unfolding val split using assms(2) by simp
  finally have div: "int (big_val (q @ [of_int (?m div d)])) = int (big_val (take (Suc k) bs)) div d" .
  have "?m mod d = int (big_val (take (Suc k) bs)) mod d" unfolding val split by simp
  then have "rfold (BigInt_div_step bs d) [0..<Suc k] (replicate n 0, 0) =
      Inr ((q @ [of_int (?m div d)]) @ replicate (n - Suc k) 0, int (big_val (take (Suc k) bs)) mod d)"
    unfolding rfold_upt_Suc q(1) rbind_simps step upd by simp
  then show ?case using div q(2) by (intro exI [of _ "q @ [of_int (?m div d)]"]) simp
qed simp

text \<open>
  C37. Division of a BigInt by a positive \<^verbatim>\<open>int\<close> of at most 8388608 never overflows and returns the
  BigInt of the same width that denotes the integer quotient.
\<close>

theorem BigInt_div_correct:
  assumes "length (big_bytes a) = n" "0 < d" "d \<le> 2 ^ 23"
  shows "\<exists>q. BigInt_div n a d = Inr q \<and> length (big_bytes q) = n \<and>
     int (big_val (big_bytes q)) = int (big_val (big_bytes a)) div d"
  using BigInt_div_loop [of "big_bytes a" n d n] assms
  by (auto simp: BigInt_div_def mk_BigInt_def)

theorem BigInt_div_correct_witness:
  "\<exists>q. BigInt_div 2 (mk_BigInt [1, 4]) 3 = Inr q \<and> length (big_bytes q) = 2 \<and>
     int (big_val (big_bytes q)) = 86"
proof -
  have h: "length (big_bytes (mk_BigInt [1, 4])) = 2" "(0 :: int) < 3" "(3 :: int) \<le> 2 ^ 23"
    by (simp_all add: mk_BigInt_def)
  have "int (big_val (big_bytes (mk_BigInt [1, 4]))) div 3 = 86" by (simp add: mk_BigInt_def)
  then show ?thesis using BigInt_div_correct [OF h] by simp
qed

section \<open>Hash\<close>

type_synonym Hash = BigInt

definition HASH_ZERO :: Hash where
  "HASH_ZERO = ValueOf 32 0"

definition hash_of_bytes :: "bytes \<Rightarrow> u64 result" where
  "hash_of_bytes bs =
     rbind (rmapM (vec_at bs) [0, 4, 8, 12, 16, 20, 24, 28]) (\<lambda>h.
       Inr (ConvertToU64 (h ! 0) (h ! 1) (h ! 2) (h ! 3) (h ! 4) (h ! 5) (h ! 6) (h ! 7)))"

definition Hash_hash :: "Hash \<Rightarrow> u64 result" where
  "Hash_hash h = hash_of_bytes (big_bytes h)"

section \<open>SecretKey, BlindingFactor, PublicKey\<close>

record secret_key_t =
  sk_value :: BigInt

type_synonym SecretKey = secret_key_t

definition mk_secret_key :: "BigInt \<Rightarrow> secret_key_t" where
  "mk_secret_key v = \<lparr>sk_value = v\<rparr>"

text \<open>From a \<^verbatim>\<open>SecureVector\<close>: \<^verbatim>\<open>NUM_BYTES\<close> bytes are copied from its buffer, whatever its size.\<close>

definition secret_key_of_SecureVector :: "nat \<Rightarrow> bytes \<Rightarrow> secret_key_t result" where
  "secret_key_of_SecureVector NUM_BYTES v =
     (if NUM_BYTES \<le> length v then Inr (mk_secret_key (mk_BigInt (take NUM_BYTES v)))
      else Inl UndefinedBehaviour)"

definition secret_key_Serialize :: "secret_key_t \<Rightarrow> Serializer \<Rightarrow> Serializer" where
  "secret_key_Serialize k = BigInt_Serialize (sk_value k)"

definition secret_key_Deserialize :: "nat \<Rightarrow> secret_key_t reader" where
  "secret_key_Deserialize NUM_BYTES = dbind (BigInt_Deserialize NUM_BYTES) (\<lambda>v. dreturn (mk_secret_key v))"

record BlindingFactor =
  bf_value :: BigInt

definition mk_BlindingFactor :: "BigInt \<Rightarrow> BlindingFactor" where
  "mk_BlindingFactor v = \<lparr>bf_value = v\<rparr>"

definition BlindingFactor_less :: "bool \<Rightarrow> BlindingFactor \<Rightarrow> BlindingFactor \<Rightarrow> bool result" where
  "BlindingFactor_less same a rhs = BigInt_less 32 same (bf_value a) (bf_value rhs)"

definition BlindingFactor_eq :: "bool \<Rightarrow> BlindingFactor \<Rightarrow> BlindingFactor \<Rightarrow> bool" where
  "BlindingFactor_eq same a rhs = BigInt_eq same (bf_value a) (bf_value rhs)"

definition BlindingFactor_Serialize :: "BlindingFactor \<Rightarrow> Serializer \<Rightarrow> Serializer" where
  "BlindingFactor_Serialize b = BigInt_Serialize (bf_value b)"

definition BlindingFactor_Deserialize :: "BlindingFactor reader" where
  "BlindingFactor_Deserialize = dbind (BigInt_Deserialize 32) (\<lambda>v. dreturn (mk_BlindingFactor v))"

definition BlindingFactor_ToHex :: "BlindingFactor \<Rightarrow> string" where
  "BlindingFactor_ToHex b = BigInt_ToHex (bf_value b)"

definition BlindingFactor_FromHex :: "string \<Rightarrow> BlindingFactor" where
  "BlindingFactor_FromHex hex = mk_BlindingFactor (BigInt_FromHex hex)"

text \<open>\<^verbatim>\<open>ToSecretKey\<close> moves the value out; the moved-from vector is empty.\<close>

definition ToSecretKey :: "BlindingFactor \<Rightarrow> SecretKey \<times> BlindingFactor" where
  "ToSecretKey b = (mk_secret_key (bf_value b), mk_BlindingFactor (mk_BigInt []))"

record PublicKey =
  m_compressed :: BigInt

definition mk_PublicKey :: "BigInt \<Rightarrow> PublicKey" where
  "mk_PublicKey v = \<lparr>m_compressed = v\<rparr>"

definition PublicKey_Serialize :: "PublicKey \<Rightarrow> Serializer \<Rightarrow> Serializer" where
  "PublicKey_Serialize k = BigInt_Serialize (m_compressed k)"

definition PublicKey_Deserialize :: "PublicKey reader" where
  "PublicKey_Deserialize = dbind (BigInt_Deserialize 33) (\<lambda>v. dreturn (mk_PublicKey v))"

section \<open>Commitment, Signature, RangeProof\<close>

record Commitment =
  commit_bytes :: BigInt

definition mk_Commitment :: "BigInt \<Rightarrow> Commitment" where
  "mk_Commitment v = \<lparr>commit_bytes = v\<rparr>"

definition Commitment_less :: "bool \<Rightarrow> Commitment \<Rightarrow> Commitment \<Rightarrow> bool result" where
  "Commitment_less same a rhs = BigInt_less 33 same (commit_bytes a) (commit_bytes rhs)"

definition Commitment_eq :: "bool \<Rightarrow> Commitment \<Rightarrow> Commitment \<Rightarrow> bool" where
  "Commitment_eq same a rhs = BigInt_eq same (commit_bytes a) (commit_bytes rhs)"

definition Commitment_Serialize :: "Commitment \<Rightarrow> Serializer \<Rightarrow> Serializer" where
  "Commitment_Serialize c = BigInt_Serialize (commit_bytes c)"

definition Commitment_Deserialize :: "Commitment reader" where
  "Commitment_Deserialize = dbind (BigInt_Deserialize 33) (\<lambda>v. dreturn (mk_Commitment v))"

definition Commitment_ToHex :: "Commitment \<Rightarrow> string" where
  "Commitment_ToHex c = BigInt_ToHex (commit_bytes c)"

definition Commitment_FromHex :: "string \<Rightarrow> Commitment" where
  "Commitment_FromHex hex = mk_Commitment (BigInt_FromHex hex)"

definition Commitment_ToJSON :: "'j json_lib \<Rightarrow> Commitment \<Rightarrow> 'j" where
  "Commitment_ToJSON J c = j_string J (BigInt_ToHex (commit_bytes c))"

definition Commitment_FromJSON :: "'j json_lib \<Rightarrow> 'j Json \<Rightarrow> Commitment result" where
  "Commitment_FromJSON J js = rbind (Json_Get (j_get_string J) js) (\<lambda>s. Inr (Commitment_FromHex s))"

definition Commitment_hash :: "Commitment \<Rightarrow> u64 result" where
  "Commitment_hash c = hash_of_bytes (big_bytes (commit_bytes c))"

record Signature =
  sig_bytes :: BigInt

type_synonym CompactSignature = Signature

definition mk_Signature :: "BigInt \<Rightarrow> Signature" where
  "mk_Signature v = \<lparr>sig_bytes = v\<rparr>"

definition Signature_less :: "bool \<Rightarrow> Signature \<Rightarrow> Signature \<Rightarrow> bool result" where
  "Signature_less same a rhs = BigInt_less 64 same (sig_bytes a) (sig_bytes rhs)"

definition Signature_eq :: "bool \<Rightarrow> Signature \<Rightarrow> Signature \<Rightarrow> bool" where
  "Signature_eq same a rhs = BigInt_eq same (sig_bytes a) (sig_bytes rhs)"

definition Signature_Serialize :: "Signature \<Rightarrow> Serializer \<Rightarrow> Serializer" where
  "Signature_Serialize s = BigInt_Serialize (sig_bytes s)"

definition Signature_Deserialize :: "Signature reader" where
  "Signature_Deserialize = dbind (BigInt_Deserialize 64) (\<lambda>v. dreturn (mk_Signature v))"

definition Signature_FromHex :: "string \<Rightarrow> Signature" where
  "Signature_FromHex hex = mk_Signature (BigInt_FromHex hex)"

definition Signature_ToJSON :: "'j json_lib \<Rightarrow> Signature \<Rightarrow> 'j" where
  "Signature_ToJSON J s = j_string J (BigInt_ToHex (sig_bytes s))"

definition Signature_FromJSON :: "'j json_lib \<Rightarrow> 'j Json \<Rightarrow> Signature result" where
  "Signature_FromJSON J js = rbind (Json_Get (j_get_string J) js) (\<lambda>s. Inr (Signature_FromHex s))"

record RangeProof =
  proof_bytes :: bytes

definition MAX_SIZE :: u64 where
  "MAX_SIZE = 675"

definition mk_RangeProof :: "bytes \<Rightarrow> RangeProof" where
  "mk_RangeProof bs = \<lparr>proof_bytes = bs\<rparr>"

definition RangeProof_Serialize :: "bool \<Rightarrow> RangeProof \<Rightarrow> Serializer \<Rightarrow> Serializer" where
  "RangeProof_Serialize be p s =
     AppendVec (proof_bytes p) (Append be (of_nat (length (proof_bytes p)) :: u64) s)"

definition RangeProof_Deserialize :: "bool \<Rightarrow> RangeProof reader" where
  "RangeProof_Deserialize be =
     dbind (Read be) (\<lambda>proofSize :: u64.
       if proofSize > MAX_SIZE then dthrow (DeserializationException ''RangeProof is larger than MAX_SIZE'')
       else dbind (ReadVector proofSize) (\<lambda>v. dreturn (mk_RangeProof v)))"

definition RangeProof_ToHex :: "RangeProof \<Rightarrow> string" where
  "RangeProof_ToHex p = ToHex (proof_bytes p)"

definition RangeProof_FromHex :: "string \<Rightarrow> RangeProof" where
  "RangeProof_FromHex hex = mk_RangeProof (FromHex hex)"

definition RangeProof_ToJSON :: "'j json_lib \<Rightarrow> RangeProof \<Rightarrow> 'j" where
  "RangeProof_ToJSON J p = j_string J (RangeProof_ToHex p)"

definition RangeProof_FromJSON :: "'j json_lib \<Rightarrow> 'j Json \<Rightarrow> RangeProof result" where
  "RangeProof_FromJSON J js = rbind (Json_Get (j_get_string J) js) (\<lambda>s. Inr (RangeProof_FromHex s))"

section \<open>ScryptParameters\<close>

record ScryptParameters =
  scrypt_N :: u32
  scrypt_r :: u32
  scrypt_p :: u32

definition ScryptParameters_ToJSON :: "'j json_lib \<Rightarrow> ScryptParameters \<Rightarrow> 'j" where
  "ScryptParameters_ToJSON J s =
     j_object J [(''N'', j_word J (scrypt_N s)), (''r'', j_word J (scrypt_r s)), (''p'', j_word J (scrypt_p s))]"

definition ScryptParameters_FromJSON :: "'j json_lib \<Rightarrow> 'j Json \<Rightarrow> ScryptParameters result" where
  "ScryptParameters_FromJSON J js =
     rbind (Json_GetRequired J (j_get_word J) js ''N'') (\<lambda>n.
     rbind (Json_GetRequired J (j_get_word J) js ''r'') (\<lambda>r.
     rbind (Json_GetRequired J (j_get_word J) js ''p'') (\<lambda>p.
       Inr \<lparr>scrypt_N = n, scrypt_r = r, scrypt_p = p\<rparr>)))"

section \<open>The classes satisfy the codec contract\<close>

lemma codec_wrap:
  assumes "codec ser des enc valid" "\<And>y. mk (un y) = y"
  shows "codec (\<lambda>y. ser (un y)) (dbind des (\<lambda>x. dreturn (mk x))) (\<lambda>y. enc (un y)) (\<lambda>y. valid (un y))"
proof -
  note c = assms(1) [unfolded codec_def]
  show ?thesis
    unfolding codec_def using c assms(2)
    by (auto intro!: decodes_bind_return reader_safe_bind)
qed

lemma BigInt_codec_sized:
  assumes "n < 2 ^ 63"
  shows "codec BigInt_Serialize (BigInt_Deserialize n) big_bytes (\<lambda>a. length (big_bytes a) = n)"
proof
  have u: "unat (of_nat n :: u64) = n" using assms by (intro unat_of_nat_u64) simp
  show "appends (BigInt_Serialize a) (big_bytes a)" for a
    unfolding BigInt_Serialize_def by simp
  show "decodes (BigInt_Deserialize n) a (big_bytes a)" if "length (big_bytes a) = n" for a
    unfolding BigInt_Deserialize_def using that u
    by (intro decodes_bind_return [OF decodes_ReadVector]) (cases a; simp add: mk_BigInt_def)+
  show "reader_safe (BigInt_Deserialize n)"
    unfolding BigInt_Deserialize_def using assms u
    by (intro reader_safe_bind reader_safe_ReadVector) simp_all
qed

interpretation Hash_codec: codec BigInt_Serialize "BigInt_Deserialize 32" big_bytes "\<lambda>a. length (big_bytes a) = 32"
  by (rule BigInt_codec_sized) simp

definition SecretKey_wf :: "SecretKey \<Rightarrow> bool" where
  "SecretKey_wf k \<longleftrightarrow> length (big_bytes (sk_value k)) = 32"

definition BlindingFactor_wf :: "BlindingFactor \<Rightarrow> bool" where
  "BlindingFactor_wf k \<longleftrightarrow> length (big_bytes (bf_value k)) = 32"

definition PublicKey_wf :: "PublicKey \<Rightarrow> bool" where
  "PublicKey_wf k \<longleftrightarrow> length (big_bytes (m_compressed k)) = 33"

definition Commitment_wf :: "Commitment \<Rightarrow> bool" where
  "Commitment_wf c \<longleftrightarrow> length (big_bytes (commit_bytes c)) = 33"

definition Signature_wf :: "Signature \<Rightarrow> bool" where
  "Signature_wf s \<longleftrightarrow> length (big_bytes (sig_bytes s)) = 64"

definition RangeProof_wf :: "RangeProof \<Rightarrow> bool" where
  "RangeProof_wf p \<longleftrightarrow> length (proof_bytes p) \<le> 675"

abbreviation Commitment_enc :: "Commitment \<Rightarrow> bytes" where
  "Commitment_enc c \<equiv> big_bytes (commit_bytes c)"

abbreviation Signature_enc :: "Signature \<Rightarrow> bytes" where
  "Signature_enc s \<equiv> big_bytes (sig_bytes s)"

abbreviation BlindingFactor_enc :: "BlindingFactor \<Rightarrow> bytes" where
  "BlindingFactor_enc b \<equiv> big_bytes (bf_value b)"

abbreviation RangeProof_enc :: "RangeProof \<Rightarrow> bytes" where
  "RangeProof_enc p \<equiv> be_bytes (of_nat (length (proof_bytes p)) :: u64) @ proof_bytes p"

interpretation SecretKey_codec: codec secret_key_Serialize "secret_key_Deserialize 32"
  "\<lambda>k. big_bytes (sk_value k)" SecretKey_wf
  using codec_wrap [OF BigInt_codec_sized [of 32], of mk_secret_key sk_value]
  by (simp add: secret_key_Serialize_def [abs_def] secret_key_Deserialize_def mk_secret_key_def SecretKey_wf_def [abs_def])

interpretation BlindingFactor_codec: codec BlindingFactor_Serialize BlindingFactor_Deserialize
  BlindingFactor_enc BlindingFactor_wf
  using codec_wrap [OF BigInt_codec_sized [of 32], of mk_BlindingFactor bf_value]
  by (simp add: BlindingFactor_Serialize_def [abs_def] BlindingFactor_Deserialize_def mk_BlindingFactor_def BlindingFactor_wf_def [abs_def])

interpretation PublicKey_codec: codec PublicKey_Serialize PublicKey_Deserialize
  "\<lambda>k. big_bytes (m_compressed k)" PublicKey_wf
  using codec_wrap [OF BigInt_codec_sized [of 33], of mk_PublicKey m_compressed]
  by (simp add: PublicKey_Serialize_def [abs_def] PublicKey_Deserialize_def mk_PublicKey_def PublicKey_wf_def [abs_def])

interpretation Commitment_codec: codec Commitment_Serialize Commitment_Deserialize Commitment_enc Commitment_wf
  using codec_wrap [OF BigInt_codec_sized [of 33], of mk_Commitment commit_bytes]
  by (simp add: Commitment_Serialize_def [abs_def] Commitment_Deserialize_def mk_Commitment_def Commitment_wf_def [abs_def])

interpretation Signature_codec: codec Signature_Serialize Signature_Deserialize Signature_enc Signature_wf
  using codec_wrap [OF BigInt_codec_sized [of 64], of mk_Signature sig_bytes]
  by (simp add: Signature_Serialize_def [abs_def] Signature_Deserialize_def mk_Signature_def Signature_wf_def [abs_def])

interpretation RangeProof_codec: codec "RangeProof_Serialize be" "RangeProof_Deserialize be"
  RangeProof_enc RangeProof_wf for be
proof
  fix p
  show "appends (RangeProof_Serialize be p) (RangeProof_enc p)"
    unfolding RangeProof_Serialize_def [abs_def] by (intro appends_comp appends_simps)
  let ?n = "of_nat (length (proof_bytes p)) :: u64"
  show "decodes (RangeProof_Deserialize be) p (RangeProof_enc p)" if wf: "RangeProof_wf p"
    unfolding RangeProof_Deserialize_def
  proof (rule decodes_bind)
    show "decodes (Read be) ?n (be_bytes ?n)" by auto
    have u: "unat ?n = length (proof_bytes p)" using wf by (intro unat_of_nat_u64) (simp add: RangeProof_wf_def)
    then have "\<not> ?n > MAX_SIZE" using wf by (simp add: MAX_SIZE_def word_less_nat_alt RangeProof_wf_def)
    moreover have "decodes (dbind (ReadVector ?n) (\<lambda>v. dreturn (mk_RangeProof v))) p (proof_bytes p)"
      by (rule decodes_bind_return [OF decodes_ReadVector [OF u]]) (cases p, simp add: mk_RangeProof_def)
    ultimately show "decodes (if ?n > MAX_SIZE
        then dthrow (DeserializationException ''RangeProof is larger than MAX_SIZE'')
        else dbind (ReadVector ?n) (\<lambda>v. dreturn (mk_RangeProof v))) p (proof_bytes p)" by simp
  qed
next
  have "unat n < 2 ^ 63" if "\<not> n > MAX_SIZE" for n :: u64
    using that by (simp add: MAX_SIZE_def word_less_nat_alt)
  then show "reader_safe (RangeProof_Deserialize be)"
    unfolding RangeProof_Deserialize_def
    by (intro reader_safe_bind reader_safe_if reader_safe_ReadVector reader_safe_Read reader_safe_throw reader_safe_return) auto
qed

lemma wf_lengths:
  "BlindingFactor_wf b \<Longrightarrow> length (BlindingFactor_enc b) = 32"
  "Commitment_wf c \<Longrightarrow> length (Commitment_enc c) = 33"
  "Signature_wf s \<Longrightarrow> length (Signature_enc s) = 64"
  "RangeProof_wf p \<Longrightarrow> length (RangeProof_enc p) \<le> 683"
  by (simp_all add: BlindingFactor_wf_def Commitment_wf_def Signature_wf_def RangeProof_wf_def)

section \<open>Properties of the models\<close>



lemma ReadVector_length: "ReadVector n d = Inr (v, d') \<Longrightarrow> length v \<le> unat n"
proof -
  assume r: "ReadVector n d = Inr (v, d')"
  then have "length v \<le> unat (m_index d + n) - unat (m_index d)"
    by (auto simp: ReadVector_def byte_range_def Let_def split: if_splits)
  also have "\<dots> \<le> (unat (m_index d) + unat n) - unat (m_index d)"
    by (intro diff_le_mono) (simp only: unat_word_ariths mod_less_eq_dividend)
  finally show ?thesis by simp
qed

text \<open>
  C34. A range proof read from an arbitrary byte buffer is at most 675 bytes long; a longer declared
  length is rejected before any byte of it is read, whatever the declared length is, and reading never
  runs into undefined behaviour.
\<close>

theorem RangeProof_Deserialize_bounds:
  assumes "length bs < 2 ^ 63"
  shows "RangeProof_Deserialize be (new_Deserializer bs) \<noteq> Inl UndefinedBehaviour \<and>
    (\<forall>p d. RangeProof_Deserialize be (new_Deserializer bs) = Inr (p, d) \<longrightarrow> length (proof_bytes p) \<le> 675) \<and>
    (\<forall>n rest. bs = be_bytes (n :: u64) @ rest \<and> 675 < unat n \<longrightarrow>
       RangeProof_Deserialize be (new_Deserializer bs) =
         Inl (DeserializationException ''RangeProof is larger than MAX_SIZE''))"
proof (intro conjI allI impI)
  show "RangeProof_Deserialize be (new_Deserializer bs) \<noteq> Inl UndefinedBehaviour"
    by (rule RangeProof_codec.never_undefined) (rule assms)
next
  fix p d assume "RangeProof_Deserialize be (new_Deserializer bs) = Inr (p, d)"
  then obtain n :: u64 and d' v where "\<not> n > MAX_SIZE" "ReadVector n d' = Inr (v, d)" "p = mk_RangeProof v"
    by (auto simp: RangeProof_Deserialize_def dbind_def dreturn_def dthrow_def split: if_splits)
  then show "length (proof_bytes p) \<le> 675"
    using ReadVector_length [of n d' v d] by (simp add: mk_RangeProof_def MAX_SIZE_def word_less_nat_alt)
next
  fix n :: u64 and rest assume n: "bs = be_bytes n @ rest \<and> 675 < unat n"
  then have "Read be (new_Deserializer bs) = Inr (n, reader_at (be_bytes n) rest)"
    using Read_exact [of "[]" n rest be] assms by (simp add: reader_at_Nil)
  moreover have "n > MAX_SIZE" using n by (simp add: MAX_SIZE_def word_less_nat_alt)
  ultimately show "RangeProof_Deserialize be (new_Deserializer bs) =
      Inl (DeserializationException ''RangeProof is larger than MAX_SIZE'')"
    by (simp add: RangeProof_Deserialize_def dbind_def dthrow_def)
qed

theorem RangeProof_Deserialize_bounds_witness:
  "RangeProof_Deserialize False (new_Deserializer (be_bytes (676 :: u64) @ [0])) =
     Inl (DeserializationException ''RangeProof is larger than MAX_SIZE'')"
proof -
  have h: "length (be_bytes (676 :: u64) @ [0]) < 2 ^ 63" by simp
  show ?thesis using RangeProof_Deserialize_bounds [OF h, of False] by auto
qed

lemma models_json:
  assumes "json_laws J"
  shows "Commitment_FromJSON J \<lparr>m_json = Commitment_ToJSON J c\<rparr> = Inr c \<and>
    Signature_FromJSON J \<lparr>m_json = Signature_ToJSON J s\<rparr> = Inr s \<and>
    RangeProof_FromJSON J \<lparr>m_json = RangeProof_ToJSON J p\<rparr> = Inr p \<and>
    ScryptParameters_FromJSON J \<lparr>m_json = ScryptParameters_ToJSON J sc\<rparr> = Inr sc"
proof (intro conjI)
  have big: "BigInt_FromHex (BigInt_ToHex a) = a" for a
    by (cases a) (simp add: BigInt_FromHex_def BigInt_ToHex_def mk_BigInt_def FromHex_ToHex)
  show "Commitment_FromJSON J \<lparr>m_json = Commitment_ToJSON J c\<rparr> = Inr c"
    using assms by (cases c) (simp add: Commitment_FromJSON_def Commitment_ToJSON_def Json_Get_def json_laws_simps
        Commitment_FromHex_def mk_Commitment_def big)
  show "Signature_FromJSON J \<lparr>m_json = Signature_ToJSON J s\<rparr> = Inr s"
    using assms by (cases s) (simp add: Signature_FromJSON_def Signature_ToJSON_def Json_Get_def json_laws_simps
        Signature_FromHex_def mk_Signature_def big)
  show "RangeProof_FromJSON J \<lparr>m_json = RangeProof_ToJSON J p\<rparr> = Inr p"
    using assms by (cases p) (simp add: RangeProof_FromJSON_def RangeProof_ToJSON_def Json_Get_def json_laws_simps
        RangeProof_FromHex_def RangeProof_ToHex_def mk_RangeProof_def FromHex_ToHex)
  show "ScryptParameters_FromJSON J \<lparr>m_json = ScryptParameters_ToJSON J sc\<rparr> = Inr sc"
    using assms by (cases sc) (simp add: ScryptParameters_FromJSON_def ScryptParameters_ToJSON_def
        GetRequired_object j_get_word_word)
qed

text \<open>
  C39. The JSON form of a commitment, a signature, a range proof and of scrypt parameters parses back to
  the same object, with any JSON library that satisfies the documented laws.
\<close>

theorem models_json_roundtrip:
  assumes "json_laws J"
  shows "Commitment_FromJSON J \<lparr>m_json = Commitment_ToJSON J c\<rparr> = Inr c \<and>
    Signature_FromJSON J \<lparr>m_json = Signature_ToJSON J s\<rparr> = Inr s \<and>
    RangeProof_FromJSON J \<lparr>m_json = RangeProof_ToJSON J p\<rparr> = Inr p \<and>
    ScryptParameters_FromJSON J \<lparr>m_json = ScryptParameters_ToJSON J sc\<rparr> = Inr sc"
  by (rule models_json [OF assms])

theorem models_json_roundtrip_witness:
  "ScryptParameters_FromJSON json_ref
     \<lparr>m_json = ScryptParameters_ToJSON json_ref \<lparr>scrypt_N = 32768, scrypt_r = 8, scrypt_p = 1\<rparr>\<rparr> =
   Inr \<lparr>scrypt_N = 32768, scrypt_r = 8, scrypt_p = 1\<rparr>"
  using models_json_roundtrip [OF json_ref_laws] by blast

section \<open>ProofMessage\<close>

datatype EBulletProofType = ORIGINAL | ENHANCED

record ProofMessage =
  msg_bytes :: BigInt

record RewoundProof =
  m_amount :: u64
  m_pBlindingFactor :: "SecretKey option"
  m_proofMessage :: ProofMessage

definition big_set :: "BigInt \<Rightarrow> nat \<Rightarrow> u8 \<Rightarrow> BigInt result" where
  "big_set a i v = rbind (vec_set (big_bytes a) i v) (\<lambda>bs. Inr (mk_BigInt bs))"

definition FromKeyIndices :: "bool \<Rightarrow> u32 list \<Rightarrow> EBulletProofType \<Rightarrow> ProofMessage result" where
  "FromKeyIndices be keyIndices bulletproofType =
     (let serializer = fold (\<lambda>keyIndex s. Append be keyIndex s) keyIndices new_Serializer in
      rbind (if bulletproofType = ENHANCED
             then rbind (big_set (ValueOf 20 0) 2 1) (\<lambda>p. big_set p 3 (of_nat (length keyIndices)))
             else Inr (ValueOf 20 0)) (\<lambda>paddedPath.
      rbind (rfold (\<lambda>i p. rbind (Serializer_at serializer i) (\<lambda>b. big_set p (i + 4) b))
               [0..<length (m_serialized serializer)] paddedPath) (\<lambda>paddedPath.
        Inr \<lparr>msg_bytes = paddedPath\<rparr>)))"

definition ToKeyIndices_reader :: "bool \<Rightarrow> EBulletProofType \<Rightarrow> u32 list reader" where
  "ToKeyIndices_reader be bulletproofType =
     dbind (if bulletproofType = ENHANCED
            then dbind (Read be) (\<lambda>_ :: u8. dbind (Read be) (\<lambda>_ :: u8. dbind (Read be) (\<lambda>_ :: u8.
                   dbind (Read be) (\<lambda>length :: u8. dreturn (unat length)))))
            else dbind (Read be) (\<lambda>first4Bytes :: u32.
                   if first4Bytes \<noteq> 0 then dthrow (DeserializationException ''Failed to deserialize proof message.'')
                   else dreturn 3)) (\<lambda>length :: nat.
       read_times (Read be) (if length = 0 then 3 else length))"

definition ToKeyIndices :: "bool \<Rightarrow> ProofMessage \<Rightarrow> EBulletProofType \<Rightarrow> u32 list result" where
  "ToKeyIndices be m bulletproofType =
     rbind (ToKeyIndices_reader be bulletproofType (new_Deserializer (big_bytes (msg_bytes m)))) (\<lambda>(ks, d). Inr ks)"

lemma copy_loop:
  assumes "off + length src \<le> length dst" "k \<le> length src"
  shows "rfold (\<lambda>i p. rbind (vec_at src i) (\<lambda>b. big_set p (i + off) b)) [0..<k] (mk_BigInt dst) =
    Inr (mk_BigInt (take off dst @ take k src @ drop (off + k) dst))"
  using assms(2)
proof (induction k)
  case (Suc k)
  have "(take off dst @ take k src @ drop (off + k) dst)[k + off := src ! k] =
      take off dst @ take k src @ (drop (off + k) dst)[0 := src ! k]"
    using Suc.prems assms(1) by (simp add: list_update_append min_absorb2)
  also have "(drop (off + k) dst)[0 := src ! k] = src ! k # drop (off + Suc k) dst"
    using Suc.prems assms(1) by (subst Cons_nth_drop_Suc [symmetric]) simp_all
  finally have "(take off dst @ take k src @ drop (off + k) dst)[k + off := src ! k] =
      take off dst @ take (Suc k) src @ drop (off + Suc k) dst"
    using Suc.prems by (simp add: take_Suc_conv_app_nth)
  then show ?case
    using Suc assms(1) by (simp add: big_set_def mk_BigInt_def)
qed simp

lemma appends_key_indices:
  "m_serialized (fold (\<lambda>k s. Append be k s) ks new_Serializer) = concat (map (\<lambda>k :: u32. be_bytes k) ks)"
  using Serialized_appends [OF appends_serialize_all [of ks "Append be" be_bytes]]
  by (simp add: Serialized_def serialize_all_def)

lemma length_key_indices: "length (concat (map (\<lambda>k :: u32. be_bytes k) ks)) = 4 * length ks"
  by (induction ks) simp_all

lemma key_header:
  "(if t = ENHANCED then rbind (big_set (ValueOf 20 0) 2 1) (\<lambda>p. big_set p 3 n) else Inr (ValueOf 20 0)) =
     Inr (mk_BigInt ((if t = ENHANCED then [0, 0, 1, n] else [0, 0, 0, 0]) @ replicate 16 0))"
  by (simp add: ValueOf_def big_set_def mk_BigInt_def eval_nat_numeral)

lemma FromKeyIndices_bytes:
  assumes "length ks \<le> 4"
  shows "FromKeyIndices be ks t = Inr \<lparr>msg_bytes = mk_BigInt
     ((if t = ENHANCED then [0, 0, 1, of_nat (length ks)] else [0, 0, 0, 0]) @
      concat (map (\<lambda>k. be_bytes k) ks) @ replicate (16 - 4 * length ks) 0)\<rparr>"
proof -
  let ?src = "concat (map (\<lambda>k. be_bytes k) ks)"
  let ?h = "if t = ENHANCED then [0, 0, 1, of_nat (length ks)] else [0, 0, 0, 0 :: u8]"
  have "rfold (\<lambda>i p. rbind (vec_at ?src i) (\<lambda>b. big_set p (i + 4) b)) [0..<length ?src]
      (mk_BigInt (?h @ replicate 16 0)) = Inr (mk_BigInt (?h @ ?src @ replicate (16 - 4 * length ks) 0))"
    using copy_loop [of 4 ?src "?h @ replicate 16 0" "length ?src"] assms by (simp add: length_key_indices)
  then show ?thesis
    unfolding FromKeyIndices_def Let_def by (simp add: key_header appends_key_indices Serializer_at_def)
qed

lemma FromKeyIndices_overflow:
  assumes "4 < length ks"
  shows "FromKeyIndices be ks t = Inl UndefinedBehaviour"
proof -
  let ?src = "concat (map (\<lambda>k. be_bytes k) ks)"
  let ?f = "\<lambda>i p. rbind (vec_at ?src i) (\<lambda>b. big_set p (i + 4) b)"
  have len: "length ?src = 4 * length ks" by (rule length_key_indices)
  define pad where "pad = (if t = ENHANCED then [0, 0, 1, of_nat (length ks)] else [0, 0, 0, 0 :: u8]) @ replicate 16 0"
  have pad: "length pad = 20" by (simp add: pad_def)
  have cp: "rfold (\<lambda>i p. rbind (vec_at (take 16 ?src) i) (\<lambda>b. big_set p (i + 4) b)) [0..<16] (mk_BigInt pad) =
      Inr (mk_BigInt (take 4 pad @ take 16 ?src))"
    using copy_loop [of 4 "take 16 ?src" pad 16] pad len assms by simp
  have "rfold ?f [0..<16] (mk_BigInt pad) = Inr (mk_BigInt (take 4 pad @ take 16 ?src))"
    unfolding cp [symmetric] using len assms by (intro rfold_cong) simp
  moreover have "[0..<length ?src] = [0..<16] @ 16 # [17..<length ?src]"
    using upt_add_eq_append [of 0 16 "length ?src - 16"] upt_conv_Cons [of 16 "length ?src"] len assms by simp
  moreover have "?f 16 (mk_BigInt (take 4 pad @ take 16 ?src)) = Inl UndefinedBehaviour"
    using len assms pad by (simp add: big_set_def mk_BigInt_def vec_set_def)
  ultimately have "rfold ?f [0..<length ?src] (mk_BigInt pad) = Inl UndefinedBehaviour" by simp
  then show ?thesis
    unfolding FromKeyIndices_def Let_def key_header pad_def [symmetric]
    by (simp add: appends_key_indices Serializer_at_def)
qed

lemma decodes_ToKeyIndices:
  assumes "t = ENHANCED \<and> 1 \<le> length ks \<and> length ks \<le> 4 \<or> t = ORIGINAL \<and> length ks = 3"
  shows "decodes (ToKeyIndices_reader be t) ks
     ((if t = ENHANCED then [0, 0, 1, of_nat (length ks)] else [0, 0, 0, 0]) @ concat (map (\<lambda>k. be_bytes k) ks))"
  unfolding ToKeyIndices_reader_def
proof (rule decodes_bind)
  have b: "decodes (Read be) x [x]" for x :: u8
    using decodes_Read [of be x] by (simp add: le_bytes_def)
  have z: "decodes (Read be) (0 :: u32) [0, 0, 0, 0]"
    using decodes_Read [of be "0 :: u32"] by (simp add: le_bytes_def upt_rec)
  have u: "unat (of_nat (length ks) :: u8) = length ks" using assms by (auto simp: unat_of_nat)
  have "decodes (dbind (Read be) (\<lambda>_ :: u8. dbind (Read be) (\<lambda>_ :: u8. dbind (Read be) (\<lambda>_ :: u8.
      dbind (Read be) (\<lambda>l :: u8. dreturn (unat l)))))) (length ks) ([0] @ [0] @ [1] @ [of_nat (length ks)])"
    by (intro decodes_bind [OF b] decodes_bind_return [OF b]) (simp add: u)
  moreover have "decodes (dbind (Read be) (\<lambda>f :: u32. if f \<noteq> 0
      then dthrow (DeserializationException ''Failed to deserialize proof message.'') else dreturn 3)) 3 [0, 0, 0, 0]"
    by (rule decodes_bind_return [OF z]) simp
  ultimately show "decodes (if t = ENHANCED
      then dbind (Read be) (\<lambda>_ :: u8. dbind (Read be) (\<lambda>_ :: u8. dbind (Read be) (\<lambda>_ :: u8.
                   dbind (Read be) (\<lambda>length :: u8. dreturn (unat length)))))
      else dbind (Read be) (\<lambda>first4Bytes :: u32.
                   if first4Bytes \<noteq> 0 then dthrow (DeserializationException ''Failed to deserialize proof message.'')
                   else dreturn 3)) (length ks) (if t = ENHANCED then [0, 0, 1, of_nat (length ks)] else [0, 0, 0, 0])"
    using assms by auto
  show "decodes (read_times (Read be) (if length ks = 0 then 3 else length ks)) ks (concat (map (\<lambda>k. be_bytes k) ks))"
    using assms decodes_read_times [of ks "Read be" be_bytes] by auto
qed

text \<open>
  C38. A proof message built from key indices gives the same indices back: for the enhanced type with one
  to four indices, for the original type with exactly three. With more than four indices the message
  is too short for them and building it writes past its end.
\<close>

theorem ProofMessage_roundtrip:
  "(t = ENHANCED \<and> 1 \<le> length ks \<and> length ks \<le> 4 \<or> t = ORIGINAL \<and> length ks = 3 \<longrightarrow>
      (\<exists>m. FromKeyIndices be ks t = Inr m \<and> length (big_bytes (msg_bytes m)) = 20 \<and> ToKeyIndices be' m t = Inr ks)) \<and>
   (4 < length ks \<longrightarrow> FromKeyIndices be ks t = Inl UndefinedBehaviour)"
proof (intro conjI impI)
  assume a: "t = ENHANCED \<and> 1 \<le> length ks \<and> length ks \<le> 4 \<or> t = ORIGINAL \<and> length ks = 3"
  let ?enc = "(if t = ENHANCED then [0, 0, 1, of_nat (length ks)] else [0, 0, 0, 0 :: u8]) @ concat (map (\<lambda>k. be_bytes k) ks)"
  let ?pad = "replicate (16 - 4 * length ks) (0 :: u8)"
  have "length (?enc @ ?pad) = 20" using a by (auto simp: length_key_indices)
  moreover have "ToKeyIndices_reader be' t (new_Deserializer (?enc @ ?pad)) = Inr (ks, reader_at ?enc ?pad)"
    using decodesD [OF decodes_ToKeyIndices [OF a, of be'], of "[]" ?pad] calculation by (simp add: reader_at_Nil)
  moreover have "FromKeyIndices be ks t = Inr \<lparr>msg_bytes = mk_BigInt (?enc @ ?pad)\<rparr>"
    using a by (subst FromKeyIndices_bytes) auto
  ultimately show "\<exists>m. FromKeyIndices be ks t = Inr m \<and> length (big_bytes (msg_bytes m)) = 20 \<and> ToKeyIndices be' m t = Inr ks"
    by (simp add: ToKeyIndices_def mk_BigInt_def)
qed (rule FromKeyIndices_overflow)

theorem ProofMessage_roundtrip_witness:
  "(\<exists>m. FromKeyIndices False [1, 2] ENHANCED = Inr m \<and> length (big_bytes (msg_bytes m)) = 20 \<and>
     ToKeyIndices True m ENHANCED = Inr [1, 2]) \<and>
   FromKeyIndices False [1, 2, 3, 4, 5] ENHANCED = Inl UndefinedBehaviour"
  using ProofMessage_roundtrip [of ENHANCED "[1, 2]" False True]
    ProofMessage_roundtrip [of ENHANCED "[1, 2, 3, 4, 5]" False True] by simp

end
