(* ===== verification/MW_Mmr.thy ===== *)
theory MW_Mmr
  imports MW_Mmr_Index MW_Crypto_Models
begin

text \<open>
  The Merkle Mountain Range: \<^verbatim>\<open>mmr/Leaf.h\<close>, \<^verbatim>\<open>mmr/Node.h\<close>, \<^verbatim>\<open>mmr/Backend.h\<close>,
  \<^verbatim>\<open>mmr/backends/VectorBackend.h\<close>, \<^verbatim>\<open>mmr/MMR.h\<close> and \<^verbatim>\<open>mmr/MMR.cpp\<close>. The hash function (\<^verbatim>\<open>Crypto::Blake2b\<close>)
  is a parameter \<open>B\<close>; all results hold for every function, and where its output width matters this is
  the named hypothesis \<open>hash32 B\<close>. The virtual methods of \<^verbatim>\<open>IBackend\<close> are a record of functions on the
  state of the backend, so that \<open>MMR\<close> is written once for every backend, as in the code.

  The reference is \<open>node_val\<close>, the hash of a node defined by recursion over the tree, with no storage;
  the locale \<open>mmr_backend\<close> states what a backend promises the MMR and derives the behaviour of \<open>Add\<close>,
  \<open>Get\<close>, \<open>GetNumNodes\<close> and \<open>Root\<close> from it.
\<close>

section \<open>Leaves and nodes\<close>

record Leaf =
  leaf_index :: LeafIndex
  leaf_hash :: Hash
  leaf_data :: bytes

definition Leaf_Create :: "(bytes \<Rightarrow> Hash) \<Rightarrow> bool \<Rightarrow> LeafIndex \<Rightarrow> bytes \<Rightarrow> Leaf" where
  "Leaf_Create B be index data =
     (let hashSerializer = new_Serializer;
          hashSerializer = Append be (LeafIndex_GetPosition index) hashSerializer;
          hashSerializer = AppendVec data hashSerializer
      in \<lparr>leaf_index = index, leaf_hash = B (m_serialized hashSerializer), leaf_data = data\<rparr>)"

definition Leaf_eq :: "bool \<Rightarrow> Leaf \<Rightarrow> Leaf \<Rightarrow> bool" where
  "Leaf_eq same a rhs = BigInt_eq same (leaf_hash a) (leaf_hash rhs)"

definition Leaf_GetNodeIndex :: "Leaf \<Rightarrow> Index" where
  "Leaf_GetNodeIndex leaf = m_nodeIndex (leaf_index leaf)"

record Node =
  node_index :: Index
  node_hash :: Hash

definition CreateParent :: "(bytes \<Rightarrow> Hash) \<Rightarrow> bool \<Rightarrow> Index \<Rightarrow> Hash \<Rightarrow> Hash \<Rightarrow> Node" where
  "CreateParent B be index leftHash rightHash =
     (let hashSerializer = new_Serializer;
          hashSerializer = Append be (m_position index) hashSerializer;
          hashSerializer = BigInt_Serialize leftHash hashSerializer;
          hashSerializer = BigInt_Serialize rightHash hashSerializer
      in \<lparr>node_index = index, node_hash = B (m_serialized hashSerializer)\<rparr>)"

section \<open>The backend interface\<close>

record 'b IBackend =
  ib_AddLeaf :: "Leaf \<Rightarrow> 'b \<Rightarrow> 'b result"
  ib_AddHash :: "Hash \<Rightarrow> 'b \<Rightarrow> 'b result"
  ib_Rewind :: "LeafIndex \<Rightarrow> 'b \<Rightarrow> 'b result"
  ib_GetNumLeaves :: "'b \<Rightarrow> u64 result"
  ib_GetHash :: "Index \<Rightarrow> 'b \<Rightarrow> Hash result"
  ib_GetLeaf :: "LeafIndex \<Rightarrow> 'b \<Rightarrow> Leaf result"
  ib_Commit :: "'b \<Rightarrow> 'b result"
  ib_Rollback :: "'b \<Rightarrow> 'b"

definition GetNextLeaf :: "'b IBackend \<Rightarrow> 'b \<Rightarrow> LeafIndex result" where
  "GetNextLeaf V b = rbind (ib_GetNumLeaves V b) (\<lambda>n. Inr (LeafIndex_At n))"

text \<open>
  The loop of \<^verbatim>\<open>AddLeaf\<close>, which both backends share: it appends the parents that the new leaf
  completes. It ends because the position increases, and wraps around to position 0, a leaf.
\<close>

function AddLeaf_loop :: "(bytes \<Rightarrow> Hash) \<Rightarrow> bool \<Rightarrow> (Index \<Rightarrow> 'b \<Rightarrow> Hash result) \<Rightarrow> (Hash \<Rightarrow> 'b \<Rightarrow> 'b result) \<Rightarrow>
    Hash \<Rightarrow> Index \<Rightarrow> 'b \<Rightarrow> 'b result" where
  "AddLeaf_loop B be getHash addHash rightHash nextIdx b =
     (if IsLeaf nextIdx then Inr b
      else rbind (Index_GetLeftChild nextIdx) (\<lambda>left.
           rbind (getHash left b) (\<lambda>leftHash.
             let node = CreateParent B be nextIdx leftHash rightHash in
             rbind (addHash (node_hash node) b) (\<lambda>b'.
               AddLeaf_loop B be getHash addHash (node_hash node) (Index_GetNext nextIdx) b'))))"
  by pat_completeness auto
termination
proof (relation "measure (\<lambda>(B, be, getHash, addHash, rightHash, nextIdx, b).
    if IsLeaf nextIdx then 0 else 2 ^ 64 - unat (m_position nextIdx))")
  fix B be rightHash nextIdx b b' left leftHash and getHash :: "Index \<Rightarrow> 'b \<Rightarrow> Hash result"
    and addHash :: "Hash \<Rightarrow> 'b \<Rightarrow> 'b result" and node :: Node
  assume nl: "\<not> IsLeaf nextIdx"
  let ?p = "m_position nextIdx"
  have lt: "unat ?p < 2 ^ 64" using unsigned_less [of ?p] by simp
  show "((B, be, getHash, addHash, node_hash node, Index_GetNext nextIdx, b'),
      B, be, getHash, addHash, rightHash, nextIdx, b) \<in> measure (\<lambda>(B, be, getHash, addHash, rightHash, nextIdx, b).
        if IsLeaf nextIdx then 0 else 2 ^ 64 - unat (m_position nextIdx))"
  proof (cases "?p + 1 = 0")
    case True
    have "IsLeaf (Index_GetNext nextIdx)"
      using Index_At_of_nat [of 0] by (simp add: Index_GetNext_def True IsLeaf_def)
    then show ?thesis using nl lt by simp
  next
    case False
    then have "unat (?p + 1) = Suc (unat ?p)" using unatSuc [of ?p] by (simp add: add.commute)
    then have "2 ^ 64 - unat (?p + 1) < 2 ^ 64 - unat ?p" using lt by linarith
    then show ?thesis using nl lt by (simp add: Index_GetNext_def Index_At_def mk_Index_def)
  qed
qed simp

declare AddLeaf_loop.simps [simp del]

section \<open>VectorBackend\<close>

record VectorBackend =
  vb_leaves :: "Leaf list"
  vb_nodes :: "Hash list"

definition new_VectorBackend :: VectorBackend where
  "new_VectorBackend = \<lparr>vb_leaves = [], vb_nodes = []\<rparr>"

definition VectorBackend_AddHash :: "Hash \<Rightarrow> VectorBackend \<Rightarrow> VectorBackend result" where
  "VectorBackend_AddHash hash b = Inr (b\<lparr>vb_nodes := vb_nodes b @ [hash]\<rparr>)"

definition VectorBackend_GetHash :: "Index \<Rightarrow> VectorBackend \<Rightarrow> Hash result" where
  "VectorBackend_GetHash i b = vec_at (vb_nodes b) (unat (m_position i))"

definition VectorBackend_GetLeaf :: "LeafIndex \<Rightarrow> VectorBackend \<Rightarrow> Leaf result" where
  "VectorBackend_GetLeaf i b = vec_at (vb_leaves b) (unat (m_leafIndex i))"

definition VectorBackend_AddLeaf :: "(bytes \<Rightarrow> Hash) \<Rightarrow> bool \<Rightarrow> Leaf \<Rightarrow> VectorBackend \<Rightarrow> VectorBackend result" where
  "VectorBackend_AddLeaf B be leaf b =
     (let b = b\<lparr>vb_leaves := vb_leaves b @ [leaf]\<rparr> in
      rbind (VectorBackend_AddHash (leaf_hash leaf) b) (\<lambda>b.
        AddLeaf_loop B be VectorBackend_GetHash VectorBackend_AddHash (leaf_hash leaf)
          (Index_GetNext (Leaf_GetNodeIndex leaf)) b))"

text \<open>\<^verbatim>\<open>resize\<close> may also grow the vectors, with default leaves and hashes.\<close>

definition default_Leaf :: Leaf where
  "default_Leaf = \<lparr>leaf_index = mk_LeafIndex 0 0, leaf_hash = new_BigInt 32, leaf_data = []\<rparr>"

definition VectorBackend_Rewind :: "LeafIndex \<Rightarrow> VectorBackend \<Rightarrow> VectorBackend result" where
  "VectorBackend_Rewind nextLeafIndex b =
     Inr \<lparr>vb_leaves = vec_resize default_Leaf (unat (m_leafIndex nextLeafIndex)) (vb_leaves b),
          vb_nodes = vec_resize (new_BigInt 32) (unat (LeafIndex_GetPosition nextLeafIndex)) (vb_nodes b)\<rparr>"

definition VectorBackend_GetNumLeaves :: "VectorBackend \<Rightarrow> u64 result" where
  "VectorBackend_GetNumLeaves b = Inr (of_nat (length (vb_leaves b)))"

definition VectorBackend_Commit :: "VectorBackend \<Rightarrow> VectorBackend result" where
  "VectorBackend_Commit b = Inr b"

definition VectorBackend_Rollback :: "VectorBackend \<Rightarrow> VectorBackend" where
  "VectorBackend_Rollback b = b"

definition VectorBackend_methods :: "(bytes \<Rightarrow> Hash) \<Rightarrow> bool \<Rightarrow> VectorBackend IBackend" where
  "VectorBackend_methods B be = \<lparr>
     ib_AddLeaf = VectorBackend_AddLeaf B be, ib_AddHash = VectorBackend_AddHash,
     ib_Rewind = VectorBackend_Rewind, ib_GetNumLeaves = VectorBackend_GetNumLeaves,
     ib_GetHash = VectorBackend_GetHash, ib_GetLeaf = VectorBackend_GetLeaf,
     ib_Commit = VectorBackend_Commit, ib_Rollback = VectorBackend_Rollback\<rparr>"

section \<open>MMR\<close>

definition MMR_Add :: "'b IBackend \<Rightarrow> (bytes \<Rightarrow> Hash) \<Rightarrow> bool \<Rightarrow> bytes \<Rightarrow> 'b \<Rightarrow> 'b result" where
  "MMR_Add V B be data b =
     rbind (GetNextLeaf V b) (\<lambda>leafIdx. ib_AddLeaf V (Leaf_Create B be leafIdx data) b)"

definition MMR_Get :: "'b IBackend \<Rightarrow> LeafIndex \<Rightarrow> 'b \<Rightarrow> Leaf result" where
  "MMR_Get V leafIdx b = ib_GetLeaf V leafIdx b"

definition MMR_GetNumNodes :: "'b IBackend \<Rightarrow> 'b \<Rightarrow> u64 result" where
  "MMR_GetNumNodes V b =
     rbind (ib_GetNumLeaves V b) (\<lambda>numLeaves.
       if numLeaves = 0 then Inr 0 else Inr (LeafIndex_GetPosition (LeafIndex_At numLeaves)))"

function Root_peaks :: "u64 \<Rightarrow> u64 \<Rightarrow> u64 \<Rightarrow> u64 list" where
  "Root_peaks peakSize numLeft sumPrevPeaks =
     (if peakSize \<noteq> 0
      then if numLeft \<ge> peakSize
           then (sumPrevPeaks + peakSize - 1) #
                  Root_peaks (drop_bit 1 peakSize) (numLeft - peakSize) (sumPrevPeaks + peakSize)
           else Root_peaks (drop_bit 1 peakSize) numLeft sumPrevPeaks
      else [])"
  by pat_completeness auto
termination
  by (relation "measure (\<lambda>(p, n, s). unat p)") (simp_all add: unat_halve_less)

declare Root_peaks.simps [simp del]

primrec Root_bag :: "'b IBackend \<Rightarrow> (bytes \<Rightarrow> Hash) \<Rightarrow> bool \<Rightarrow> u64 \<Rightarrow> 'b \<Rightarrow> u64 list \<Rightarrow> Hash \<Rightarrow> Hash result" where
  "Root_bag V B be sz b [] hash = Inr hash"
| "Root_bag V B be sz b (iter # iters) hash =
     rbind (ib_GetHash V (Index_At iter) b) (\<lambda>peakHash.
       Root_bag V B be sz b iters
         (if BigInt_eq False hash HASH_ZERO then peakHash
          else node_hash (CreateParent B be (Index_At sz) peakHash hash)))"

definition MMR_Root :: "'b IBackend \<Rightarrow> (bytes \<Rightarrow> Hash) \<Rightarrow> bool \<Rightarrow> 'b \<Rightarrow> Hash result" where
  "MMR_Root V B be b =
     rbind (MMR_GetNumNodes V b) (\<lambda>sz.
       if sz = 0 then Inr HASH_ZERO
       else let peakIndices = Root_peaks (FillOnesToRight sz) sz 0
            in Root_bag V B be sz b (rev peakIndices) HASH_ZERO)"

definition MMR_Rewind :: "'b IBackend \<Rightarrow> u64 \<Rightarrow> 'b \<Rightarrow> 'b result" where
  "MMR_Rewind V numNodes b =
     (let nextIdx = Index_At numNodes
      in ib_Rewind V (mk_LeafIndex (Index_GetLeafIndex nextIdx) (m_position nextIdx)) b)"

definition MMR_Commit :: "'b IBackend \<Rightarrow> 'b \<Rightarrow> 'b result" where
  "MMR_Commit V b = ib_Commit V b"

definition MMR_Rollback :: "'b IBackend \<Rightarrow> 'b \<Rightarrow> 'b" where
  "MMR_Rollback V b = ib_Rollback V b"

section \<open>Reference: node hashes by recursion over the tree\<close>

definition hash32 :: "(bytes \<Rightarrow> Hash) \<Rightarrow> bool" where
  "hash32 B \<longleftrightarrow> (\<forall>x. length (big_bytes (B x)) = 32)"

lemma Leaf_Create_simps:
  "leaf_hash (Leaf_Create B be i d) = B (be_bytes (LeafIndex_GetPosition i) @ d)"
  "leaf_index (Leaf_Create B be i d) = i" "leaf_data (Leaf_Create B be i d) = d"
  by (simp_all add: Leaf_Create_def Let_def new_Serializer_def mw_codec AppendVec_def)

lemma node_hash_CreateParent:
  "node_hash (CreateParent B be i l r) = B (be_bytes (m_position i) @ big_bytes l @ big_bytes r)"
  by (simp add: CreateParent_def Let_def new_Serializer_def mw_codec BigInt_Serialize_def AppendVec_def)

lemma node_height_pos: "node_height p \<noteq> 0 \<Longrightarrow> 0 < p"
  by (metis neq0_conv node_height_0)

function node_val :: "(bytes \<Rightarrow> Hash) \<Rightarrow> bytes list \<Rightarrow> nat \<Rightarrow> Hash" where
  "node_val B ds p =
     (if node_height p = 0 then B (be_bytes (of_nat p :: u64) @ ds ! leaves_before p)
      else B (be_bytes (of_nat p :: u64) @ big_bytes (node_val B ds (p - 2 ^ node_height p)) @
              big_bytes (node_val B ds (p - 1))))"
  by pat_completeness auto
termination
  by (relation "measure (\<lambda>(B, ds, p). p)") (use node_height_pos in auto)

declare node_val.simps [simp del]

lemma node_val_length: "hash32 B \<Longrightarrow> length (big_bytes (node_val B ds p)) = 32"
  by (subst node_val.simps) (simp add: hash32_def)

lemma leaves_before_less: "p < leaf_pos n \<Longrightarrow> node_height p = 0 \<Longrightarrow> leaves_before p < n"
  using leaf_pos_leaves_before [of p] leaf_pos_less_iff [of "leaves_before p" n] by simp

text \<open>The hash of a node depends on the leaves before it only.\<close>

lemma node_val_append: "p < leaf_pos (length ds) \<Longrightarrow> node_val B (ds @ es) p = node_val B ds p"
proof (induction p rule: less_induct)
  case (less p)
  show ?case
  proof (cases "node_height p = 0")
    case True
    then have "(ds @ es) ! leaves_before p = ds ! leaves_before p"
      using leaves_before_less [OF less.prems True] by (simp add: nth_append)
    then show ?thesis using True by (simp add: node_val.simps [of B _ p])
  next
    case False
    then have "p - 2 ^ node_height p < p" "p - 1 < p" using node_height_pos by simp_all
    then show ?thesis
      using less False by (simp add: node_val.simps [of B _ p])
  qed
qed

lemma leaf_pos_less_63:
  assumes "leaf_pos n < tree_size 63"
  shows "n < 2 ^ 63"
proof (rule ccontr)
  assume "\<not> n < 2 ^ 63"
  then have "leaf_pos (2 ^ 63) \<le> leaf_pos n" by (intro leaf_pos_mono) simp
  moreover have "leaf_pos (2 ^ 63) = tree_size 63" using leaf_pos_top [of 0 63] by simp
  ultimately show False using assms by simp
qed

definition mmr_nodes :: "(bytes \<Rightarrow> Hash) \<Rightarrow> bytes list \<Rightarrow> Hash list" where
  "mmr_nodes B ds = map (node_val B ds) [0..<leaf_pos (length ds)]"

lemma length_mmr_nodes [simp]: "length (mmr_nodes B ds) = leaf_pos (length ds)"
  by (simp add: mmr_nodes_def)

lemma mmr_nodes_take:
  assumes "k \<le> length ds"
  shows "take (leaf_pos k) (mmr_nodes B ds) = mmr_nodes B (take k ds)"
proof -
  have "node_val B ds p = node_val B (take k ds) p" if "p < leaf_pos k" for p
    using node_val_append [of p "take k ds" B "drop k ds"] that assms by simp
  then show ?thesis
    using leaf_pos_mono [OF assms] assms by (simp add: mmr_nodes_def take_map min_absorb2)
qed

section \<open>Storing the hashes: what AddLeaf needs of a backend\<close>

text \<open>
  \<open>hashes b\<close> are the hashes the backend \<open>b\<close> holds, \<open>rest b\<close> is the part of it that \<^verbatim>\<open>AddHash\<close> leaves
  alone, \<open>room b\<close> says how many hashes fit.
\<close>

locale hash_store =
  fixes getHash :: "Index \<Rightarrow> 'b \<Rightarrow> Hash result"
    and addHash :: "Hash \<Rightarrow> 'b \<Rightarrow> 'b result"
    and hashes :: "'b \<Rightarrow> Hash list"
    and rest :: "'b \<Rightarrow> 'r"
    and inv :: "'b \<Rightarrow> bool"
    and room :: nat
  assumes getHash_ok: "inv b \<Longrightarrow> n < length (hashes b) \<Longrightarrow> n < room \<Longrightarrow> getHash (idx n) b = Inr (hashes b ! n)"
    and addHash_ok: "inv b \<Longrightarrow> length (hashes b) < room \<Longrightarrow> length (big_bytes h) = 32 \<Longrightarrow>
      \<exists>b'. addHash h b = Inr b' \<and> inv b' \<and> hashes b' = hashes b @ [h] \<and> rest b' = rest b"
    and room_le: "room < tree_size 63"
begin

lemma AddLeaf_loop_ok:
  assumes B: "hash32 B" and n: "leaf_pos (Suc n) \<le> room"
    and p: "leaf_pos n < p" "p \<le> leaf_pos (Suc n)"
    and b: "inv b" "hashes b = map (node_val B ds) [0..<p]"
  shows "\<exists>b'. AddLeaf_loop B be getHash addHash (node_val B ds (p - 1)) (idx p) b = Inr b' \<and> inv b' \<and>
     hashes b' = map (node_val B ds) [0..<leaf_pos (Suc n)] \<and> rest b' = rest b"
  using p(2,1) b
proof (induction p arbitrary: b rule: inc_induct)
  case base
  then have "IsLeaf (idx (leaf_pos (Suc n)))" using n room_le by (subst IsLeaf_idx) simp_all
  then show ?case using base by (subst AddLeaf_loop.simps) simp
next
  case (step p)
  have lt: "Suc p < tree_size 63" "p < room" using step n room_le by linarith+
  obtain h where h: "node_height p = Suc h"
    using inner_between_leaves [of n p] step by (metis not0_implies_Suc)
  have nl: "\<not> IsLeaf (idx p)" using h lt by (subst IsLeaf_idx) simp_all
  have left: "Index_GetLeftChild (idx p) = Inr (idx (p - 2 ^ Suc h))" using lt h by (intro GetLeftChild_idx) simp_all
  have pp: "p - 2 ^ Suc h < p" using step.prems by simp
  have get: "getHash (idx (p - 2 ^ Suc h)) b = Inr (node_val B ds (p - 2 ^ Suc h))"
    using getHash_ok [OF step.prems(2), of "p - 2 ^ Suc h"] pp lt by (simp add: step.prems(3))
  have node: "node_hash (CreateParent B be (idx p) (node_val B ds (p - 2 ^ Suc h)) (node_val B ds (p - 1))) = node_val B ds p"
    using h by (simp add: node_hash_CreateParent node_val.simps [of B ds p])
  obtain b1 where b1: "addHash (node_val B ds p) b = Inr b1" "inv b1" "hashes b1 = hashes b @ [node_val B ds p]" "rest b1 = rest b"
    using addHash_ok [OF step.prems(2) _ node_val_length [OF B]] lt step.prems(3) by force
  have "\<exists>b'. AddLeaf_loop B be getHash addHash (node_val B ds (Suc p - 1)) (idx (Suc p)) b1 = Inr b' \<and> inv b' \<and>
     hashes b' = map (node_val B ds) [0..<leaf_pos (Suc n)] \<and> rest b' = rest b1"
    using step.prems b1 by (intro step.IH) simp_all
  then show ?case
    using nl left get node b1 lt by (subst AddLeaf_loop.simps) (simp add: GetNext_idx Let_def)
qed

text \<open>\<^verbatim>\<open>AddHash\<close> of the leaf followed by the loop, as both backends run it.\<close>

lemma add_leaf_hashes_ok:
  fixes be :: bool and d :: bytes
  assumes "hash32 B" "leaf_pos (Suc (length ds)) \<le> room" "inv b" "hashes b = mmr_nodes B ds"
  defines "leaf \<equiv> Leaf_Create B be (LeafIndex_At (of_nat (length ds))) d"
  shows "\<exists>b'. rbind (addHash (leaf_hash leaf) b) (\<lambda>b. AddLeaf_loop B be getHash addHash (leaf_hash leaf)
      (Index_GetNext (Leaf_GetNodeIndex leaf)) b) = Inr b' \<and> inv b' \<and> hashes b' = mmr_nodes B (ds @ [d]) \<and> rest b' = rest b"
proof -
  let ?n = "length ds"
  have n: "leaf_pos ?n < leaf_pos (Suc ?n)" by simp
  have lt: "?n < 2 ^ 63" using n assms(2) room_le by (intro leaf_pos_less_63) linarith
  have li: "LeafIndex_At (of_nat ?n) = \<lparr>m_leafIndex = of_nat ?n, m_nodeIndex = idx (leaf_pos ?n)\<rparr>"
    by (rule LeafIndex_At_of_nat [OF lt])
  have nv: "node_val B (ds @ [d]) (leaf_pos ?n) = leaf_hash leaf"
    by (subst node_val.simps) (simp add: leaf_def Leaf_Create_simps li LeafIndex_GetPosition_def)
  have pre: "map (node_val B (ds @ [d])) [0..<leaf_pos ?n] = mmr_nodes B ds"
    by (simp add: mmr_nodes_def node_val_append)
  obtain b1 where b1: "addHash (leaf_hash leaf) b = Inr b1" "inv b1" "hashes b1 = hashes b @ [leaf_hash leaf]" "rest b1 = rest b"
    using addHash_ok [OF assms(3), of "leaf_hash leaf"] assms(1,2,4) n by (auto simp: leaf_def Leaf_Create_simps hash32_def)
  have h1: "hashes b1 = map (node_val B (ds @ [d])) [0..<Suc (leaf_pos ?n)]"
    using b1(3) assms(4) pre nv by simp
  have next_idx: "Index_GetNext (Leaf_GetNodeIndex leaf) = idx (Suc (leaf_pos ?n))"
  proof -
    have "Suc (leaf_pos ?n) < tree_size 63" using n assms(2) room_le by linarith
    then show ?thesis by (simp add: leaf_def Leaf_GetNodeIndex_def Leaf_Create_simps li GetNext_idx)
  qed
  have "\<exists>b'. AddLeaf_loop B be getHash addHash (node_val B (ds @ [d]) (Suc (leaf_pos ?n) - 1)) (idx (Suc (leaf_pos ?n))) b1 = Inr b' \<and>
      inv b' \<and> hashes b' = map (node_val B (ds @ [d])) [0..<leaf_pos (Suc ?n)] \<and> rest b' = rest b1"
    using assms(1,2) n Suc_leI [OF n] b1(2) h1 by (intro AddLeaf_loop_ok) (simp_all only: lessI)
  then show ?thesis using b1 nv next_idx by (simp add: mmr_nodes_def)
qed

end

interpretation vector_store: hash_store VectorBackend_GetHash VectorBackend_AddHash vb_nodes vb_leaves "\<lambda>_. True" "2 ^ 63"
proof
  show "VectorBackend_GetHash (idx n) b = Inr (vb_nodes b ! n)" if "n < length (vb_nodes b)" "n < 2 ^ 63" for n b
    using that by (simp add: VectorBackend_GetHash_def unat_of_nat_u64)
qed (simp_all add: VectorBackend_AddHash_def tree_size_63)

section \<open>Peaks and the root\<close>

text \<open>
  The peaks of a range with \<open>n\<close> leaves: one perfect tree for every binary digit 1 of \<open>n\<close>, from the
  largest to the smallest, starting at position \<open>off\<close>.
\<close>

fun mountains :: "nat \<Rightarrow> nat \<Rightarrow> nat \<Rightarrow> nat list" where
  "mountains 0 n off = []"
| "mountains (Suc k) n off =
     (if 2 ^ k \<le> n then (off + tree_size k - 1) # mountains k (n - 2 ^ k) (off + tree_size k)
      else mountains k n off)"

fun bag_peaks :: "(bytes \<Rightarrow> Hash) \<Rightarrow> nat \<Rightarrow> Hash list \<Rightarrow> Hash" where
  "bag_peaks B n [] = HASH_ZERO"
| "bag_peaks B n [h] = h"
| "bag_peaks B n (h # hs) = B (be_bytes (of_nat n :: u64) @ big_bytes h @ big_bytes (bag_peaks B n hs))"

definition mmr_root :: "(bytes \<Rightarrow> Hash) \<Rightarrow> bytes list \<Rightarrow> Hash" where
  "mmr_root B ds =
     bag_peaks B (leaf_pos (length ds)) (map (node_val B ds) (mountains 63 (length ds) 0))"

fun peaks_loop :: "nat \<Rightarrow> nat \<Rightarrow> nat \<Rightarrow> nat list" where
  "peaks_loop 0 x s = []"
| "peaks_loop (Suc k) x s =
     (if tree_size k \<le> x then (s + tree_size k - 1) # peaks_loop k (x - tree_size k) (s + tree_size k)
      else peaks_loop k x s)"

lemma Root_peaks_mask:
  assumes "k \<le> 63" "s + x < 2 ^ 64"
  shows "Root_peaks (mask k) (of_nat x) (of_nat s) = map of_nat (peaks_loop k x s)"
  using assms
proof (induction k arbitrary: x s)
  case 0
  then show ?case by (simp add: Root_peaks.simps)
next
  case (Suc k)
  have nz: "(mask (Suc k) :: u64) \<noteq> 0" using Suc.prems by (intro mask_Suc_neq_0) simp
  have half: "drop_bit 1 (mask (Suc k) :: u64) = mask k" using Suc.prems by (intro drop_bit_1_mask_Suc) simp
  have k64: "k < 64" using Suc.prems by simp
  have m: "(mask (Suc k) :: u64) = of_nat (tree_size k)"
    using unat_mask_tree_size [OF k64] by (metis of_nat_unat ucast_id)
  have le: "(mask (Suc k) :: u64) \<le> of_nat x \<longleftrightarrow> tree_size k \<le> x"
    using unat_mask_tree_size [of k] Suc.prems by (simp add: word_le_nat_alt unat_of_nat_u64)
  have step: "Root_peaks (mask (Suc k)) (of_nat x) (of_nat s) =
      (if tree_size k \<le> x
       then (of_nat s + mask (Suc k) - 1) # Root_peaks (mask k) (of_nat x - mask (Suc k)) (of_nat s + mask (Suc k))
       else Root_peaks (mask k) (of_nat x) (of_nat s))"
    using nz le half by (subst Root_peaks.simps) simp
  show ?case
  proof (cases "tree_size k \<le> x")
    case True
    have "1 \<le> s + tree_size k" using tree_size_pos [of k] by linarith
    then have "(of_nat s + mask (Suc k) - 1 :: u64) = of_nat (s + tree_size k - 1)"
      unfolding m by (simp add: of_nat_diff)
    moreover have "(of_nat x - mask (Suc k) :: u64) = of_nat (x - tree_size k)" unfolding m using True by (simp add: of_nat_diff)
    moreover have "(of_nat s + mask (Suc k) :: u64) = of_nat (s + tree_size k)" unfolding m by simp
    ultimately show ?thesis
      using True Suc.IH [of "s + tree_size k" "x - tree_size k"] Suc.prems unfolding step by simp
  next
    case False
    then show ?thesis using Suc.IH [of s x] Suc.prems unfolding step by simp
  qed
qed

lemma peaks_loop_mountains: "n < 2 ^ k \<Longrightarrow> peaks_loop k (leaf_pos n) s = mountains k n s"
proof (induction k arbitrary: n s)
  case (Suc k)
  from Suc.prems show ?case
  proof (cases rule: bit_split_cases)
    case low
    then have "leaf_pos n < tree_size k" by (rule leaf_pos_less_tree)
    then show ?thesis using low Suc.IH [of n s] by simp
  next
    case (high m)
    then show ?thesis using Suc.IH [of m "s + tree_size k"] leaf_pos_top [of m k] by simp
  qed
qed simp

lemma mountains_larger: "n < 2 ^ k \<Longrightarrow> k \<le> l \<Longrightarrow> mountains l n off = mountains k n off"
proof (induction l)
  case (Suc l)
  show ?case
  proof (cases "k = Suc l")
    case False
    then have "k \<le> l" using Suc.prems by simp
    moreover have "n < 2 ^ l" using less_le_trans [OF Suc.prems(1) power_increasing [OF \<open>k \<le> l\<close>]] by simp
    ultimately show ?thesis using Suc by simp
  qed simp
qed simp

lemma mountains_less: "n < 2 ^ k \<Longrightarrow> p \<in> set (mountains k n off) \<Longrightarrow> p < off + leaf_pos n"
proof (induction k arbitrary: n off)
  case (Suc k)
  from Suc.prems(1) show ?case
  proof (cases rule: bit_split_cases)
    case low
    then show ?thesis using Suc by simp
  next
    case (high m)
    have "p = off + tree_size k - 1 \<or> p \<in> set (mountains k m (off + tree_size k))"
      using Suc.prems(2) high by simp
    moreover have "off + leaf_pos n = off + tree_size k + leaf_pos m"
      using leaf_pos_top [OF high(2)] high(1) by simp
    moreover have "off + tree_size k - 1 < off + tree_size k + leaf_pos m" using tree_size_pos [of k] by linarith
    ultimately show ?thesis
      using Suc.IH [OF high(2), of "off + tree_size k"] by metis
  qed
qed simp

lemma mountains_Nil_iff: "n < 2 ^ k \<Longrightarrow> mountains k n off = [] \<longleftrightarrow> n = 0"
proof (induction k arbitrary: n off)
  case (Suc k)
  from Suc.prems show ?case
    by (cases rule: bit_split_cases) (use Suc.IH in auto)
qed simp

lemma leaf_pos_le: "leaf_pos n \<le> 2 * n"
  by (simp add: leaf_pos_def)

lemma Root_peaks_leaf_pos:
  assumes "0 < n" "n < 2 ^ 62"
  shows "Root_peaks (FillOnesToRight (of_nat (leaf_pos n))) (of_nat (leaf_pos n)) 0 =
    map of_nat (mountains 63 n 0)"
proof -
  let ?s = "of_nat (leaf_pos n) :: u64"
  have lt: "leaf_pos n < 2 ^ 63" using leaf_pos_le [of n] assms(2) by simp
  have u: "unat ?s = leaf_pos n" using lt by (intro unat_of_nat_u64) simp
  have "?s \<noteq> 0" using u leaf_pos_ge [of n] assms(1) by (metis less_le_trans not_less_zero unat_0)
  then obtain k where k: "FillOnesToRight ?s = mask (Suc k)" "2 ^ k \<le> unat ?s" "unat ?s < 2 ^ Suc k"
    by (rule FillOnesToRight_tree_size) blast
  have "(2 :: nat) ^ k < 2 ^ 63" using k(2) u lt by linarith
  then have "k < 63" by (rule power_less_imp_less_exp [rotated]) simp
  then have k63: "Suc k \<le> 63" by simp
  have n: "n < 2 ^ Suc k" using k(3) u leaf_pos_ge [of n] by linarith
  have "Root_peaks (mask (Suc k)) ?s (of_nat 0) = map of_nat (peaks_loop (Suc k) (leaf_pos n) 0)"
    using k63 lt by (intro Root_peaks_mask) simp_all
  then show ?thesis
    unfolding k(1) using peaks_loop_mountains [OF n] mountains_larger [OF n k63] by simp
qed

section \<open>The contract of a backend and what the MMR makes of it\<close>

text \<open>
  \<open>Rep ds b\<close>: the backend \<open>b\<close> holds the MMR over the leaf data \<open>ds\<close>. \<open>fits ds\<close>: the data are within
  the limits of the backend.
\<close>

locale mmr_backend =
  fixes V :: "'b IBackend" and B :: "bytes \<Rightarrow> Hash" and be :: bool
    and Rep :: "bytes list \<Rightarrow> 'b \<Rightarrow> bool" and fits :: "bytes list \<Rightarrow> bool"
  assumes numLeaves_ok: "Rep ds b \<Longrightarrow> ib_GetNumLeaves V b = Inr (of_nat (length ds))"
    and addLeaf_ok: "hash32 B \<Longrightarrow> Rep ds b \<Longrightarrow> fits (ds @ [d]) \<Longrightarrow>
      \<exists>b'. ib_AddLeaf V (Leaf_Create B be (LeafIndex_At (of_nat (length ds))) d) b = Inr b' \<and> Rep (ds @ [d]) b'"
    and getHash_ok: "Rep ds b \<Longrightarrow> n < leaf_pos (length ds) \<Longrightarrow> ib_GetHash V (idx n) b = Inr (node_val B ds n)"
    and getLeaf_ok: "Rep ds b \<Longrightarrow> n < length ds \<Longrightarrow>
      ib_GetLeaf V (LeafIndex_At (of_nat n)) b = Inr (Leaf_Create B be (LeafIndex_At (of_nat n)) (ds ! n))"
    and Rep_fits: "Rep ds b \<Longrightarrow> fits ds"
    and fits_length: "fits ds \<Longrightarrow> length ds < 2 ^ 62"
    and fits_prefix: "fits (ds @ es) \<Longrightarrow> fits ds"
begin

lemma Add_ok:
  assumes "hash32 B" "Rep ds b" "fits (ds @ [d])"
  shows "\<exists>b'. MMR_Add V B be d b = Inr b' \<and> Rep (ds @ [d]) b'"
  using addLeaf_ok [OF assms] by (simp add: MMR_Add_def GetNextLeaf_def numLeaves_ok [OF assms(2)])

lemma Add_all_ok:
  assumes "hash32 B" "Rep ds b" "fits (ds @ es)"
  shows "\<exists>b'. rfold (MMR_Add V B be) es b = Inr b' \<and> Rep (ds @ es) b'"
  using assms(2,3)
proof (induction es arbitrary: ds b)
  case (Cons e es)
  have "fits (ds @ [e])" using Cons.prems(2) fits_prefix [of "ds @ [e]" es] by simp
  then obtain b1 where "MMR_Add V B be e b = Inr b1" "Rep (ds @ [e]) b1"
    using Add_ok [OF assms(1) Cons.prems(1)] by blast
  then show ?case using Cons.IH [of "ds @ [e]" b1] Cons.prems(2) by simp
qed simp

lemma Get_ok:
  "Rep ds b \<Longrightarrow> n < length ds \<Longrightarrow>
     MMR_Get V (LeafIndex_At (of_nat n)) b = Inr (Leaf_Create B be (LeafIndex_At (of_nat n)) (ds ! n))"
  by (simp add: MMR_Get_def getLeaf_ok)

lemma GetNumNodes_ok:
  assumes "Rep ds b"
  shows "MMR_GetNumNodes V b = Inr (of_nat (leaf_pos (length ds)))"
proof -
  have n: "length ds < 2 ^ 62" using assms by (intro fits_length Rep_fits)
  then have "LeafIndex_At (of_nat (length ds)) = \<lparr>m_leafIndex = of_nat (length ds), m_nodeIndex = idx (leaf_pos (length ds))\<rparr>"
    by (intro LeafIndex_At_of_nat) simp
  moreover have "(of_nat (length ds) :: u64) = 0 \<longleftrightarrow> ds = []"
    using n u64_of_nat_eq_iff [of "length ds" 0] by simp
  ultimately show ?thesis
    by (simp add: MMR_GetNumNodes_def numLeaves_ok [OF assms] LeafIndex_GetPosition_def)
qed

lemma Root_bag_append:
  "Root_bag V B be sz b (xs @ ys) h = rbind (Root_bag V B be sz b xs h) (Root_bag V B be sz b ys)"
  by (induction xs arbitrary: h) (auto simp: rbind_assoc)

lemma Root_bag_ok:
  assumes rep: "Rep ds b" and nz: "\<And>x. B x \<noteq> HASH_ZERO" and ps: "\<And>p. p \<in> set ps \<Longrightarrow> p < leaf_pos (length ds)" "ps \<noteq> []"
  shows "Root_bag V B be (of_nat m) b (rev (map of_nat ps)) HASH_ZERO = Inr (bag_peaks B m (map (node_val B ds) ps)) \<and>
    bag_peaks B m (map (node_val B ds) ps) \<noteq> HASH_ZERO"
  using ps
proof (induction ps)
  case (Cons p ps)
  have "leaf_pos (length ds) < tree_size 63"
    using fits_length [OF Rep_fits [OF rep]] by (intro leaf_pos_63) simp
  then have get: "ib_GetHash V (Index_At (of_nat p)) b = Inr (node_val B ds p)"
    using Cons.prems(1) [of p] getHash_ok [OF rep, of p] by (simp add: Index_At_of_nat)
  have eq: "BigInt_eq False h HASH_ZERO \<longleftrightarrow> h = HASH_ZERO" for h
    by (auto simp: BigInt_eq_def intro: BigInt.equality)
  show ?case
  proof (cases ps)
    case Nil
    have "node_val B ds p \<noteq> HASH_ZERO" using nz by (subst node_val.simps) simp
    then show ?thesis using get Nil by (simp add: eq)
  next
    case (Cons q qs)
    then have ih: "Root_bag V B be (of_nat m) b (rev (map of_nat ps)) HASH_ZERO = Inr (bag_peaks B m (map (node_val B ds) ps))"
      "bag_peaks B m (map (node_val B ds) ps) \<noteq> HASH_ZERO"
      using Cons.IH Cons.prems(1) by auto
    have "Root_bag V B be (of_nat m) b (rev (map of_nat (p # ps))) HASH_ZERO =
        Root_bag V B be (of_nat m) b [of_nat p] (bag_peaks B m (map (node_val B ds) ps))"
      unfolding list.map rev.simps(2) Root_bag_append ih(1) rbind_simps ..
    moreover have "bag_peaks B m (map (node_val B ds) (p # ps)) =
        B (be_bytes (of_nat m :: u64) @ big_bytes (node_val B ds p) @ big_bytes (bag_peaks B m (map (node_val B ds) ps)))"
      by (simp add: Cons)
    ultimately show ?thesis
      using ih(2) get nz by (simp add: eq node_hash_CreateParent Index_At_def mk_Index_def)
  qed
qed simp

lemma Root_ok:
  assumes "Rep ds b" "\<And>x. B x \<noteq> HASH_ZERO"
  shows "MMR_Root V B be b = Inr (mmr_root B ds)"
proof (cases "ds = []")
  case True
  then show ?thesis
    using mountains_Nil_iff [of 0 63 0] by (simp add: MMR_Root_def GetNumNodes_ok [OF assms(1)] mmr_root_def)
next
  case False
  let ?n = "length ds"
  have n: "0 < ?n" "?n < 2 ^ 62" using False fits_length [OF Rep_fits [OF assms(1)]] by simp_all
  have lt: "leaf_pos ?n < 2 ^ 63" using leaf_pos_le [of ?n] n(2) by simp
  have "(of_nat (leaf_pos ?n) :: u64) \<noteq> 0"
    using u64_of_nat_eq_iff [of "leaf_pos ?n" 0] lt leaf_pos_ge [of ?n] n(1) by simp
  moreover have "Root_bag V B be (of_nat (leaf_pos ?n)) b (rev (map of_nat (mountains 63 ?n 0))) HASH_ZERO =
      Inr (bag_peaks B (leaf_pos ?n) (map (node_val B ds) (mountains 63 ?n 0)))"
    using mountains_less [of ?n 63 _ 0] mountains_Nil_iff [of ?n 63 0] n
    by (intro Root_bag_ok [THEN conjunct1] assms) auto
  ultimately show ?thesis
    by (simp add: MMR_Root_def GetNumNodes_ok [OF assms(1)] mmr_root_def Root_peaks_leaf_pos [OF n])
qed

end

section \<open>The vector backend satisfies the contract\<close>

definition mmr_leaves :: "(bytes \<Rightarrow> Hash) \<Rightarrow> bool \<Rightarrow> bytes list \<Rightarrow> Leaf list" where
  "mmr_leaves B be ds = map (\<lambda>i. Leaf_Create B be (LeafIndex_At (of_nat i)) (ds ! i)) [0..<length ds]"

text \<open>The state of a vector backend that holds the MMR over the leaf data \<open>ds\<close>.\<close>

definition vector_mmr :: "(bytes \<Rightarrow> Hash) \<Rightarrow> bool \<Rightarrow> bytes list \<Rightarrow> VectorBackend" where
  "vector_mmr B be ds = \<lparr>vb_leaves = mmr_leaves B be ds, vb_nodes = mmr_nodes B ds\<rparr>"

lemma mmr_leaves_snoc:
  "mmr_leaves B be (ds @ [d]) = mmr_leaves B be ds @ [Leaf_Create B be (LeafIndex_At (of_nat (length ds))) d]"
  by (simp add: mmr_leaves_def nth_append)

lemma mmr_leaves_take: "k \<le> length ds \<Longrightarrow> take k (mmr_leaves B be ds) = mmr_leaves B be (take k ds)"
  by (simp add: mmr_leaves_def take_map min_absorb2)

lemma VectorBackend_AddLeaf_ok:
  assumes "hash32 B" "length ds < 2 ^ 61"
  shows "VectorBackend_AddLeaf B be (Leaf_Create B be (LeafIndex_At (of_nat (length ds))) d) (vector_mmr B be ds) =
    Inr (vector_mmr B be (ds @ [d]))"
proof -
  let ?leaf = "Leaf_Create B be (LeafIndex_At (of_nat (length ds))) d"
  let ?b = "(vector_mmr B be ds)\<lparr>vb_leaves := vb_leaves (vector_mmr B be ds) @ [?leaf]\<rparr>"
  have "leaf_pos (Suc (length ds)) \<le> 2 ^ 63" using leaf_pos_le [of "Suc (length ds)"] assms(2) by simp
  then obtain b' where b': "rbind (VectorBackend_AddHash (leaf_hash ?leaf) ?b) (\<lambda>b. AddLeaf_loop B be VectorBackend_GetHash
      VectorBackend_AddHash (leaf_hash ?leaf) (Index_GetNext (Leaf_GetNodeIndex ?leaf)) b) = Inr b'"
    "vb_nodes b' = mmr_nodes B (ds @ [d])" "vb_leaves b' = vb_leaves ?b"
    using vector_store.add_leaf_hashes_ok [OF assms(1), of ds ?b be d] by (auto simp: vector_mmr_def)
  have "b' = vector_mmr B be (ds @ [d])"
    by (rule VectorBackend.equality) (simp_all add: b'(2,3) vector_mmr_def mmr_leaves_snoc)
  then show ?thesis using b'(1) by (simp add: VectorBackend_AddLeaf_def Let_def)
qed

interpretation vector_mmr: mmr_backend "VectorBackend_methods B be" B be
  "\<lambda>ds b. b = vector_mmr B be ds \<and> length ds < 2 ^ 61" "\<lambda>ds. length ds < 2 ^ 61" for B be
proof
  fix ds b n assume r: "b = vector_mmr B be ds \<and> length ds < 2 ^ 61" and n: "n < leaf_pos (length ds)"
  have "n < 2 ^ 63" using n leaf_pos_le [of "length ds"] r by simp
  then show "ib_GetHash (VectorBackend_methods B be) (idx n) b = Inr (node_val B ds n)"
    using r n vector_store.getHash_ok [of n b] by (simp add: VectorBackend_methods_def vector_mmr_def mmr_nodes_def)
next
  fix ds b d assume "hash32 B" "b = vector_mmr B be ds \<and> length ds < 2 ^ 61" "length (ds @ [d]) < 2 ^ 61"
  then show "\<exists>b'. ib_AddLeaf (VectorBackend_methods B be) (Leaf_Create B be (LeafIndex_At (of_nat (length ds))) d) b = Inr b' \<and>
      b' = vector_mmr B be (ds @ [d]) \<and> length (ds @ [d]) < 2 ^ 61"
    by (simp add: VectorBackend_methods_def VectorBackend_AddLeaf_ok)
next
  fix ds b and n :: nat assume r: "b = vector_mmr B be ds \<and> length ds < 2 ^ 61" and n: "n < length ds"
  have "m_leafIndex (LeafIndex_At (of_nat n)) = of_nat n" by (simp add: LeafIndex_At_def mk_LeafIndex_def)
  then show "ib_GetLeaf (VectorBackend_methods B be) (LeafIndex_At (of_nat n)) b =
      Inr (Leaf_Create B be (LeafIndex_At (of_nat n)) (ds ! n))"
    using r n by (simp add: VectorBackend_methods_def VectorBackend_GetLeaf_def vector_mmr_def mmr_leaves_def unat_of_nat_u64)
qed (auto simp: VectorBackend_methods_def VectorBackend_GetNumLeaves_def vector_mmr_def mmr_leaves_def)

lemma vector_mmr_Nil: "vector_mmr B be [] = new_VectorBackend"
  by (simp add: vector_mmr_def new_VectorBackend_def mmr_leaves_def mmr_nodes_def)

lemma vector_mmr_Add_all:
  assumes "hash32 B" "length (ds @ es) < 2 ^ 61"
  shows "rfold (MMR_Add (VectorBackend_methods B be) B be) es (vector_mmr B be ds) = Inr (vector_mmr B be (ds @ es))"
  using vector_mmr.Add_all_ok [OF assms(1), where ds = ds and es = es and be = be] assms(2) by auto

lemmas vector_mmr_build = vector_mmr_Add_all [where ds = "[]", unfolded vector_mmr_Nil append_Nil]

lemma vector_mmr_GetNumNodes:
  "length ds < 2 ^ 61 \<Longrightarrow> MMR_GetNumNodes (VectorBackend_methods B be) (vector_mmr B be ds) = Inr (of_nat (leaf_pos (length ds)))"
  using vector_mmr.GetNumNodes_ok [where ds = ds and B = B and be = be] by auto

lemma vector_mmr_Root:
  assumes "length ds < 2 ^ 61" "\<And>x. B x \<noteq> HASH_ZERO"
  shows "MMR_Root (VectorBackend_methods B be) B be (vector_mmr B be ds) = Inr (mmr_root B ds)"
  using vector_mmr.Root_ok [OF _ assms(2), where ds = ds and be = be] assms(1) by auto

text \<open>
  C1. Adding leaves one after the other to an empty MMR over a vector backend never fails, and the
  backend then holds exactly the leaves in order and, for every node of the mountain range in postorder,
  the hash defined by recursion over the tree.
\<close>

theorem MMR_Add_correct:
  assumes "hash32 B" "length ds < 2 ^ 61"
  shows "rfold (MMR_Add (VectorBackend_methods B be) B be) ds new_VectorBackend =
    Inr \<lparr>vb_leaves = mmr_leaves B be ds, vb_nodes = map (node_val B ds) [0..<leaf_pos (length ds)]\<rparr>"
  using vector_mmr_build [OF assms] by (simp add: vector_mmr_def mmr_nodes_def)

definition B_example :: "bytes \<Rightarrow> Hash" where
  "B_example x = mk_BigInt (take 31 (x @ replicate 31 0) @ [1])"

lemma hash32_B_example: "hash32 B_example"
  by (auto simp: hash32_def B_example_def mk_BigInt_def min_def)

theorem MMR_Add_correct_witness:
  "\<exists>b. rfold (MMR_Add (VectorBackend_methods B_example False) B_example False) [[1], [2], [3]] new_VectorBackend = Inr b \<and>
     length (vb_leaves b) = 3 \<and> length (vb_nodes b) = leaf_pos 3"
proof -
  have h: "length [[1], [2], [3 :: u8]] < 2 ^ 61" by simp
  show ?thesis
    by (rule exI, rule conjI, rule MMR_Add_correct [OF hash32_B_example h]) (simp add: mmr_leaves_def numeral_3_eq_3)
qed


lemma B_example_nonzero: "B_example x \<noteq> HASH_ZERO"
proof
  assume "B_example x = HASH_ZERO"
  then have "last (big_bytes (B_example x)) = last (big_bytes HASH_ZERO)" by simp
  moreover have "(replicate 32 (0 :: u8))[31 := 0] = replicate 32 0" by (simp add: list_update_same_conv)
  ultimately show False by (simp add: B_example_def mk_BigInt_def HASH_ZERO_def ValueOf_def)
qed


text \<open>
  C4. Rewinding an MMR over a vector backend to the size it had after its first \<open>k\<close> leaves restores
  exactly the state it had then (and so its root).
\<close>

theorem MMR_Rewind_correct:
  assumes "hash32 B" "length (ds @ es) < 2 ^ 61"
    and "rfold (MMR_Add (VectorBackend_methods B be) B be) ds new_VectorBackend = Inr b"
    and "rfold (MMR_Add (VectorBackend_methods B be) B be) es b = Inr b'"
    and "MMR_GetNumNodes (VectorBackend_methods B be) b = Inr numNodes"
  shows "MMR_Rewind (VectorBackend_methods B be) numNodes b' = Inr b"
proof -
  have ds: "length ds < 2 ^ 61" using assms(2) by simp
  have b: "b = vector_mmr B be ds"
    using vector_mmr_build [OF assms(1) ds, of be] assms(3) by simp
  have b': "b' = vector_mmr B be (ds @ es)"
    using vector_mmr_Add_all [OF assms(1,2), of be] assms(4) b by simp
  let ?k = "length ds"
  have n: "numNodes = of_nat (leaf_pos ?k)"
    using vector_mmr_GetNumNodes [OF ds, of B be] b assms(5) by simp
  have at: "Index_At numNodes = idx (leaf_pos ?k)"
    unfolding n using ds by (intro Index_At_of_nat leaf_pos_63) simp
  have li: "Index_GetLeafIndex (idx (leaf_pos ?k)) = of_nat ?k"
    using ds by (simp add: Index_GetLeafIndex_def CalculateLeafIndex_leaf_pos)
  have lt: "leaf_pos ?k < 2 ^ 64" using leaf_pos_le [of ?k] ds by simp
  have u: "unat (of_nat ?k :: u64) = ?k" "unat (of_nat (leaf_pos ?k) :: u64) = leaf_pos ?k"
    using ds lt by (simp_all add: unat_of_nat_u64)
  have len: "?k \<le> length (mmr_leaves B be (ds @ es))" "leaf_pos ?k \<le> length (mmr_nodes B (ds @ es))"
    by (simp_all add: mmr_leaves_def leaf_pos_mono)
  have "mmr_leaves B be ds = take ?k (mmr_leaves B be (ds @ es))" "mmr_nodes B ds = take (leaf_pos ?k) (mmr_nodes B (ds @ es))"
    by (simp_all add: mmr_leaves_take mmr_nodes_take)
  then show ?thesis
    using len by (simp add: MMR_Rewind_def Let_def at li VectorBackend_methods_def VectorBackend_Rewind_def
        mk_LeafIndex_def LeafIndex_GetPosition_def mk_Index_def u b b' vector_mmr_def vec_resize_take)
qed

theorem MMR_Rewind_correct_witness:
  "\<exists>b b' n. rfold (MMR_Add (VectorBackend_methods B_example True) B_example True) [[1], [2]] new_VectorBackend = Inr b \<and>
     rfold (MMR_Add (VectorBackend_methods B_example True) B_example True) [[3]] b = Inr b' \<and>
     MMR_GetNumNodes (VectorBackend_methods B_example True) b = Inr n \<and>
     MMR_Rewind (VectorBackend_methods B_example True) n b' = Inr b"
proof -
  let ?V = "VectorBackend_methods B_example True"
  have h: "length ([[1], [2 :: u8]] @ [[3]]) < 2 ^ 61" by simp
  obtain b where b: "rfold (MMR_Add ?V B_example True) [[1], [2]] new_VectorBackend = Inr b" "b = vector_mmr B_example True [[1], [2]]"
    using vector_mmr_build [OF hash32_B_example, of "[[1], [2]]" True] by simp
  obtain b' where b': "rfold (MMR_Add ?V B_example True) [[3]] b = Inr b'"
    using vector_mmr_Add_all [OF hash32_B_example h, of True] b(2) by blast
  obtain n where n: "MMR_GetNumNodes ?V b = Inr n"
    using vector_mmr_GetNumNodes [of "[[1], [2]]" B_example True] b(2) by simp
  show ?thesis using b(1) b' n MMR_Rewind_correct [OF hash32_B_example h b(1) b' n] by blast
qed

section \<open>The root commits to the leaves\<close>

text \<open>The inputs that are hashed when the range over \<open>ds\<close> is built and its root computed.\<close>

definition node_input :: "(bytes \<Rightarrow> Hash) \<Rightarrow> bytes list \<Rightarrow> nat \<Rightarrow> bytes" where
  "node_input B ds p =
     (if node_height p = 0 then be_bytes (of_nat p :: u64) @ ds ! leaves_before p
      else be_bytes (of_nat p :: u64) @ big_bytes (node_val B ds (p - 2 ^ node_height p)) @
           big_bytes (node_val B ds (p - 1)))"

fun bag_inputs :: "(bytes \<Rightarrow> Hash) \<Rightarrow> nat \<Rightarrow> Hash list \<Rightarrow> bytes set" where
  "bag_inputs B n [] = {}"
| "bag_inputs B n [h] = {}"
| "bag_inputs B n (h # hs) =
     insert (be_bytes (of_nat n :: u64) @ big_bytes h @ big_bytes (bag_peaks B n hs)) (bag_inputs B n hs)"

definition hashed_inputs :: "(bytes \<Rightarrow> Hash) \<Rightarrow> bytes list \<Rightarrow> bytes set" where
  "hashed_inputs B ds = node_input B ds ` {..<leaf_pos (length ds)} \<union>
     bag_inputs B (leaf_pos (length ds)) (map (node_val B ds) (mountains 63 (length ds) 0))"

lemma node_val_input: "node_val B ds p = B (node_input B ds p)"
  by (subst node_val.simps) (simp add: node_input_def)

lemma BigInt_eqI: "big_bytes a = big_bytes b \<Longrightarrow> a = (b :: BigInt)"
  by (rule BigInt.equality) simp_all

text \<open>Equal hashes of a node mean equal leaves in its subtree, which ends at the node.\<close>

lemma node_val_binding:
  assumes "hash32 B" "inj_on B (node_input B ds ` {..<m} \<union> node_input B es ` {..<m})"
    and "p < m" "node_val B ds p = node_val B es p"
    and "q \<le> p" "p < q + tree_size (node_height p)" "node_height q = 0"
  shows "ds ! leaves_before q = es ! leaves_before q"
  using assms(3-6)
proof (induction p rule: less_induct)
  case (less p)
  have "B (node_input B ds p) = B (node_input B es p)"
    using less.prems(2) unfolding node_val_input [of B ds p] node_val_input [of B es p] .
  then have inp: "node_input B ds p = node_input B es p"
    by (rule inj_onD [OF assms(2)]) (use less.prems(1) in auto)
  show ?case
  proof (cases "node_height p")
    case 0
    then have "q = p" using less.prems(3,4) by simp
    then show ?thesis using inp 0 by (simp add: node_input_def)
  next
    case (Suc h)
    obtain H where H: "p < tree_size H" using node_height_lt_tree by blast
    note ch = node_height_children [OF H Suc]
    let ?l = "p - 2 ^ Suc h" and ?r = "p - 1"
    have lr: "?l < p" "?r < p" using node_height_pos [of p] Suc by simp_all
    have "big_bytes (node_val B ds ?l) @ big_bytes (node_val B ds ?r) = big_bytes (node_val B es ?l) @ big_bytes (node_val B es ?r)"
      using inp Suc by (simp add: node_input_def)
    then have eqs: "node_val B ds ?l = node_val B es ?l" "node_val B ds ?r = node_val B es ?r"
      using node_val_length [OF assms(1)] by (auto intro!: BigInt_eqI)
    have "q \<noteq> p" using assms(7) Suc by auto
    then have q: "q \<le> ?r" using less.prems(3) by simp
    have sz: "tree_size (node_height p) = Suc (2 * tree_size h)" using Suc by simp
    have ts: "2 ^ Suc h = Suc (tree_size h)" by (simp only: Suc_tree_size)
    show ?thesis
    proof (cases "?r < q + tree_size h")
      case True
      then show ?thesis using less.IH [of ?r] lr eqs(2) q ch less.prems(1) by simp
    next
      case False
      then have "q \<le> ?l" using ts by simp
      moreover have "?l < q + tree_size h" 
        using less.prems(4) conjunct1 [OF ch] tree_size_pos [of h] unfolding sz ts by linarith
      ultimately show ?thesis using less.IH [of ?l] lr eqs(1) ch less.prems(1) by simp
    qed
  qed
qed

lemma bag_peaks_binding:
  assumes "length hs = length gs" "\<forall>h\<in>set hs. length (big_bytes h) = 32" "\<forall>h\<in>set gs. length (big_bytes h) = 32"
    "inj_on B (bag_inputs B n hs \<union> bag_inputs B n gs)" "bag_peaks B n hs = bag_peaks B n gs"
  shows "hs = gs"
  using assms
proof (induction hs gs rule: list_induct2)
  case (Cons h hs g gs)
  show ?case
  proof (cases hs)
    case Nil
    then show ?thesis using Cons by simp
  next
    case (Cons h' hs')
    then obtain g' gs' where gs: "gs = g' # gs'" using Cons.hyps by (cases gs) auto
    let ?x = "be_bytes (of_nat n :: u64) @ big_bytes h @ big_bytes (bag_peaks B n hs)"
    let ?y = "be_bytes (of_nat n :: u64) @ big_bytes g @ big_bytes (bag_peaks B n gs)"
    have "B ?x = B ?y" using Cons.prems(4) Cons gs by simp
    then have "?x = ?y" by (rule inj_onD [OF Cons.prems(3)]) (simp_all add: Cons gs)
    then have eq: "h = g" "bag_peaks B n hs = bag_peaks B n gs"
      using Cons.prems(1,2) by (auto intro!: BigInt_eqI)
    have "inj_on B (bag_inputs B n hs \<union> bag_inputs B n gs)"
      by (rule inj_on_subset [OF Cons.prems(3)]) (auto simp: Cons gs)
    then show ?thesis using eq Cons.IH Cons.prems(1,2) by simp
  qed
qed simp

lemma mountains_shift: "mountains k n (a + off) = map ((+) a) (mountains k n off)"
proof (induction k arbitrary: n off)
  case (Suc k)
  have "a + off + tree_size k - 1 = a + (off + tree_size k - 1)" using tree_size_pos [of k] by linarith
  then show ?case using Suc.IH [of n off] Suc.IH [of "n - 2 ^ k" "off + tree_size k"] by (simp add: add.assoc)
qed simp

text \<open>Every position belongs to the tree below one of the peaks.\<close>

lemma mountains_cover:
  "n < 2 ^ k \<Longrightarrow> q < leaf_pos n \<Longrightarrow>
     \<exists>p\<in>set (mountains k n 0). q \<le> p \<and> p < q + tree_size (node_height p)"
proof (induction k arbitrary: n q)
  case (Suc k)
  from Suc.prems(1) show ?case
  proof (cases rule: bit_split_cases)
    case low
    then show ?thesis using Suc by simp
  next
    case (high m)
    have mt: "mountains (Suc k) n 0 = (tree_size k - 1) # map ((+) (tree_size k)) (mountains k m 0)"
      using high mountains_shift [of k m "tree_size k" 0] by simp
    show ?thesis
    proof (cases "q < tree_size k")
      case True
      then show ?thesis unfolding mt using node_height_root [of k] by (intro bexI [of _ "tree_size k - 1"]) auto
    next
      case False
      define q' where "q' = q - tree_size k"
      have q: "q = tree_size k + q'" "q' < leaf_pos m"
        using False Suc.prems(2) high leaf_pos_top [OF high(2)] by (simp_all add: q'_def)
      obtain p where p: "p \<in> set (mountains k m 0)" "q' \<le> p" "p < q' + tree_size (node_height p)"
        using Suc.IH [OF high(2) q(2)] by blast
      have "p < tree_size k" using mountains_less [OF high(2) p(1)] leaf_pos_less_tree [OF high(2)] by simp
      then have "node_height (tree_size k + p) = node_height p" by (rule node_height_shift)
      then show ?thesis unfolding mt using p q by (intro bexI [of _ "tree_size k + p"]) auto
    qed
  qed
qed simp

lemma mmr_root_binding:
  assumes "hash32 B" "length ds = length es" "length ds < 2 ^ 61"
    "inj_on B (hashed_inputs B ds \<union> hashed_inputs B es)" "mmr_root B ds = mmr_root B es"
  shows "ds = es"
proof -
  let ?n = "length ds" and ?m = "leaf_pos (length ds)" and ?ps = "mountains 63 (length ds) 0"
  have "?n < 2 ^ 63" using assms(3) by simp
  have "map (node_val B ds) ?ps = map (node_val B es) ?ps"
  proof (rule bag_peaks_binding [of _ _ B ?m])
    show "inj_on B (bag_inputs B ?m (map (node_val B ds) ?ps) \<union> bag_inputs B ?m (map (node_val B es) ?ps))"
      by (rule inj_on_subset [OF assms(4)]) (use assms(2) in \<open>auto simp: hashed_inputs_def\<close>)
  qed (use assms(1,2,5) in \<open>auto simp: node_val_length mmr_root_def\<close>)
  then have peaks: "node_val B ds p = node_val B es p" if "p \<in> set ?ps" for p using that by simp
  have inj: "inj_on B (node_input B ds ` {..<?m} \<union> node_input B es ` {..<?m})"
    by (rule inj_on_subset [OF assms(4)]) (use assms(2) in \<open>auto simp: hashed_inputs_def\<close>)
  show ?thesis
  proof (rule nth_equalityI [OF assms(2)])
    fix i assume i: "i < ?n"
    then obtain p where p: "p \<in> set ?ps" "leaf_pos i \<le> p" "p < leaf_pos i + tree_size (node_height p)"
      using mountains_cover [OF \<open>?n < 2 ^ 63\<close>, of "leaf_pos i"] by auto
    have "p < ?m" using mountains_less [OF \<open>?n < 2 ^ 63\<close> p(1)] by simp
    then show "ds ! i = es ! i"
      using node_val_binding [OF assms(1) inj _ peaks [OF p(1)] p(2,3)] by simp
  qed
qed


lemma hashed_inputs_single: "hashed_inputs B [d] = {be_bytes (0 :: u64) @ d}"
proof -
  have "mountains 63 1 0 = mountains (Suc 0) 1 0" by (rule mountains_larger) simp_all
  then have "mountains 63 1 0 = [0]" by simp
  moreover have "leaf_pos 1 = 1" using leaf_pos_top [of 0 0] by simp
  ultimately show ?thesis by (simp add: hashed_inputs_def node_input_def lessThan_Suc)
qed


end
