(* ===== verification/MW_Files.thy ===== *)
theory MW_Files
  imports MW_Util
begin

text \<open>
  The file layer: \<^verbatim>\<open>file/FilePath.h\<close>, \<^verbatim>\<open>file/File.h\<close> with \<^verbatim>\<open>src/file/File.cpp\<close>, \<^verbatim>\<open>file/MemMap.h\<close>,
  \<^verbatim>\<open>file/AppendOnlyFile.h\<close> and \<^verbatim>\<open>file/BitmapFile.h\<close>. The file system of the standard library is a finite
  map from paths to directories and regular files with their bytes; operations that touch it take it as
  an argument and return it. Failures that the state of the file system determines (a missing file, a
  missing parent, a directory in the way) are the exceptions of the code; failures of the device
  (permissions, full disk) are not modelled. A memory map is the snapshot of the file at the time it was
  mapped. \<^verbatim>\<open>File::Truncate\<close> is the Windows branch; the other branch does not compile.
\<close>

section \<open>Paths and the file system\<close>

text \<open>A path is the list of its components; the root directory is the component \<^verbatim>\<open>/\<close>.\<close>

type_synonym fspath = "string list"

datatype fs_entry = Dir | RegFile bytes

type_synonym fsys = "fspath \<Rightarrow> fs_entry option"

definition parent_path :: "fspath \<Rightarrow> fspath" where
  "parent_path p = (if p = [''/''] then p else butlast p)"

definition path_string :: "fspath \<Rightarrow> string" where
  "path_string p = concat (map (\<lambda>c. if c = ''/'' then [] else c @ ''/'') p)"

definition FilePath_GetChild :: "fspath \<Rightarrow> string \<Rightarrow> fspath" where
  "FilePath_GetChild p filename = p @ [filename]"

definition FilePath_GetParent :: "fspath \<Rightarrow> fspath result" where
  "FilePath_GetParent p =
     (if parent_path p = [] then Inl (FileException (''Can't find parent path for '' @ path_string p))
      else Inr (parent_path p))"

definition FilePath_Exists :: "fspath \<Rightarrow> fsys \<Rightarrow> bool" where
  "FilePath_Exists p fs \<longleftrightarrow> fs p \<noteq> None"

definition FilePath_IsDirectory :: "fspath \<Rightarrow> fsys \<Rightarrow> bool" where
  "FilePath_IsDirectory p fs \<longleftrightarrow> fs p = Some Dir"

text \<open>\<^verbatim>\<open>create_directories\<close>: every missing directory on the path is created, from the top down.\<close>

definition mkdir :: "fspath \<Rightarrow> fsys \<Rightarrow> fsys option" where
  "mkdir p fs =
     (case fs p of None \<Rightarrow> Some (fs(p \<mapsto> Dir)) | Some Dir \<Rightarrow> Some fs | Some (RegFile _) \<Rightarrow> None)"

primrec mkdirs :: "fspath list \<Rightarrow> fsys \<Rightarrow> fsys option" where
  "mkdirs [] fs = Some fs"
| "mkdirs (p # ps) fs = (case mkdir p fs of None \<Rightarrow> None | Some fs' \<Rightarrow> mkdirs ps fs')"

definition FilePath_CreateDirIfMissing :: "fspath \<Rightarrow> fsys \<Rightarrow> fsys result" where
  "FilePath_CreateDirIfMissing p fs =
     (case mkdirs (map (\<lambda>n. take n p) [1..<Suc (length p)]) fs of
        Some fs' \<Rightarrow> Inr fs'
      | None \<Rightarrow>
          if \<not> FilePath_Exists p fs \<or> \<not> FilePath_IsDirectory p fs
          then Inl (FileException (''Error while trying to create directory '' @ path_string p))
          else Inr fs)"

definition FilePath_Remove :: "fspath \<Rightarrow> fsys \<Rightarrow> fsys" where
  "FilePath_Remove p fs = (\<lambda>q. if take (length p) q = p then None else fs q)"

section \<open>File\<close>

text \<open>Opening a stream for output: the bytes it starts from, or failure.\<close>

definition open_out :: "fspath \<Rightarrow> fsys \<Rightarrow> bytes option" where
  "open_out p fs =
     (case fs p of
        Some (RegFile bs) \<Rightarrow> Some bs
      | Some Dir \<Rightarrow> None
      | None \<Rightarrow> if fs (parent_path p) = Some Dir then Some [] else None)"

definition File_Create :: "fspath \<Rightarrow> fsys \<Rightarrow> fsys result" where
  "File_Create p fs =
     rbind (FilePath_GetParent p) (\<lambda>parent.
     rbind (FilePath_CreateDirIfMissing parent fs) (\<lambda>fs.
       case fs p of
         Some (RegFile bs) \<Rightarrow> Inr fs
       | _ \<Rightarrow> (case open_out p fs of
                None \<Rightarrow> Inl (FileException (''Failed to create file: '' @ path_string p))
              | Some _ \<Rightarrow> Inr (fs(p \<mapsto> RegFile [])))))"

definition File_Truncate :: "fspath \<Rightarrow> u64 \<Rightarrow> fsys \<Rightarrow> fsys result" where
  "File_Truncate p sz fs =
     (case fs p of
        Some (RegFile bs) \<Rightarrow>
          if unat sz < 2 ^ 63 then Inr (fs(p \<mapsto> RegFile (vec_resize 0 (unat sz) bs)))
          else Inl (FileException (''Failed to truncate '' @ path_string p))
      | _ \<Rightarrow> Inl (FileException (''Failed to truncate '' @ path_string p)))"

definition File_Rename :: "fspath \<Rightarrow> string \<Rightarrow> fsys \<Rightarrow> (fspath \<times> fsys) result" where
  "File_Rename p filename fs =
     (if FilePath_IsDirectory p fs then Inl (FileException ''Rename not implemented for directories'')
      else rbind (FilePath_GetParent p) (\<lambda>parent.
        if parent = p then Inl (FileException (''Can't find parent path for '' @ path_string p))
        else let destination = FilePath_GetChild parent filename;
                 fs = (if FilePath_Exists destination fs then FilePath_Remove destination fs else fs)
             in case fs p of
                  Some (RegFile bs) \<Rightarrow> Inr (destination, (fs(p := None))(destination \<mapsto> RegFile bs))
                | _ \<Rightarrow> Inl (FileException (''Failed to rename '' @ path_string p @ '' to '' @ path_string destination))))"

definition File_ReadBytes :: "fspath \<Rightarrow> fsys \<Rightarrow> bytes result" where
  "File_ReadBytes p fs =
     (case fs p of
        None \<Rightarrow> Inl (FileException (path_string p @ '' not found''))
      | Some Dir \<Rightarrow> Inl (FileException (''Failed to open '' @ path_string p @ '' for reading''))
      | Some (RegFile bs) \<Rightarrow> Inr bs)"

definition File_Write :: "fspath \<Rightarrow> bytes \<Rightarrow> fsys \<Rightarrow> fsys result" where
  "File_Write p bs fs =
     (case open_out p fs of
        None \<Rightarrow> Inl (FileException (''Failed to write to file: '' @ path_string p))
      | Some old \<Rightarrow> Inr (fs(p \<mapsto> RegFile (old @ bs))))"

text \<open>
  The stream is opened with \<^verbatim>\<open>std::ios::app\<close>: every write goes to the end of the file, and the
  \<^verbatim>\<open>seekp(startIndex)\<close> before it has no effect.
\<close>

definition File_Write_at :: "fspath \<Rightarrow> u64 \<Rightarrow> bytes \<Rightarrow> bool \<Rightarrow> fsys \<Rightarrow> fsys result" where
  "File_Write_at p startIndex bs truncate fs =
     rbind (if bs \<noteq> []
            then case open_out p fs of
                   None \<Rightarrow> Inl (FileException (''Failed to write to file: '' @ path_string p))
                 | Some old \<Rightarrow> Inr (fs(p \<mapsto> RegFile (old @ bs)))
            else Inr fs) (\<lambda>fs.
       if truncate then File_Truncate p (startIndex + of_nat (length bs)) fs else Inr fs)"

text \<open>Writing one byte at a position, past the end too (the gap is filled with zeros).\<close>

definition poke :: "bytes \<Rightarrow> nat \<Rightarrow> u8 \<Rightarrow> bytes" where
  "poke bs i b = (if i < length bs then bs[i := b] else bs @ replicate (i - length bs) 0 @ [b])"

definition File_WriteBytes :: "fspath \<Rightarrow> (u64 \<times> u8) list \<Rightarrow> fsys \<Rightarrow> fsys" where
  "File_WriteBytes p kvs fs =
     (case fs p of
        Some (RegFile bs) \<Rightarrow> fs(p \<mapsto> RegFile (fold (\<lambda>(i, b) c. poke c (unat i) b) kvs bs))
      | _ \<Rightarrow> fs)"

definition File_GetSize :: "fspath \<Rightarrow> fsys \<Rightarrow> u64 result" where
  "File_GetSize p fs =
     (case fs p of
        Some (RegFile bs) \<Rightarrow> Inr (of_nat (length bs))
      | _ \<Rightarrow> Inl (FileException (''Failed to determine size of '' @ path_string p)))"

section \<open>MemMap\<close>

record MemMap =
  mm_path :: fspath
  mm_view :: bytes
  m_mapped :: bool

definition new_MemMap :: "fspath \<Rightarrow> MemMap" where
  "new_MemMap p = \<lparr>mm_path = p, mm_view = [], m_mapped = False\<rparr>"

definition MemMap_Map :: "MemMap \<Rightarrow> fsys \<Rightarrow> MemMap result" where
  "MemMap_Map m fs =
     rbind (File_GetSize (mm_path m) fs) (\<lambda>sz.
       if sz > 0
       then rbind (File_ReadBytes (mm_path m) fs) (\<lambda>bs. Inr (m\<lparr>mm_view := bs, m_mapped := True\<rparr>))
       else Inr m)"

definition MemMap_Unmap :: "MemMap \<Rightarrow> MemMap" where
  "MemMap_Unmap m = (if m_mapped m then m\<lparr>mm_view := [], m_mapped := False\<rparr> else m)"

definition MemMap_Read :: "MemMap \<Rightarrow> u64 \<Rightarrow> u64 \<Rightarrow> bytes result" where
  "MemMap_Read m position numBytes =
     (if unat position + unat numBytes \<le> length (mm_view m)
      then Inr (take (unat numBytes) (drop (unat position) (mm_view m)))
      else Inl UndefinedBehaviour)"

definition MemMap_ReadByte :: "MemMap \<Rightarrow> u64 \<Rightarrow> u8 result" where
  "MemMap_ReadByte m position = vec_at (mm_view m) (unat position)"

definition MemMap_empty :: "MemMap \<Rightarrow> bool" where
  "MemMap_empty m \<longleftrightarrow> mm_view m = []"

definition MemMap_size :: "MemMap \<Rightarrow> u64" where
  "MemMap_size m = of_nat (length (mm_view m))"

section \<open>AppendOnlyFile\<close>

record AppendOnlyFile =
  af_path :: fspath
  af_mmap :: MemMap
  m_fileSize :: u64
  m_bufferIndex :: u64
  m_buffer :: bytes

definition new_AppendOnlyFile :: "fspath \<Rightarrow> u64 \<Rightarrow> AppendOnlyFile" where
  "new_AppendOnlyFile p fileSize =
     \<lparr>af_path = p, af_mmap = new_MemMap p, m_fileSize = fileSize, m_bufferIndex = fileSize, m_buffer = []\<rparr>"

definition AppendOnlyFile_Load :: "fspath \<Rightarrow> fsys \<Rightarrow> (AppendOnlyFile \<times> fsys) result" where
  "AppendOnlyFile_Load p fs =
     rbind (File_Create p fs) (\<lambda>fs.
     rbind (File_GetSize p fs) (\<lambda>sz.
       let af = new_AppendOnlyFile p sz in
       rbind (MemMap_Map (af_mmap af) fs) (\<lambda>mm. Inr (af\<lparr>af_mmap := mm\<rparr>, fs))))"

definition AppendOnlyFile_Commit :: "AppendOnlyFile \<Rightarrow> fsys \<Rightarrow> (AppendOnlyFile \<times> fsys) result" where
  "AppendOnlyFile_Commit af fs =
     (if m_fileSize af = m_bufferIndex af \<and> m_buffer af = [] then Inr (af, fs)
      else if m_fileSize af < m_bufferIndex af
      then Inl (FileException (''Buffer index is past the end of '' @ path_string (af_path af)))
      else let mm = MemMap_Unmap (af_mmap af) in
        rbind (File_Write_at (af_path af) (m_bufferIndex af) (m_buffer af) True fs) (\<lambda>fs.
        rbind (File_GetSize (af_path af) fs) (\<lambda>sz.
        rbind (MemMap_Map mm fs) (\<lambda>mm.
          Inr (af\<lparr>af_mmap := mm, m_fileSize := sz, m_bufferIndex := sz, m_buffer := []\<rparr>, fs)))))"

definition AppendOnlyFile_Rollback :: "AppendOnlyFile \<Rightarrow> AppendOnlyFile" where
  "AppendOnlyFile_Rollback af = af\<lparr>m_bufferIndex := m_fileSize af, m_buffer := []\<rparr>"

definition AppendOnlyFile_Append :: "bytes \<Rightarrow> AppendOnlyFile \<Rightarrow> AppendOnlyFile" where
  "AppendOnlyFile_Append data af = af\<lparr>m_buffer := m_buffer af @ data\<rparr>"

definition AppendOnlyFile_GetSize :: "AppendOnlyFile \<Rightarrow> u64" where
  "AppendOnlyFile_GetSize af = m_bufferIndex af + of_nat (length (m_buffer af))"

definition AppendOnlyFile_Rewind :: "u64 \<Rightarrow> AppendOnlyFile \<Rightarrow> AppendOnlyFile result" where
  "AppendOnlyFile_Rewind nextPosition af =
     (if nextPosition > m_bufferIndex af + of_nat (length (m_buffer af))
      then Inl (FileException (''Tried to rewind past end of '' @ path_string (af_path af)))
      else if nextPosition \<le> m_bufferIndex af
      then Inr (af\<lparr>m_buffer := [], m_bufferIndex := nextPosition\<rparr>)
      else rbind (byte_range (m_buffer af) 0 (nextPosition - m_bufferIndex af)) (\<lambda>keep.
        Inr (af\<lparr>m_buffer := keep\<rparr>)))"

definition AppendOnlyFile_Read :: "AppendOnlyFile \<Rightarrow> u64 \<Rightarrow> u64 \<Rightarrow> bytes result" where
  "AppendOnlyFile_Read af position numBytes =
     (if position + numBytes > m_bufferIndex af + of_nat (length (m_buffer af))
      then Inl (FileException (''Tried to read past end of '' @ path_string (af_path af)))
      else if position < m_bufferIndex af then MemMap_Read (af_mmap af) position numBytes
      else byte_range (m_buffer af) (position - m_bufferIndex af) (position - m_bufferIndex af + numBytes))"

subsection \<open>AppendOnlyFile as one growing byte string\<close>

definition file_bytes :: "fspath \<Rightarrow> fsys \<Rightarrow> bytes" where
  "file_bytes p fs = (case fs p of Some (RegFile bs) \<Rightarrow> bs | _ \<Rightarrow> [])"

text \<open>
  The invariant: the file exists, its size is the recorded one, the map shows its bytes, and the buffer
  index is inside the file. \<open>af_content\<close> is the byte string the object stands for.
\<close>

definition af_inv :: "AppendOnlyFile \<Rightarrow> fsys \<Rightarrow> bool" where
  "af_inv af fs \<longleftrightarrow>
     (let c = file_bytes (af_path af) fs in
      fs (af_path af) = Some (RegFile c) \<and> unat (m_fileSize af) = length c \<and>
      unat (m_bufferIndex af) \<le> length c \<and> af_mmap af = \<lparr>mm_path = af_path af, mm_view = c, m_mapped = (c \<noteq> [])\<rparr> \<and>
      length c + length (m_buffer af) < 2 ^ 63)"

definition af_content :: "AppendOnlyFile \<Rightarrow> fsys \<Rightarrow> bytes" where
  "af_content af fs = take (unat (m_bufferIndex af)) (file_bytes (af_path af) fs) @ m_buffer af"

lemma af_invD:
  assumes "af_inv af fs"
  shows "fs (af_path af) = Some (RegFile (file_bytes (af_path af) fs))"
    "unat (m_fileSize af) = length (file_bytes (af_path af) fs)"
    "unat (m_bufferIndex af) \<le> length (file_bytes (af_path af) fs)"
    "mm_view (af_mmap af) = file_bytes (af_path af) fs"
    "length (file_bytes (af_path af) fs) + length (m_buffer af) < 2 ^ 63"
    "mm_path (af_mmap af) = af_path af"
  using assms by (simp_all add: af_inv_def Let_def)

lemma file_bytes_eq: "fs p = Some (RegFile c) \<Longrightarrow> file_bytes p fs = c"
  by (simp add: file_bytes_def)

lemma length_af_content:
  "af_inv af fs \<Longrightarrow> length (af_content af fs) = unat (m_bufferIndex af) + length (m_buffer af)"
  using af_invD(3) [of af fs] by (simp add: af_content_def)

lemma GetSize_content:
  assumes "af_inv af fs"
  shows "AppendOnlyFile_GetSize af = of_nat (length (af_content af fs))"
    and "unat (AppendOnlyFile_GetSize af) = length (af_content af fs)"
proof -
  show 1: "AppendOnlyFile_GetSize af = of_nat (length (af_content af fs))"
    by (simp add: AppendOnlyFile_GetSize_def length_af_content [OF assms])
  have "length (af_content af fs) < 2 ^ 64"
    using af_invD(3,5) [OF assms] by (simp add: length_af_content [OF assms])
  then show "unat (AppendOnlyFile_GetSize af) = length (af_content af fs)" unfolding 1 by (rule unat_of_nat_u64)
qed

lemma Append_content:
  assumes "af_inv af fs" "length (file_bytes (af_path af) fs) + length (m_buffer af) + length data < 2 ^ 63"
  shows "af_inv (AppendOnlyFile_Append data af) fs"
    and "af_content (AppendOnlyFile_Append data af) fs = af_content af fs @ data"
  using assms by (simp_all add: af_inv_def af_content_def AppendOnlyFile_Append_def Let_def)

lemma Rollback_content:
  assumes "af_inv af fs"
  shows "af_inv (AppendOnlyFile_Rollback af) fs"
    and "af_content (AppendOnlyFile_Rollback af) fs = file_bytes (af_path af) fs"
  using assms by (simp_all add: af_inv_def af_content_def AppendOnlyFile_Rollback_def Let_def)

lemma Rewind_content:
  assumes "af_inv af fs"
  shows "unat n \<le> length (af_content af fs) \<Longrightarrow>
      \<exists>af'. AppendOnlyFile_Rewind n af = Inr af' \<and> af_inv af' fs \<and> af_path af' = af_path af \<and>
        af_content af' fs = take (unat n) (af_content af fs)"
    and "length (af_content af fs) < unat n \<Longrightarrow>
      AppendOnlyFile_Rewind n af = Inl (FileException (''Tried to rewind past end of '' @ path_string (af_path af)))"
proof -
  let ?c = "file_bytes (af_path af) fs" and ?i = "m_bufferIndex af"
  note inv = af_invD [OF assms]
  have sz: "m_bufferIndex af + of_nat (length (m_buffer af)) = AppendOnlyFile_GetSize af"
    by (simp add: AppendOnlyFile_GetSize_def)
  have cmp: "n > AppendOnlyFile_GetSize af \<longleftrightarrow> length (af_content af fs) < unat n"
    by (simp add: word_less_nat_alt GetSize_content(2) [OF assms])
  show "length (af_content af fs) < unat n \<Longrightarrow>
      AppendOnlyFile_Rewind n af = Inl (FileException (''Tried to rewind past end of '' @ path_string (af_path af)))"
    by (simp add: AppendOnlyFile_Rewind_def sz cmp)
  assume le: "unat n \<le> length (af_content af fs)"
  show "\<exists>af'. AppendOnlyFile_Rewind n af = Inr af' \<and> af_inv af' fs \<and> af_path af' = af_path af \<and>
        af_content af' fs = take (unat n) (af_content af fs)"
  proof (cases "n \<le> ?i")
    case True
    then have "unat n \<le> unat ?i" by (simp add: word_le_nat_alt)
    then show ?thesis
      using assms le True inv by (simp add: AppendOnlyFile_Rewind_def sz cmp af_inv_def af_content_def Let_def min_absorb1)
  next
    case False
    then have d: "unat (n - ?i) = unat n - unat ?i" by (intro unat_sub_no_wrap) (simp add: word_le_nat_alt)
    have k: "unat n - unat ?i \<le> length (m_buffer af)" using le by (simp add: length_af_content [OF assms])
    have "byte_range (m_buffer af) 0 (n - ?i) = Inr (take (unat n - unat ?i) (m_buffer af))"
      using k d by (simp add: byte_range_def)
    moreover have "af_inv (af\<lparr>m_buffer := take (unat n - unat ?i) (m_buffer af)\<rparr>) fs"
      using assms k by (auto simp: af_inv_def Let_def)
    moreover have "unat ?i \<le> unat n" using False by (simp add: word_le_nat_alt)
    then have "take (unat n) (af_content af fs) = take (unat ?i) ?c @ take (unat n - unat ?i) (m_buffer af)"
      using inv(3) by (simp add: af_content_def)
    ultimately show ?thesis
      using False le by (simp add: AppendOnlyFile_Rewind_def sz cmp af_content_def)
  qed
qed

text \<open>Reading: correct when the range lies on one side of the buffer index.\<close>

lemma Read_content:
  assumes "af_inv af fs" "pos + n \<le> length (af_content af fs)"
    and "pos + n \<le> unat (m_bufferIndex af) \<or> unat (m_bufferIndex af) \<le> pos"
  shows "AppendOnlyFile_Read af (of_nat pos) (of_nat n) = Inr (take n (drop pos (af_content af fs)))"
proof -
  let ?c = "file_bytes (af_path af) fs" and ?i = "m_bufferIndex af"
  note inv = af_invD [OF assms(1)]
  have len: "length (af_content af fs) < 2 ^ 63" using inv(3,5) by (simp add: length_af_content [OF assms(1)])
  then have u: "unat (of_nat pos :: u64) = pos" "unat (of_nat n :: u64) = n" "unat (of_nat pos + of_nat n :: u64) = pos + n"
    using assms(2) by (simp_all add: unat_of_nat_u64 flip: of_nat_add)
  have sz: "m_bufferIndex af + of_nat (length (m_buffer af)) = AppendOnlyFile_GetSize af"
    by (simp add: AppendOnlyFile_GetSize_def)
  have ok: "\<not> of_nat pos + of_nat n > AppendOnlyFile_GetSize af"
    using assms(2) by (simp add: word_less_nat_alt GetSize_content(2) [OF assms(1)] u)
  show ?thesis
  proof (cases "(of_nat pos :: u64) < ?i")
    case True
    then have lt: "pos < unat ?i" by (simp add: word_less_nat_alt u)
    then have le: "pos + n \<le> unat ?i" using assms(3) by simp
    have "take n (drop pos (af_content af fs)) = take n (drop pos ?c)"
      using le inv(3) by (simp add: af_content_def drop_take min_absorb1)
    then show ?thesis
      using True ok le inv(3,4) u by (simp add: AppendOnlyFile_Read_def sz MemMap_Read_def)
  next
    case False
    then have ge: "unat ?i \<le> pos" by (simp add: word_less_nat_alt u)
    have d: "unat (of_nat pos - ?i) = pos - unat ?i"
      using ge u(1) by (subst unat_sub_no_wrap) simp_all
    have r: "pos - unat ?i + n \<le> length (m_buffer af)" using ge assms(2) by (simp add: length_af_content [OF assms(1)])
    have s: "unat (of_nat pos - ?i + of_nat n) = pos - unat ?i + n"
      using r inv(5) d u(2) by (subst unat_add_no_wrap) simp_all
    have "take n (drop pos (af_content af fs)) = take n (drop (pos - unat ?i) (m_buffer af))"
      using ge inv(3) by (simp add: af_content_def)
    then show ?thesis
      using False ok r d s by (simp add: AppendOnlyFile_Read_def sz byte_range_def word_le_nat_alt)
  qed
qed

lemma Map_new:
  assumes "fs p = Some (RegFile c)" "length c < 2 ^ 63"
  shows "MemMap_Map (new_MemMap p) fs = Inr \<lparr>mm_path = p, mm_view = c, m_mapped = (c \<noteq> [])\<rparr>"
proof -
  have "(of_nat (length c) :: u64) > 0 \<longleftrightarrow> c \<noteq> []"
    using assms(2) by (simp add: word_less_nat_alt unat_of_nat_u64)
  then show ?thesis
    using assms(1) by (auto simp: MemMap_Map_def File_GetSize_def File_ReadBytes_def new_MemMap_def)
qed

text \<open>What \<^verbatim>\<open>Commit\<close> leaves in the file, in every case.\<close>

lemma Commit_file:
  assumes "af_inv af fs"
  defines "c' \<equiv> take (unat (m_bufferIndex af) + length (m_buffer af)) (file_bytes (af_path af) fs @ m_buffer af)"
  shows "\<exists>af' fs'. AppendOnlyFile_Commit af fs = Inr (af', fs') \<and> af_inv af' fs' \<and> af_path af' = af_path af \<and>
    file_bytes (af_path af) fs' = c' \<and> af_content af' fs' = c' \<and> (\<forall>q. q \<noteq> af_path af \<longrightarrow> fs' q = fs q) \<and>
    m_buffer af' = [] \<and> m_bufferIndex af' = m_fileSize af'"
proof -
  let ?c = "file_bytes (af_path af) fs" and ?i = "unat (m_bufferIndex af)" and ?p = "af_path af" and ?b = "m_buffer af"
  note inv = af_invD [OF assms(1)]
  show ?thesis
  proof (cases "m_fileSize af = m_bufferIndex af \<and> ?b = []")
    case True
    then have "c' = ?c" using inv(2) by (simp add: c'_def)
    then show ?thesis
      using True assms(1) inv(2) by (simp add: AppendOnlyFile_Commit_def af_content_def)
  next
    case False
    have nlt: "\<not> m_fileSize af < m_bufferIndex af" using inv(2,3) by (simp add: word_less_nat_alt)
    have len: "?i + length ?b < 2 ^ 63" using inv(3,5) by simp
    have u: "unat (m_bufferIndex af + of_nat (length ?b)) = ?i + length ?b"
      using len by (subst unat_add_no_wrap) (simp_all add: unat_of_nat_u64)
    have lc: "length c' = ?i + length ?b" using inv(3) by (simp add: c'_def)
    let ?fs' = "fs(?p \<mapsto> RegFile c')"
    have un: "MemMap_Unmap (af_mmap af) = new_MemMap ?p"
      using assms(1) by (auto simp: af_inv_def MemMap_Unmap_def new_MemMap_def Let_def)
    have wr: "File_Write_at ?p (m_bufferIndex af) ?b True fs = Inr ?fs'"
      using inv(1,3) len u by (auto simp: File_Write_at_def open_out_def File_Truncate_def c'_def vec_resize_take)
    have gs: "File_GetSize ?p ?fs' = Inr (of_nat (length c'))" by (simp add: File_GetSize_def)
    have mp: "MemMap_Map (new_MemMap ?p) ?fs' = Inr \<lparr>mm_path = ?p, mm_view = c', m_mapped = (c' \<noteq> [])\<rparr>"
      using len lc by (intro Map_new) simp_all
    have fb: "file_bytes ?p ?fs' = c'" by (simp add: file_bytes_def)
    let ?af' = "af\<lparr>af_mmap := \<lparr>mm_path = ?p, mm_view = c', m_mapped = (c' \<noteq> [])\<rparr>,
        m_fileSize := of_nat (length c'), m_bufferIndex := of_nat (length c'), m_buffer := []\<rparr>"
    have eq: "AppendOnlyFile_Commit af fs = Inr (?af', ?fs')"
      unfolding AppendOnlyFile_Commit_def if_not_P [OF False] if_not_P [OF nlt] by (simp add: Let_def un wr gs mp)
    have uc: "unat (of_nat (length c') :: u64) = length c'" using len lc by (intro unat_of_nat_u64) simp
    have "af_inv ?af' ?fs'" using len lc fb uc by (simp add: af_inv_def Let_def)
    moreover have "af_content ?af' ?fs' = c'" using fb uc by (simp add: af_content_def)
    ultimately show ?thesis using eq fb by auto
  qed
qed

lemma Load_existing:
  assumes "fs p = Some (RegFile c)" "length c < 2 ^ 63" "parent_path p \<noteq> []"
    and "FilePath_CreateDirIfMissing (parent_path p) fs = Inr fs"
  shows "\<exists>af. AppendOnlyFile_Load p fs = Inr (af, fs) \<and> af_inv af fs \<and> af_content af fs = c \<and> af_path af = p"
proof -
  let ?af = "(new_AppendOnlyFile p (of_nat (length c)))\<lparr>af_mmap := \<lparr>mm_path = p, mm_view = c, m_mapped = (c \<noteq> [])\<rparr>\<rparr>"
  have "AppendOnlyFile_Load p fs = Inr (?af, fs)"
    using assms by (simp add: AppendOnlyFile_Load_def File_Create_def FilePath_GetParent_def File_GetSize_def
        new_AppendOnlyFile_def Map_new)
  moreover have "unat (of_nat (length c) :: u64) = length c" using assms(2) by (intro unat_of_nat_u64) simp
  ultimately show ?thesis
    using assms(1,2) by (auto simp: af_inv_def af_content_def file_bytes_def new_AppendOnlyFile_def Let_def)
qed


definition af_example :: AppendOnlyFile where
  "af_example = \<lparr>af_path = [''/'', ''f''], af_mmap = \<lparr>mm_path = [''/'', ''f''], mm_view = [1, 2, 3], m_mapped = True\<rparr>,
     m_fileSize = 3, m_bufferIndex = 3, m_buffer = [4]\<rparr>"

definition fs_example :: fsys where
  "fs_example = [[''/''] \<mapsto> Dir, [''/'', ''f''] \<mapsto> RegFile [1, 2, 3]]"

lemma af_example_inv: "af_inv af_example fs_example"
  by (simp add: af_inv_def af_example_def fs_example_def file_bytes_def)


text \<open>
  C9. After the file has been rewound and new bytes appended, \<open>Commit\<close> does not write the byte string the
  object stands for: the write goes to the end of the file, which is then cut to the right length, so
  that old bytes stay where the new ones belong.
\<close>

theorem AppendOnlyFile_Commit_after_rewind:
  assumes "af_inv af fs" "length (m_buffer af) \<le> length (file_bytes (af_path af) fs) - unat (m_bufferIndex af)"
  shows "\<exists>af' fs'. AppendOnlyFile_Commit af fs = Inr (af', fs') \<and>
     file_bytes (af_path af) fs' = take (unat (m_bufferIndex af) + length (m_buffer af)) (file_bytes (af_path af) fs)"
proof -
  have "unat (m_bufferIndex af) + length (m_buffer af) \<le> length (file_bytes (af_path af) fs)"
    using assms(2) af_invD(3) [OF assms(1)] by simp
  then show ?thesis using Commit_file [OF assms(1)] by auto
qed

theorem AppendOnlyFile_Commit_after_rewind_witness:
  "\<exists>af af' fs'. AppendOnlyFile_Rewind 1 (AppendOnlyFile_Rollback af_example) = Inr af \<and>
     af_content (AppendOnlyFile_Append [9] af) fs_example = [1, 9] \<and>
     AppendOnlyFile_Commit (AppendOnlyFile_Append [9] af) fs_example = Inr (af', fs') \<and>
     file_bytes [''/'', ''f''] fs' = [1, 2]"
proof -
  let ?af = "af_example\<lparr>m_bufferIndex := 1, m_buffer := []\<rparr>" and ?a = "af_example\<lparr>m_bufferIndex := 1, m_buffer := [9]\<rparr>"
  have r: "AppendOnlyFile_Rewind 1 (AppendOnlyFile_Rollback af_example) = Inr ?af" "AppendOnlyFile_Append [9] ?af = ?a"
    by (simp_all add: AppendOnlyFile_Rewind_def AppendOnlyFile_Rollback_def AppendOnlyFile_Append_def af_example_def)
  have h: "af_inv ?a fs_example" "length (m_buffer ?a) \<le> length (file_bytes (af_path ?a) fs_example) - unat (m_bufferIndex ?a)"
    by (simp_all add: af_inv_def af_example_def fs_example_def file_bytes_def)
  have c: "af_content ?a fs_example = [1, 9]" "file_bytes (af_path ?a) fs_example = [1, 2, 3]" "af_path ?a = [''/'', ''f'']"
    "unat (m_bufferIndex ?a) = 1" "length (m_buffer ?a) = 1"
    by (simp_all add: af_content_def af_example_def fs_example_def file_bytes_def)
  show ?thesis using AppendOnlyFile_Commit_after_rewind [OF h] r c by (auto simp: numeral_2_eq_2)
qed

section \<open>BitmapFile\<close>

text \<open>\<^verbatim>\<open>std::map<uint64_t, uint8_t>\<close>: an association list sorted by key.\<close>

fun omap_set :: "u64 \<Rightarrow> u8 \<Rightarrow> (u64 \<times> u8) list \<Rightarrow> (u64 \<times> u8) list" where
  "omap_set k v [] = [(k, v)]"
| "omap_set k v ((k', v') # m) =
     (if k < k' then (k, v) # (k', v') # m
      else if k = k' then (k, v) # m
      else (k', v') # omap_set k v m)"

record BitmapFile =
  bm_path :: fspath
  m_modifiedBytes :: "(u64 \<times> u8) list"
  m_memmap :: MemMap
  bm_dirty :: bool

definition BitmapFile_Load :: "fspath \<Rightarrow> fsys \<Rightarrow> (BitmapFile \<times> fsys) result" where
  "BitmapFile_Load p fs =
     (let bm = \<lparr>bm_path = p, m_modifiedBytes = [], m_memmap = new_MemMap p, bm_dirty = False\<rparr> in
      rbind (File_Create p fs) (\<lambda>fs.
      rbind (MemMap_Map (m_memmap bm) fs) (\<lambda>mm. Inr (bm\<lparr>m_memmap := mm\<rparr>, fs))))"

definition BitmapFile_Commit :: "BitmapFile \<Rightarrow> fsys \<Rightarrow> (BitmapFile \<times> fsys) result" where
  "BitmapFile_Commit bm fs =
     (if m_modifiedBytes bm \<noteq> []
      then let mm = MemMap_Unmap (m_memmap bm);
               fs = File_WriteBytes (bm_path bm) (m_modifiedBytes bm) fs
           in rbind (MemMap_Map mm fs) (\<lambda>mm.
                Inr (bm\<lparr>m_modifiedBytes := [], m_memmap := mm, bm_dirty := False\<rparr>, fs))
      else Inr (bm, fs))"

definition BitmapFile_Rollback :: "BitmapFile \<Rightarrow> BitmapFile" where
  "BitmapFile_Rollback bm = bm\<lparr>m_modifiedBytes := [], bm_dirty := False\<rparr>"

definition BitToByte :: "u8 \<Rightarrow> u8" where
  "BitToByte b = push_bit (7 - unat b) 1"

definition BitmapFile_GetByte :: "BitmapFile \<Rightarrow> u64 \<Rightarrow> u8 result" where
  "BitmapFile_GetByte bm byteIndex =
     (case map_of (m_modifiedBytes bm) byteIndex of
        Some b \<Rightarrow> Inr b
      | None \<Rightarrow> if byteIndex < MemMap_size (m_memmap bm) then MemMap_ReadByte (m_memmap bm) byteIndex
                else Inr 0)"

definition BitmapFile_IsSet :: "BitmapFile \<Rightarrow> u64 \<Rightarrow> bool result" where
  "BitmapFile_IsSet bm position =
     rbind (BitmapFile_GetByte bm (position div 8)) (\<lambda>b.
       Inr (b AND BitToByte (ucast (position mod 8)) \<noteq> 0))"

definition BitmapFile_Set :: "u64 \<Rightarrow> BitmapFile \<Rightarrow> BitmapFile result" where
  "BitmapFile_Set position bm =
     (let bm = bm\<lparr>bm_dirty := True\<rparr> in
      rbind (BitmapFile_GetByte bm (position div 8)) (\<lambda>b.
        Inr (bm\<lparr>m_modifiedBytes :=
          omap_set (position div 8) (b OR BitToByte (ucast (position mod 8))) (m_modifiedBytes bm)\<rparr>)))"

definition BitmapFile_Unset :: "u64 \<Rightarrow> BitmapFile \<Rightarrow> BitmapFile result" where
  "BitmapFile_Unset position bm =
     (let bm = bm\<lparr>bm_dirty := True\<rparr> in
      rbind (BitmapFile_GetByte bm (position div 8)) (\<lambda>b.
        Inr (bm\<lparr>m_modifiedBytes :=
          omap_set (position div 8) (b AND (0xff XOR BitToByte (ucast (position mod 8)))) (m_modifiedBytes bm)\<rparr>)))"

text \<open>The two constants that \<^verbatim>\<open>operator[]\<close> returns references to are both initialised to false.\<close>

definition s_true :: bool where "s_true = False"
definition s_false :: bool where "s_false = False"

definition BitmapFile_at :: "BitmapFile \<Rightarrow> u64 \<Rightarrow> bool result" where
  "BitmapFile_at bm position =
     rbind (BitmapFile_IsSet bm position) (\<lambda>b. Inr (if b then s_true else s_false))"

definition BitmapFile_GetNumBytes :: "BitmapFile \<Rightarrow> u64" where
  "BitmapFile_GetNumBytes bm =
     (let sz = (if m_modifiedBytes bm \<noteq> [] then fst (last (m_modifiedBytes bm)) + 1 else 0)
      in if \<not> MemMap_empty (m_memmap bm) then max sz (MemMap_size (m_memmap bm) + 1) else sz)"

definition IsBitSet :: "u8 \<Rightarrow> u64 \<Rightarrow> bool" where
  "IsBitSet b position =
     (let bitPosition = ucast position mod 8 :: u8 in drop_bit (7 - unat bitPosition) b AND 1 \<noteq> 0)"

subsection \<open>BitmapFile as a set of bit positions\<close>

definition bm_inv :: "BitmapFile \<Rightarrow> fsys \<Rightarrow> bool" where
  "bm_inv bm fs \<longleftrightarrow>
     (let c = file_bytes (bm_path bm) fs in
      fs (bm_path bm) = Some (RegFile c) \<and> length c < 2 ^ 63 \<and>
      m_memmap bm = \<lparr>mm_path = bm_path bm, mm_view = c, m_mapped = (c \<noteq> [])\<rparr> \<and>
      sorted_wrt (<) (map fst (m_modifiedBytes bm)) \<and>
      list_all (\<lambda>k. unat k < 2 ^ 62) (map fst (m_modifiedBytes bm)))"

text \<open>The byte at an index: modified, in the file, or 0; and the bits, numbered from the left.\<close>

definition byte_at :: "bytes \<Rightarrow> nat \<Rightarrow> u8" where
  "byte_at c i = (if i < length c then c ! i else 0)"

definition bm_byte :: "BitmapFile \<Rightarrow> fsys \<Rightarrow> nat \<Rightarrow> u8" where
  "bm_byte bm fs i =
     (case map_of (m_modifiedBytes bm) (of_nat i) of
        Some b \<Rightarrow> b | None \<Rightarrow> byte_at (file_bytes (bm_path bm) fs) i)"

definition bm_bits :: "BitmapFile \<Rightarrow> fsys \<Rightarrow> nat set" where
  "bm_bits bm fs = {p. p < 2 ^ 64 \<and> bit (bm_byte bm fs (p div 8)) (7 - p mod 8)}"

lemma map_of_omap_set: "map_of (omap_set k v m) k' = (if k' = k then Some v else map_of m k')"
  by (induction k v m rule: omap_set.induct) auto

lemma set_omap_set: "fst ` set (omap_set k v m) = insert k (fst ` set m)"
  by (induction k v m rule: omap_set.induct) auto

lemma sorted_omap_set: "sorted_wrt (<) (map fst m) \<Longrightarrow> sorted_wrt (<) (map fst (omap_set k v m))"
proof (induction k v m rule: omap_set.induct)
  case (2 k v k' v' m)
  then show ?case using set_omap_set [of k v m] by (auto simp: set_map [symmetric] simp del: set_map)
qed simp

lemma GetByte_ok:
  assumes "bm_inv bm fs"
  shows "BitmapFile_GetByte bm i = Inr (bm_byte bm fs (unat i))"
proof -
  let ?c = "file_bytes (bm_path bm) fs"
  have v: "mm_view (m_memmap bm) = ?c" "length ?c < 2 ^ 63" using assms by (simp_all add: bm_inv_def Let_def)
  have "i < MemMap_size (m_memmap bm) \<longleftrightarrow> unat i < length ?c"
    using v by (simp add: MemMap_size_def word_less_nat_alt unat_of_nat_u64)
  then show ?thesis
    using v by (auto simp: BitmapFile_GetByte_def bm_byte_def byte_at_def MemMap_ReadByte_def split: option.split)
qed

lemma unat_mod_8: "unat (ucast (p mod 8 :: u64) :: u8) = unat p mod 8"
proof -
  have "unat (p mod 8) = unat p mod 8" by (simp add: unat_mod)
  then show ?thesis by (simp add: unsigned_ucast_eq take_bit_eq_mod)
qed

lemma bit_BitToByte: "bit (BitToByte (ucast (p mod 8 :: u64))) k \<longleftrightarrow> k = 7 - unat p mod 8"
  by (auto simp: BitToByte_def unat_mod_8 bit_exp_iff)

lemma and_BitToByte: "b AND BitToByte (ucast (p mod 8 :: u64)) \<noteq> 0 \<longleftrightarrow> bit b (7 - unat p mod 8)"
proof
  assume "b AND BitToByte (ucast (p mod 8 :: u64)) \<noteq> 0"
  then obtain k where "bit (b AND BitToByte (ucast (p mod 8 :: u64))) k" by (metis bit_0_eq bot_apply bot_bool_def bit_eqI)
  then show "bit b (7 - unat p mod 8)" by (auto simp: bit_and_iff bit_BitToByte)
next
  assume "bit b (7 - unat p mod 8)"
  then have "bit (b AND BitToByte (ucast (p mod 8 :: u64))) (7 - unat p mod 8)" by (simp add: bit_and_iff bit_BitToByte)
  then show "b AND BitToByte (ucast (p mod 8 :: u64)) \<noteq> 0" by (metis bit_0_eq bot_apply bot_bool_def)
qed

lemma same_byte_bit: "q div 8 = p div 8 \<Longrightarrow> (7 - q mod 8 = 7 - p mod 8) \<longleftrightarrow> q = (p :: nat)"
proof -
  assume d: "q div 8 = p div 8"
  have "q mod 8 < 8" "p mod 8 < 8" by simp_all
  then have "7 - q mod 8 = 7 - p mod 8 \<longleftrightarrow> q mod 8 = p mod 8" by linarith
  also have "\<dots> \<longleftrightarrow> q = p" using d by (metis div_mult_mod_eq)
  finally show ?thesis .
qed

lemma IsSet_ok:
  assumes "bm_inv bm fs"
  shows "BitmapFile_IsSet bm p = Inr (unat p \<in> bm_bits bm fs)"
proof -
  have "unat (p div 8) = unat p div 8" by (simp add: unat_div)
  moreover have "unat p < 2 ^ 64" using unsigned_less [of p] by simp
  ultimately show ?thesis
    by (simp add: BitmapFile_IsSet_def GetByte_ok [OF assms] and_BitToByte bm_bits_def)
qed

text \<open>Both \<^verbatim>\<open>Set\<close> and \<^verbatim>\<open>Unset\<close> replace one byte; the effect on the bits follows from the new byte.\<close>

lemma modify_byte:
  fixes p :: u64 and b :: u8
  assumes "bm_inv bm fs"
  defines "bm' \<equiv> bm\<lparr>bm_dirty := True, m_modifiedBytes := omap_set (p div 8) b (m_modifiedBytes bm)\<rparr>"
  shows "bm_inv bm' fs"
    and "bm_bits bm' fs = {q. q < 2 ^ 64 \<and>
      (if q div 8 = unat p div 8 then bit b (7 - q mod 8) else q \<in> bm_bits bm fs)}"
proof -
  have u: "unat (p div 8) = unat p div 8" by (simp add: unat_div)
  have "unat p \<le> 18446744073709551615" using unat_u64_lt [of p] by linarith
  then have "unat p div 8 \<le> 18446744073709551615 div 8" by (rule div_le_mono)
  then have lt: "unat p div 8 < 2 ^ 62" by simp
  have "list_all (\<lambda>k. unat k < 2 ^ 62) (map fst (omap_set (p div 8) b (m_modifiedBytes bm)))"
    using assms(1) lt u set_omap_set [of "p div 8" b "m_modifiedBytes bm"]
    by (force simp: bm_inv_def list_all_iff Let_def)
  then show "bm_inv bm' fs"
    using assms(1) by (simp add: bm_inv_def bm'_def Let_def sorted_omap_set)
  have "(of_nat (q div 8) :: u64) = p div 8 \<longleftrightarrow> q div 8 = unat p div 8" if "q < 2 ^ 64" for q
  proof -
    have "unat (of_nat (q div 8) :: u64) = q div 8" using that by (intro unat_of_nat_u64) simp
    then show ?thesis using u by (metis word_unat_eq_iff)
  qed
  then have byte: "bm_byte bm' fs (q div 8) = (if q div 8 = unat p div 8 then b else bm_byte bm fs (q div 8))" if "q < 2 ^ 64" for q
    using that by (auto simp: bm_byte_def bm'_def map_of_omap_set split: option.split)
  show "bm_bits bm' fs = {q. q < 2 ^ 64 \<and>
      (if q div 8 = unat p div 8 then bit b (7 - q mod 8) else q \<in> bm_bits bm fs)}"
    unfolding bm_bits_def using byte by auto
qed

lemma Set_ok:
  assumes "bm_inv bm fs"
  shows "\<exists>bm'. BitmapFile_Set p bm = Inr bm' \<and> bm_inv bm' fs \<and> bm_bits bm' fs = insert (unat p) (bm_bits bm fs)"
proof -
  let ?b = "bm_byte bm fs (unat p div 8) OR BitToByte (ucast (p mod 8))"
  have u: "unat (p div 8) = unat p div 8" by (simp add: unat_div)
  have inv': "bm_inv (bm\<lparr>bm_dirty := True\<rparr>) fs" "bm_byte (bm\<lparr>bm_dirty := True\<rparr>) fs = bm_byte bm fs"
    using assms by (simp_all add: bm_inv_def bm_byte_def fun_eq_iff split: option.split)
  have lt: "unat p < 2 ^ 64" using unsigned_less [of p] by simp
  have "bit ?b (7 - q mod 8) \<longleftrightarrow> q \<in> insert (unat p) (bm_bits bm fs)" if "q < 2 ^ 64" "q div 8 = unat p div 8" for q
    using that same_byte_bit [OF that(2)] by (auto simp: bit_or_iff bit_BitToByte bm_bits_def)
  then have "bm_bits (bm\<lparr>bm_dirty := True, m_modifiedBytes := omap_set (p div 8) ?b (m_modifiedBytes bm)\<rparr>) fs =
      insert (unat p) (bm_bits bm fs)"
    unfolding modify_byte(2) [OF assms] using lt by (auto simp: bm_bits_def)
  then show ?thesis
    using modify_byte(1) [OF assms] by (simp add: BitmapFile_Set_def Let_def GetByte_ok [OF inv'(1)] inv'(2) u)
qed

lemma Unset_ok:
  assumes "bm_inv bm fs"
  shows "\<exists>bm'. BitmapFile_Unset p bm = Inr bm' \<and> bm_inv bm' fs \<and> bm_bits bm' fs = bm_bits bm fs - {unat p}"
proof -
  let ?b = "bm_byte bm fs (unat p div 8) AND (0xff XOR BitToByte (ucast (p mod 8)))"
  have u: "unat (p div 8) = unat p div 8" by (simp add: unat_div)
  have inv': "bm_inv (bm\<lparr>bm_dirty := True\<rparr>) fs" "bm_byte (bm\<lparr>bm_dirty := True\<rparr>) fs = bm_byte bm fs"
    using assms by (simp_all add: bm_inv_def bm_byte_def fun_eq_iff split: option.split)
  have m: "(mask 8 :: u8) = 0xff" by (simp add: mask_eq_exp_minus_1)
  have ff: "bit (0xff :: u8) (7 - k)" for k
  proof -
    have "7 - k < 8" by linarith
    then show ?thesis using bit_mask_iff [of 8 "7 - k", where ?'a = u8] unfolding m by simp
  qed
  then have ffi: "bit (0xff :: int) (7 - k)" for k by simp
  have "bit ?b (7 - q mod 8) \<longleftrightarrow> q \<in> bm_bits bm fs - {unat p}" if "q < 2 ^ 64" "q div 8 = unat p div 8" for q
    using that same_byte_bit [OF that(2)] by (auto simp: bit_and_iff bit_xor_iff ffi bit_BitToByte bm_bits_def)
  then have "bm_bits (bm\<lparr>bm_dirty := True, m_modifiedBytes := omap_set (p div 8) ?b (m_modifiedBytes bm)\<rparr>) fs =
      bm_bits bm fs - {unat p}"
    unfolding modify_byte(2) [OF assms] by (auto simp: bm_bits_def)
  then show ?thesis
    using modify_byte(1) [OF assms] by (simp add: BitmapFile_Unset_def Let_def GetByte_ok [OF inv'(1)] inv'(2) u)
qed

subsection \<open>Commit of a bitmap\<close>

lemma byte_at_poke: "byte_at (poke c k b) i = (if i = k then b else byte_at c i)"
  by (auto simp: byte_at_def poke_def nth_append nth_list_update)

lemma length_poke: "length (poke c k b) = max (length c) (Suc k)"
  by (auto simp: poke_def)

lemma byte_at_fold_poke:
  fixes kvs :: "(u64 \<times> u8) list"
  assumes "distinct (map fst kvs)" "i < 2 ^ 64"
  shows "byte_at (fold (\<lambda>(i, b) c. poke c (unat i) b) kvs c) i =
    (case map_of kvs (of_nat i) of Some b \<Rightarrow> b | None \<Rightarrow> byte_at c i)"
  using assms(1)
proof (induction kvs arbitrary: c)
  case (Cons kv kvs)
  obtain k b where kv: "kv = (k, b)" by (cases kv)
  have k: "k = of_nat i \<longleftrightarrow> unat k = i" unfolding word_unat_eq_iff unat_of_nat_u64 [OF assms(2)] ..
  have "map_of kvs k = None" using Cons.prems kv by (simp add: map_of_eq_None_iff)
  then show ?case using Cons k by (auto simp: kv byte_at_poke split: option.split)
qed simp

lemma length_fold_poke:
  "list_all (\<lambda>k. unat k < n) (map fst kvs) \<Longrightarrow> length c < n' \<Longrightarrow> n < n' \<Longrightarrow>
     length (fold (\<lambda>(i, b) c. poke c (unat i) b) kvs c) < n'"
  by (induction kvs arbitrary: c) (auto simp: length_poke)

lemma BitmapFile_Commit_ok:
  assumes "bm_inv bm fs"
  shows "\<exists>bm' fs'. BitmapFile_Commit bm fs = Inr (bm', fs') \<and> bm_inv bm' fs' \<and> m_modifiedBytes bm' = [] \<and>
    bm_path bm' = bm_path bm \<and> bm_bits bm' fs' = bm_bits bm fs"
proof (cases "m_modifiedBytes bm = []")
  case True
  then show ?thesis using assms by (simp add: BitmapFile_Commit_def)
next
  case False
  let ?p = "bm_path bm" and ?c = "file_bytes (bm_path bm) fs" and ?m = "m_modifiedBytes bm"
  define c' where "c' = fold (\<lambda>(i, b) c. poke c (unat i) b) ?m ?c"
  let ?fs' = "fs(?p \<mapsto> RegFile c')"
  have inv: "fs ?p = Some (RegFile ?c)" "length ?c < 2 ^ 63" "list_all (\<lambda>k. unat k < 2 ^ 62) (map fst ?m)"
    and srt: "sorted_wrt (<) (map fst ?m)"
    using assms by (simp_all add: bm_inv_def Let_def)
  have un: "MemMap_Unmap (m_memmap bm) = new_MemMap ?p"
    using assms by (auto simp: bm_inv_def MemMap_Unmap_def new_MemMap_def Let_def)
  have wr: "File_WriteBytes ?p ?m fs = ?fs'" using inv(1) by (simp add: File_WriteBytes_def c'_def)
  have len: "length c' < 2 ^ 63" unfolding c'_def using inv by (intro length_fold_poke [where n = "2 ^ 62"]) simp_all
  have mp: "MemMap_Map (new_MemMap ?p) ?fs' = Inr \<lparr>mm_path = ?p, mm_view = c', m_mapped = (c' \<noteq> [])\<rparr>"
    using len by (intro Map_new) simp_all
  let ?bm' = "bm\<lparr>m_modifiedBytes := [], m_memmap := \<lparr>mm_path = ?p, mm_view = c', m_mapped = (c' \<noteq> [])\<rparr>, bm_dirty := False\<rparr>"
  have fb: "file_bytes ?p ?fs' = c'" by (simp add: file_bytes_def)
  have "distinct (map fst ?m)" using srt strict_sorted_iff by blast
  then have "bm_byte ?bm' ?fs' i = bm_byte bm fs i" if "i < 2 ^ 64" for i
    using byte_at_fold_poke [OF _ that, of ?m ?c] fb by (simp add: bm_byte_def c'_def)
  then have "bm_bits ?bm' ?fs' = bm_bits bm fs" by (auto simp: bm_bits_def)
  moreover have "bm_inv ?bm' ?fs'" using len fb by (simp add: bm_inv_def Let_def)
  moreover have "BitmapFile_Commit bm fs = Inr (?bm', ?fs')"
    using False by (simp add: BitmapFile_Commit_def Let_def un wr mp)
  ultimately show ?thesis by auto
qed

text \<open>
  C10. A bitmap file stands for a set of bit positions: \<open>IsSet\<close> tests membership, \<open>Set\<close> and \<open>Unset\<close> add
  and remove exactly one position, \<open>Commit\<close> writes all changes to the file and keeps the set, and
  \<open>Rollback\<close> returns to the set that is in the file; no operation fails or reads out of range.
\<close>

theorem BitmapFile_refinement:
  assumes "bm_inv bm fs"
  shows "BitmapFile_IsSet bm p = Inr (unat p \<in> bm_bits bm fs) \<and>
    (\<exists>bm'. BitmapFile_Set p bm = Inr bm' \<and> bm_inv bm' fs \<and> bm_bits bm' fs = insert (unat p) (bm_bits bm fs)) \<and>
    (\<exists>bm'. BitmapFile_Unset p bm = Inr bm' \<and> bm_inv bm' fs \<and> bm_bits bm' fs = bm_bits bm fs - {unat p}) \<and>
    (\<exists>bm' fs'. BitmapFile_Commit bm fs = Inr (bm', fs') \<and> bm_inv bm' fs' \<and> m_modifiedBytes bm' = [] \<and>
       bm_bits bm' fs' = bm_bits bm fs) \<and>
    (bm_inv (BitmapFile_Rollback bm) fs \<and>
     bm_bits (BitmapFile_Rollback bm) fs =
       {q. q < 2 ^ 64 \<and> bit (byte_at (file_bytes (bm_path bm) fs) (q div 8)) (7 - q mod 8)})"
  using assms IsSet_ok [OF assms, of p] Set_ok [OF assms, of p] Unset_ok [OF assms, of p] BitmapFile_Commit_ok [OF assms]
  by (auto simp: bm_inv_def BitmapFile_Rollback_def bm_bits_def bm_byte_def Let_def)

definition bm_example :: BitmapFile where
  "bm_example = \<lparr>bm_path = [''/'', ''f''], m_modifiedBytes = [],
     m_memmap = \<lparr>mm_path = [''/'', ''f''], mm_view = [1, 2, 3], m_mapped = True\<rparr>, bm_dirty = False\<rparr>"

theorem BitmapFile_refinement_witness:
  "\<exists>bm'. BitmapFile_Set 100 bm_example = Inr bm' \<and> BitmapFile_IsSet bm_example 100 = Inr False \<and>
     bm_bits bm' fs_example = insert 100 (bm_bits bm_example fs_example)"
proof -
  have h: "bm_inv bm_example fs_example"
    by (simp add: bm_inv_def bm_example_def fs_example_def file_bytes_def)
  have "unat (100 :: u64) \<notin> bm_bits bm_example fs_example"
    by (simp add: bm_bits_def bm_byte_def byte_at_def bm_example_def fs_example_def file_bytes_def)
  then show ?thesis using BitmapFile_refinement [OF h, of 100] by auto
qed

text \<open>
  The subscript operator of a bitmap file returns false for every position, also for those that are
  set: the constant it returns for them is initialised to false.
\<close>

lemma BitmapFile_subscript_false:
  assumes "bm_inv bm fs"
  shows "BitmapFile_at bm p = Inr False"
  by (simp add: BitmapFile_at_def IsSet_ok [OF assms] s_true_def s_false_def)

lemma BitmapFile_subscript_example:
  "BitmapFile_IsSet bm_example 7 = Inr True \<and> BitmapFile_at bm_example 7 = Inr False"
proof -
  have h: "bm_inv bm_example fs_example"
    by (simp add: bm_inv_def bm_example_def fs_example_def file_bytes_def)
  have "BitmapFile_IsSet bm_example 7 = Inr True"
    unfolding IsSet_ok [OF h]
    by (simp add: bm_bits_def bm_byte_def byte_at_def bm_example_def fs_example_def file_bytes_def)
  then show ?thesis using BitmapFile_subscript_false [OF h, of 7] by simp
qed

end
