(* ===== verification/MW_File_Backend.thy ===== *)
theory MW_File_Backend
  imports MW_Mmr MW_Files
begin

text \<open>
  The MMR backend that keeps its data in files: \<^verbatim>\<open>mmr/backends/FileBackend.h\<close>. A backend is three
  \<open>AppendOnlyFile\<close>s (hashes, leaf data and, for leaves of varying length, positions), used together with
  the file system they live in. It is shown to satisfy the contracts \<open>hash_store\<close> and \<open>mmr_backend\<close>, so that
  all results on the MMR hold for it, and committed data to be read back by a backend that is opened later.
\<close>

section \<open>The model\<close>

record PosEntry =
  pos_position :: u64
  pos_size :: u16

record FileBackend =
  m_pHashFile :: AppendOnlyFile
  m_pDataFile :: AppendOnlyFile
  m_pPositionFile :: "AppendOnlyFile option"
  m_fixedLength :: u16

type_synonym file_state = "FileBackend \<times> fsys"

definition FileBackend_Open :: "fspath \<Rightarrow> u16 option \<Rightarrow> fsys \<Rightarrow> file_state result" where
  "FileBackend_Open path fixedLengthOpt fs =
     rbind (AppendOnlyFile_Load (FilePath_GetChild path ''pmmr_hash.bin'') fs) (\<lambda>(hashFile, fs).
     rbind (AppendOnlyFile_Load (FilePath_GetChild path ''pmmr_data.bin'') fs) (\<lambda>(dataFile, fs).
       let backend = \<lparr>m_pHashFile = hashFile, m_pDataFile = dataFile, m_pPositionFile = None,
                      m_fixedLength = (case fixedLengthOpt of Some n \<Rightarrow> n | None \<Rightarrow> 0)\<rparr> in
       if fixedLengthOpt = None
       then rbind (AppendOnlyFile_Load (FilePath_GetChild path ''pmmr_pos.bin'') fs) (\<lambda>(posFile, fs).
              Inr (backend\<lparr>m_pPositionFile := Some posFile\<rparr>, fs))
       else Inr (backend, fs)))"

definition FileBackend_AddHash :: "Hash \<Rightarrow> file_state \<Rightarrow> file_state result" where
  "FileBackend_AddHash hash s =
     Inr ((fst s)\<lparr>m_pHashFile := AppendOnlyFile_Append (big_bytes hash) (m_pHashFile (fst s))\<rparr>, snd s)"

definition FileBackend_GetHash :: "Index \<Rightarrow> file_state \<Rightarrow> Hash result" where
  "FileBackend_GetHash i s =
     rbind (AppendOnlyFile_Read (m_pHashFile (fst s)) (m_position i * 32) 32) (\<lambda>bs. Inr (mk_BigInt bs))"

definition FileBackend_AppendData :: "bool \<Rightarrow> bytes \<Rightarrow> FileBackend \<Rightarrow> FileBackend" where
  "FileBackend_AppendData be data b =
     (let b = (case m_pPositionFile b of
                 Some posFile \<Rightarrow>
                   let serialized = m_serialized
                         (Append be (of_nat (length data) :: u16)
                           (Append be (AppendOnlyFile_GetSize (m_pDataFile b)) new_Serializer))
                   in b\<lparr>m_pPositionFile := Some (AppendOnlyFile_Append serialized posFile)\<rparr>
               | None \<Rightarrow> b)
      in b\<lparr>m_pDataFile := AppendOnlyFile_Append data (m_pDataFile b)\<rparr>)"

definition FileBackend_AddLeaf :: "(bytes \<Rightarrow> Hash) \<Rightarrow> bool \<Rightarrow> Leaf \<Rightarrow> file_state \<Rightarrow> file_state result" where
  "FileBackend_AddLeaf B be leaf s =
     (let s = (FileBackend_AppendData be (leaf_data leaf) (fst s), snd s) in
      rbind (FileBackend_AddHash (leaf_hash leaf) s) (\<lambda>s.
        AddLeaf_loop B be FileBackend_GetHash FileBackend_AddHash (leaf_hash leaf)
          (Index_GetNext (Leaf_GetNodeIndex leaf)) s))"

definition GetPosEntry :: "bool \<Rightarrow> u64 \<Rightarrow> FileBackend \<Rightarrow> PosEntry result" where
  "GetPosEntry be leafIndex b =
     (case m_pPositionFile b of
        None \<Rightarrow> Inl UndefinedBehaviour
      | Some posFile \<Rightarrow>
          rbind (AppendOnlyFile_Read posFile (leafIndex * 10) 10) (\<lambda>data.
          rbind (Read be (new_Deserializer data)) (\<lambda>(position, d).
          rbind (Read be d) (\<lambda>(sz, d). Inr \<lparr>pos_position = position, pos_size = sz\<rparr>))))"

definition FileBackend_Rewind :: "bool \<Rightarrow> LeafIndex \<Rightarrow> file_state \<Rightarrow> file_state result" where
  "FileBackend_Rewind be nextLeafIndex s =
     (let b = fst s in
      rbind (GetPosEntry be (m_leafIndex nextLeafIndex - 1) b) (\<lambda>posEntry.
      rbind (case m_pPositionFile b of
               None \<Rightarrow> Inl UndefinedBehaviour
             | Some posFile \<Rightarrow> AppendOnlyFile_Rewind (m_leafIndex nextLeafIndex) posFile) (\<lambda>posFile.
      rbind (AppendOnlyFile_Rewind (pos_position posEntry + ucast (pos_size posEntry)) (m_pDataFile b)) (\<lambda>dataFile.
      rbind (AppendOnlyFile_Rewind (LeafIndex_GetPosition nextLeafIndex) (m_pHashFile b)) (\<lambda>hashFile.
        Inr (b\<lparr>m_pPositionFile := Some posFile, m_pDataFile := dataFile, m_pHashFile := hashFile\<rparr>, snd s))))))"

definition FileBackend_GetNumLeaves :: "file_state \<Rightarrow> u64 result" where
  "FileBackend_GetNumLeaves s =
     (case m_pPositionFile (fst s) of
        Some posFile \<Rightarrow> Inr (AppendOnlyFile_GetSize posFile div 10)
      | None \<Rightarrow>
          if m_fixedLength (fst s) = 0 then Inl UndefinedBehaviour
          else Inr (AppendOnlyFile_GetSize (m_pDataFile (fst s)) div ucast (m_fixedLength (fst s))))"

definition FileBackend_GetLeaf :: "(bytes \<Rightarrow> Hash) \<Rightarrow> bool \<Rightarrow> LeafIndex \<Rightarrow> file_state \<Rightarrow> Leaf result" where
  "FileBackend_GetLeaf B be i s =
     (let leafIndex = m_leafIndex i; b = fst s in
      case m_pPositionFile b of
        Some posFile \<Rightarrow>
          rbind (GetPosEntry be leafIndex b) (\<lambda>posEntry.
          rbind (AppendOnlyFile_Read (m_pDataFile b) (pos_position posEntry) (ucast (pos_size posEntry))) (\<lambda>data.
            Inr (Leaf_Create B be i data)))
      | None \<Rightarrow>
          rbind (AppendOnlyFile_Read (m_pDataFile b) (leafIndex * ucast (m_fixedLength b)) (ucast (m_fixedLength b))) (\<lambda>data.
            Inr (Leaf_Create B be i data)))"

definition FileBackend_Commit :: "file_state \<Rightarrow> file_state result" where
  "FileBackend_Commit s =
     (let b = fst s in
      rbind (AppendOnlyFile_Commit (m_pHashFile b) (snd s)) (\<lambda>(hashFile, fs).
      rbind (AppendOnlyFile_Commit (m_pDataFile b) fs) (\<lambda>(dataFile, fs).
        let b = b\<lparr>m_pHashFile := hashFile, m_pDataFile := dataFile\<rparr> in
        case m_pPositionFile b of
          None \<Rightarrow> Inr (b, fs)
        | Some posFile \<Rightarrow>
            rbind (AppendOnlyFile_Commit posFile fs) (\<lambda>(posFile, fs).
              Inr (b\<lparr>m_pPositionFile := Some posFile\<rparr>, fs)))))"

definition FileBackend_Rollback :: "file_state \<Rightarrow> file_state" where
  "FileBackend_Rollback s =
     (let b = fst s in
      (b\<lparr>m_pHashFile := AppendOnlyFile_Rollback (m_pHashFile b),
         m_pDataFile := AppendOnlyFile_Rollback (m_pDataFile b),
         m_pPositionFile := map_option AppendOnlyFile_Rollback (m_pPositionFile b)\<rparr>, snd s))"

definition FileBackend_methods :: "(bytes \<Rightarrow> Hash) \<Rightarrow> bool \<Rightarrow> file_state IBackend" where
  "FileBackend_methods B be = \<lparr>
     ib_AddLeaf = FileBackend_AddLeaf B be, ib_AddHash = FileBackend_AddHash,
     ib_Rewind = FileBackend_Rewind be, ib_GetNumLeaves = FileBackend_GetNumLeaves,
     ib_GetHash = FileBackend_GetHash, ib_GetLeaf = FileBackend_GetLeaf B be,
     ib_Commit = FileBackend_Commit, ib_Rollback = FileBackend_Rollback\<rparr>"

section \<open>The hash file stores hashes\<close>

definition hash_chunks :: "bytes \<Rightarrow> Hash list" where
  "hash_chunks c = map (\<lambda>i. mk_BigInt (take 32 (drop (32 * i) c))) [0..<length c div 32]"

text \<open>Nothing has been rewound: the buffer starts at the end of the file.\<close>

definition af_clean :: "AppendOnlyFile \<Rightarrow> fsys \<Rightarrow> bool" where
  "af_clean af fs \<longleftrightarrow> af_inv af fs \<and> m_bufferIndex af = m_fileSize af"

lemma af_clean_content: "af_clean af fs \<Longrightarrow> af_content af fs = file_bytes (af_path af) fs @ m_buffer af"
  using af_invD(2) [of af fs] by (simp add: af_clean_def af_content_def)

lemma af_clean_Append:
  assumes "af_clean af fs" "length (af_content af fs) + length data < 2 ^ 63"
  shows "af_clean (AppendOnlyFile_Append data af) fs"
    and "af_content (AppendOnlyFile_Append data af) fs = af_content af fs @ data"
  using assms Append_content [of af fs data]
  by (simp_all add: af_clean_content [OF assms(1)]) (simp_all add: af_clean_def AppendOnlyFile_Append_def)

lemma Append_simps [simp]:
  "af_path (AppendOnlyFile_Append data af) = af_path af"
  "m_bufferIndex (AppendOnlyFile_Append data af) = m_bufferIndex af"
  by (simp_all add: AppendOnlyFile_Append_def)

definition hash_file_ok :: "file_state \<Rightarrow> bool" where
  "hash_file_ok s \<longleftrightarrow> af_clean (m_pHashFile (fst s)) (snd s) \<and> 32 dvd unat (m_bufferIndex (m_pHashFile (fst s))) \<and>
     32 dvd length (af_content (m_pHashFile (fst s)) (snd s))"

lemma hash_chunks_snoc:
  assumes "32 dvd length c" "length (big_bytes h) = 32"
  shows "hash_chunks (c @ big_bytes h) = hash_chunks c @ [h]"
proof -
  obtain k where k: "length c = 32 * k" using assms(1) by (elim dvdE)
  have "take 32 (drop (32 * i) (c @ big_bytes h)) = take 32 (drop (32 * i) c)" if "i < k" for i
    using that k by simp
  then have "map (\<lambda>i. mk_BigInt (take 32 (drop (32 * i) (c @ big_bytes h)))) [0..<k] = hash_chunks c"
    by (simp add: hash_chunks_def k)
  moreover have "mk_BigInt (take 32 (drop (32 * k) (c @ big_bytes h))) = h"
    using k assms(2) by (cases h) (simp add: mk_BigInt_def)
  moreover have "length (c @ big_bytes h) div 32 = Suc k" using k assms(2) by simp
  ultimately show ?thesis by (simp add: hash_chunks_def)
qed

definition file_rest :: "file_state \<Rightarrow> AppendOnlyFile \<times> AppendOnlyFile option \<times> u16 \<times> fsys \<times> fspath \<times> u64" where
  "file_rest s = (m_pDataFile (fst s), m_pPositionFile (fst s), m_fixedLength (fst s), snd s,
     af_path (m_pHashFile (fst s)), m_bufferIndex (m_pHashFile (fst s)))"

lemma multiple_boundary:
  fixes n i :: nat
  assumes "k dvd i" "0 < k"
  shows "n * k + k \<le> i \<or> i \<le> n * k"
proof -
  obtain m where m: "i = k * m" using assms(1) by (elim dvdE)
  have "Suc n \<le> m \<or> m \<le> n" by linarith
  then have "Suc n * k \<le> m * k \<or> m * k \<le> n * k"
    using mult_le_mono1 [of "Suc n" m k] mult_le_mono1 [of m n k] by blast
  then show ?thesis using m by (simp only: mult_Suc mult_Suc_right add.commute mult.commute)
qed

interpretation file_store: hash_store FileBackend_GetHash FileBackend_AddHash
  "\<lambda>s. hash_chunks (af_content (m_pHashFile (fst s)) (snd s))" file_rest hash_file_ok "2 ^ 57"
proof
  fix s :: file_state and n :: nat
  let ?f = "m_pHashFile (fst s)" and ?c = "af_content (m_pHashFile (fst s)) (snd s)"
  assume ok: "hash_file_ok s" and n: "n < length (hash_chunks ?c)" "n < 2 ^ 57"
  have inv: "af_inv ?f (snd s)" using ok by (simp add: hash_file_ok_def af_clean_def)
  have k: "n < length ?c div 32" using n(1) by (simp add: hash_chunks_def)
  then have le: "n * 32 + 32 \<le> length ?c" using ok by (auto simp: hash_file_ok_def elim!: dvdE)
  have "n * 32 + 32 \<le> unat (m_bufferIndex ?f) \<or> unat (m_bufferIndex ?f) \<le> n * 32"
    using ok by (intro multiple_boundary) (simp_all add: hash_file_ok_def)
  then have "AppendOnlyFile_Read ?f (of_nat (n * 32)) (of_nat 32) = Inr (take 32 (drop (n * 32) ?c))"
    using le by (intro Read_content [OF inv])
  then show "FileBackend_GetHash (idx n) s = Inr (hash_chunks ?c ! n)"
    using k by (simp add: FileBackend_GetHash_def hash_chunks_def mult.commute)
next
  fix s :: file_state and h :: Hash
  let ?f = "m_pHashFile (fst s)" and ?c = "af_content (m_pHashFile (fst s)) (snd s)"
  assume ok: "hash_file_ok s" and room: "length (hash_chunks ?c) < 2 ^ 57" and h: "length (big_bytes h) = 32"
  have d: "32 dvd length ?c" and cl: "af_clean ?f (snd s)" using ok by (simp_all add: hash_file_ok_def)
  have "length ?c + length (big_bytes h) < 2 ^ 63" using room d h by (auto simp: hash_chunks_def elim!: dvdE)
  note ap = af_clean_Append [OF cl this]
  let ?s' = "((fst s)\<lparr>m_pHashFile := AppendOnlyFile_Append (big_bytes h) ?f\<rparr>, snd s)"
  have "hash_file_ok ?s'" using ok ap d h by (simp add: hash_file_ok_def)
  moreover have "hash_chunks (af_content (m_pHashFile (fst ?s')) (snd ?s')) = hash_chunks ?c @ [h]"
    using ap(2) d h by (simp add: hash_chunks_snoc)
  moreover have "file_rest ?s' = file_rest s" by (simp add: file_rest_def)
  ultimately show "\<exists>s'. FileBackend_AddHash h s = Inr s' \<and> hash_file_ok s' \<and>
      hash_chunks (af_content (m_pHashFile (fst s')) (snd s')) = hash_chunks ?c @ [h] \<and> file_rest s' = file_rest s"
    by (simp add: FileBackend_AddHash_def)
qed (simp add: tree_size_63)

section \<open>What the files hold for a list of leaves\<close>

definition leaf_offset :: "bytes list \<Rightarrow> nat \<Rightarrow> nat" where
  "leaf_offset ds i = length (concat (take i ds))"

definition pos_entry :: "bytes list \<Rightarrow> nat \<Rightarrow> bytes" where
  "pos_entry ds i = be_bytes (of_nat (leaf_offset ds i) :: u64) @ be_bytes (of_nat (length (ds ! i)) :: u16)"

definition pos_bytes :: "bytes list \<Rightarrow> bytes" where
  "pos_bytes ds = concat (map (pos_entry ds) [0..<length ds])"

text \<open>The limits of the format: sizes below 2 to the 16 in variable-length mode, one size otherwise.\<close>

definition file_fits :: "u16 option \<Rightarrow> bytes list \<Rightarrow> bool" where
  "file_fits fl ds \<longleftrightarrow> length ds < 2 ^ 56 \<and> length (concat ds) < 2 ^ 62 \<and> fl \<noteq> Some 0 \<and>
     (\<forall>d\<in>set ds. case fl of None \<Rightarrow> length d < 2 ^ 16 | Some L \<Rightarrow> length d = unat L)"

text \<open>The directory exists, with everything above it.\<close>

definition dir_ok :: "fspath \<Rightarrow> fsys \<Rightarrow> bool" where
  "dir_ok path fs \<longleftrightarrow> path \<noteq> [] \<and> list_all (\<lambda>n. fs (take n path) = Some Dir) [1..<Suc (length path)]"

definition pos_file_ok :: "fspath \<Rightarrow> u16 option \<Rightarrow> bytes list \<Rightarrow> nat \<Rightarrow> file_state \<Rightarrow> bool" where
  "pos_file_ok path fl ds k s \<longleftrightarrow>
     (case fl of
        None \<Rightarrow> (case m_pPositionFile (fst s) of
                   None \<Rightarrow> False
                 | Some pf \<Rightarrow> af_clean pf (snd s) \<and> af_content pf (snd s) = pos_bytes ds \<and>
                     af_path pf = path @ [''pmmr_pos.bin''] \<and> unat (m_bufferIndex pf) = k * 10)
      | Some L \<Rightarrow> m_pPositionFile (fst s) = None \<and> m_fixedLength (fst s) = L)"

text \<open>\<open>k\<close> is the number of leaves that were in the files when they were last loaded or committed.\<close>

definition file_rep :: "fspath \<Rightarrow> u16 option \<Rightarrow> (bytes \<Rightarrow> Hash) \<Rightarrow> bytes list \<Rightarrow> file_state \<Rightarrow> bool" where
  "file_rep path fl B ds s \<longleftrightarrow>
     file_fits fl ds \<and> dir_ok path (snd s) \<and> hash_file_ok s \<and>
     hash_chunks (af_content (m_pHashFile (fst s)) (snd s)) = mmr_nodes B ds \<and>
     af_path (m_pHashFile (fst s)) = path @ [''pmmr_hash.bin''] \<and>
     af_clean (m_pDataFile (fst s)) (snd s) \<and> af_content (m_pDataFile (fst s)) (snd s) = concat ds \<and>
     af_path (m_pDataFile (fst s)) = path @ [''pmmr_data.bin''] \<and>
     (\<exists>k\<le>length ds. unat (m_bufferIndex (m_pDataFile (fst s))) = leaf_offset ds k \<and> pos_file_ok path fl ds k s)"

lemma leaf_offset_Suc: "i < length ds \<Longrightarrow> leaf_offset ds (Suc i) = leaf_offset ds i + length (ds ! i)"
  by (simp add: leaf_offset_def take_Suc_conv_app_nth)

lemma leaf_offset_mono: "i \<le> j \<Longrightarrow> leaf_offset ds i \<le> leaf_offset ds j"
proof -
  assume "i \<le> j"
  then have "take j ds = take i ds @ drop i (take j ds)" by (metis append_take_drop_id min_absorb1 take_take)
  then show ?thesis unfolding leaf_offset_def by (metis concat_append length_append le_add1)
qed

lemma leaf_offset_length: "leaf_offset ds (length ds) = length (concat ds)"
  by (simp add: leaf_offset_def)

lemma leaf_offset_snoc: "k \<le> length ds \<Longrightarrow> leaf_offset (ds @ [d]) k = leaf_offset ds k"
  by (simp add: leaf_offset_def)

lemma leaf_boundary:
  assumes "i < length ds"
  shows "leaf_offset ds i + length (ds ! i) \<le> leaf_offset ds k \<or> leaf_offset ds k \<le> leaf_offset ds i"
proof (cases "i < k")
  case True
  then show ?thesis using leaf_offset_mono [of "Suc i" k ds] leaf_offset_Suc [OF assms] by simp
next
  case False
  then show ?thesis using leaf_offset_mono [of k i ds] by simp
qed

lemma leaf_offset_end: "i < length ds \<Longrightarrow> leaf_offset ds i + length (ds ! i) \<le> length (concat ds)"
  using leaf_offset_mono [of "Suc i" "length ds" ds] by (simp add: leaf_offset_Suc leaf_offset_length)

lemma leaf_at_offset:
  assumes "i < length ds"
  shows "take (length (ds ! i)) (drop (leaf_offset ds i) (concat ds)) = ds ! i"
proof -
  have "concat ds = concat (take i ds) @ ds ! i @ concat (drop (Suc i) ds)"
    using id_take_nth_drop [OF assms] by (metis concat.simps(2) concat_append)
  then show ?thesis by (simp add: leaf_offset_def)
qed

lemma leaf_offset_fixed:
  "\<forall>d\<in>set ds. length d = L \<Longrightarrow> i \<le> length ds \<Longrightarrow> leaf_offset ds i = i * L"
proof (induction i)
  case (Suc i)
  then show ?case by (simp add: leaf_offset_Suc add.commute)
qed (simp add: leaf_offset_def)

lemma length_pos_entry [simp]: "length (pos_entry ds i) = 10"
  by (simp add: pos_entry_def)

lemma length_concat_equal: "\<forall>x\<in>set xs. length x = n \<Longrightarrow> length (concat xs) = length xs * n"
  by (induction xs) auto

lemma length_pos_bytes [simp]: "length (pos_bytes ds) = length ds * 10"
  unfolding pos_bytes_def by (subst length_concat_equal [of _ 10]) simp_all

lemma pos_entry_at:
  assumes "i < length ds"
  shows "take 10 (drop (i * 10) (pos_bytes ds)) = pos_entry ds i"
proof -
  let ?xs = "map (pos_entry ds) [0..<length ds]"
  have "leaf_offset ?xs i = i * 10" using assms by (intro leaf_offset_fixed) auto
  then show ?thesis using leaf_at_offset [of i ?xs] assms by (simp add: pos_bytes_def)
qed

lemma pos_bytes_snoc:
  "pos_bytes (ds @ [d]) = pos_bytes ds @ be_bytes (of_nat (length (concat ds)) :: u64) @ be_bytes (of_nat (length d) :: u16)"
proof -
  have m: "map (pos_entry (ds @ [d])) [0..<length ds] = map (pos_entry ds) [0..<length ds]"
    by (simp add: pos_entry_def leaf_offset_snoc nth_append)
  have "pos_bytes (ds @ [d]) = concat (map (pos_entry (ds @ [d])) [0..<length ds]) @ pos_entry (ds @ [d]) (length ds)"
    by (simp add: pos_bytes_def)
  then have "pos_bytes (ds @ [d]) = pos_bytes ds @ pos_entry (ds @ [d]) (length ds)"
    unfolding m pos_bytes_def .
  then show ?thesis by (simp add: pos_entry_def leaf_offset_def)
qed

lemma file_fits_prefix: "file_fits fl (ds @ es) \<Longrightarrow> file_fits fl ds"
  by (auto simp: file_fits_def)

section \<open>The file backend satisfies the contract\<close>

lemma file_repD:
  assumes "file_rep path fl B ds s"
  shows "af_inv (m_pDataFile (fst s)) (snd s)" "af_content (m_pDataFile (fst s)) (snd s) = concat ds"
    "length (concat ds) < 2 ^ 62" "length ds < 2 ^ 56" "fl \<noteq> Some 0"
  using assms by (auto simp: file_rep_def file_fits_def af_clean_def)

text \<open>Reading the leaf at its offset.\<close>

lemma read_leaf_data:
  assumes "file_rep path fl B ds s" "i < length ds"
  shows "AppendOnlyFile_Read (m_pDataFile (fst s)) (of_nat (leaf_offset ds i)) (of_nat (length (ds ! i))) = Inr (ds ! i)"
proof -
  obtain k where "unat (m_bufferIndex (m_pDataFile (fst s))) = leaf_offset ds k" using assms(1) by (auto simp: file_rep_def)
  then show ?thesis
    using Read_content [OF file_repD(1) [OF assms(1)], of "leaf_offset ds i" "length (ds ! i)"]
      leaf_boundary [OF assms(2), of k] leaf_offset_end [OF assms(2)] leaf_at_offset [OF assms(2)]
    by (simp add: file_repD(2) [OF assms(1)])
qed

lemma GetPosEntry_ok:
  assumes "file_rep path None B ds s" "i < length ds"
  shows "GetPosEntry be (of_nat i) (fst s) =
    Inr \<lparr>pos_position = of_nat (leaf_offset ds i), pos_size = of_nat (length (ds ! i))\<rparr>"
proof -
  obtain pf k where pf: "m_pPositionFile (fst s) = Some pf" "af_clean pf (snd s)" "af_content pf (snd s) = pos_bytes ds"
    "unat (m_bufferIndex pf) = k * 10"
    using assms(1) by (auto simp: file_rep_def pos_file_ok_def split: option.splits)
  have "i * 10 + 10 \<le> unat (m_bufferIndex pf) \<or> unat (m_bufferIndex pf) \<le> i * 10"
    unfolding pf(4) by (intro multiple_boundary) simp_all
  then have rd: "AppendOnlyFile_Read pf (of_nat i * 10) 10 = Inr (pos_entry ds i)"
    using Read_content [of pf "snd s" "i * 10" 10] pf(2,3) assms(2) pos_entry_at [OF assms(2)]
    by (simp add: af_clean_def)
  let ?p = "of_nat (leaf_offset ds i) :: u64" and ?n = "of_nat (length (ds ! i)) :: u16"
  have "Read be (new_Deserializer (pos_entry ds i)) = Inr (?p, reader_at (be_bytes ?p) (be_bytes ?n))"
    using Read_exact [of "[]" ?p "be_bytes ?n" be] by (simp add: reader_at_Nil pos_entry_def)
  moreover have "Read be (reader_at (be_bytes ?p) (be_bytes ?n)) = Inr (?n, reader_at (be_bytes ?p @ be_bytes ?n) [])"
    using Read_exact [of "be_bytes ?p" ?n "[]" be] by simp
  ultimately show ?thesis by (simp add: GetPosEntry_def pf(1) rd)
qed

lemma file_GetLeaf_ok:
  assumes "file_rep path fl B ds s" "i < length ds"
  shows "FileBackend_GetLeaf B be (LeafIndex_At (of_nat i)) s = Inr (Leaf_Create B be (LeafIndex_At (of_nat i)) (ds ! i))"
proof -
  have li: "m_leafIndex (LeafIndex_At (of_nat i)) = of_nat i" by (simp add: LeafIndex_At_def mk_LeafIndex_def)
  have mem: "ds ! i \<in> set ds" using assms(2) by simp
  show ?thesis
  proof (cases fl)
    case None
    have l: "length (ds ! i) < 2 ^ 16" using assms(1) mem by (auto simp: file_rep_def file_fits_def None)
    have "(ucast (of_nat (length (ds ! i)) :: u16) :: u64) = of_nat (length (ds ! i))"
      using l by (simp add: word_unat_eq_iff unsigned_ucast_eq unat_of_nat take_bit_nat_eq_self)
    moreover obtain pf where "m_pPositionFile (fst s) = Some pf"
      using assms(1) by (auto simp: file_rep_def pos_file_ok_def None split: option.splits)
    ultimately show ?thesis
      using GetPosEntry_ok [of path B ds s i be] read_leaf_data [OF assms] assms None
      by (simp add: FileBackend_GetLeaf_def Let_def li)
  next
    case (Some L)
    have pn: "m_pPositionFile (fst s) = None" "m_fixedLength (fst s) = L"
      using assms(1) by (auto simp: file_rep_def pos_file_ok_def Some)
    have all: "\<forall>d\<in>set ds. length d = unat L" using assms(1) by (auto simp: file_rep_def file_fits_def Some)
    have "leaf_offset ds i = i * unat L" using leaf_offset_fixed [OF all, of i] assms(2) by simp
    moreover have "(ucast L :: u64) = of_nat (unat L)" by simp
    ultimately show ?thesis
      using read_leaf_data [OF assms] all mem pn by (simp add: FileBackend_GetLeaf_def Let_def li)
  qed
qed

lemma file_GetNumLeaves_ok:
  assumes "file_rep path fl B ds s"
  shows "FileBackend_GetNumLeaves s = Inr (of_nat (length ds))"
proof (cases fl)
  case None
  obtain pf where pf: "m_pPositionFile (fst s) = Some pf" "af_inv pf (snd s)" "af_content pf (snd s) = pos_bytes ds"
    using assms by (auto simp: file_rep_def pos_file_ok_def None af_clean_def split: option.splits)
  have "unat (AppendOnlyFile_GetSize pf div 10) = length ds"
    using GetSize_content(2) [OF pf(2)] pf(3) by (simp add: unat_div)
  then have "AppendOnlyFile_GetSize pf div 10 = of_nat (length ds)" by (metis of_nat_unat ucast_id)
  then show ?thesis by (simp add: FileBackend_GetNumLeaves_def pf(1))
next
  case (Some L)
  have pn: "m_pPositionFile (fst s) = None" "m_fixedLength (fst s) = L" "L \<noteq> 0"
    using assms by (auto simp: file_rep_def pos_file_ok_def Some file_fits_def)
  have all: "\<forall>d\<in>set ds. length d = unat L" using assms by (auto simp: file_rep_def file_fits_def Some)
  have "unat L < 2 ^ 16" using unsigned_less [of L] by simp
  then have uL: "unat (ucast L :: u64) = unat L" by (simp add: unsigned_ucast_eq take_bit_nat_eq_self)
  have "length (concat ds) = length ds * unat L" using all by (rule length_concat_equal)
  then have "unat (AppendOnlyFile_GetSize (m_pDataFile (fst s)) div ucast L) = length ds"
    using GetSize_content(2) [OF file_repD(1) [OF assms]] file_repD(2) [OF assms] pn(3)
    by (simp add: unat_div uL unat_gt_0)
  then have "AppendOnlyFile_GetSize (m_pDataFile (fst s)) div ucast L = of_nat (length ds)" by (metis of_nat_unat ucast_id)
  then show ?thesis by (simp add: FileBackend_GetNumLeaves_def pn)
qed

text \<open>Appending the data of a leaf: every file but the one of the hashes is as it should be afterwards.\<close>

lemma AppendData_ok:
  fixes be :: bool
  assumes "file_rep path fl B ds s" "file_fits fl (ds @ [d])"
  defines "s' \<equiv> (FileBackend_AppendData be d (fst s), snd s)"
  shows "m_pHashFile (fst s') = m_pHashFile (fst s)"
    "af_clean (m_pDataFile (fst s')) (snd s')" "af_content (m_pDataFile (fst s')) (snd s') = concat (ds @ [d])"
    "af_path (m_pDataFile (fst s')) = af_path (m_pDataFile (fst s))"
    "\<exists>k\<le>length ds. unat (m_bufferIndex (m_pDataFile (fst s'))) = leaf_offset (ds @ [d]) k \<and> pos_file_ok path fl (ds @ [d]) k s'"
proof -
  let ?df = "m_pDataFile (fst s)"
  have df: "af_clean ?df (snd s)" "af_content ?df (snd s) = concat ds" using assms(1) by (simp_all add: file_rep_def)
  have "length (concat (ds @ [d])) < 2 ^ 62" using assms(2) by (simp add: file_fits_def)
  then have "length (af_content ?df (snd s)) + length d < 2 ^ 63" using df(2) by simp
  note apd = af_clean_Append [OF df(1) this]
  have dfile: "m_pDataFile (fst s') = AppendOnlyFile_Append d ?df"
    by (simp add: s'_def FileBackend_AppendData_def Let_def split: option.split)
  show "m_pHashFile (fst s') = m_pHashFile (fst s)"
    by (simp add: s'_def FileBackend_AppendData_def Let_def split: option.split)
  show "af_clean (m_pDataFile (fst s')) (snd s')" "af_content (m_pDataFile (fst s')) (snd s') = concat (ds @ [d])"
    "af_path (m_pDataFile (fst s')) = af_path ?df"
    using apd df(2) unfolding dfile by (simp_all add: s'_def)
  obtain k where k: "k \<le> length ds" "unat (m_bufferIndex ?df) = leaf_offset ds k" "pos_file_ok path fl ds k s"
    using assms(1) by (auto simp: file_rep_def)
  have "pos_file_ok path fl (ds @ [d]) k s'"
  proof (cases fl)
    case None
    obtain pf where pf: "m_pPositionFile (fst s) = Some pf" "af_clean pf (snd s)" "af_content pf (snd s) = pos_bytes ds"
      "af_path pf = path @ [''pmmr_pos.bin'']" "unat (m_bufferIndex pf) = k * 10"
      using k(3) by (auto simp: pos_file_ok_def None split: option.splits)
    have sz: "AppendOnlyFile_GetSize ?df = of_nat (length (concat ds))"
      using GetSize_content(1) [of ?df "snd s"] df by (simp add: af_clean_def)
    let ?e = "be_bytes (of_nat (length (concat ds)) :: u64) @ be_bytes (of_nat (length d) :: u16)"
    have "length (af_content pf (snd s)) + length ?e < 2 ^ 63"
      using pf(3) file_repD(4) [OF assms(1)] by simp
    note app = af_clean_Append [OF pf(2) this]
    have "m_pPositionFile (fst s') = Some (AppendOnlyFile_Append ?e pf)"
      by (simp add: s'_def FileBackend_AppendData_def pf(1) Let_def sz new_Serializer_def mw_codec)
    then show ?thesis
      using app pf None by (simp add: pos_file_ok_def s'_def pos_bytes_snoc)
  next
    case (Some L)
    then show ?thesis
      using k(3) by (simp add: pos_file_ok_def s'_def FileBackend_AppendData_def Let_def)
  qed
  then show "\<exists>k\<le>length ds. unat (m_bufferIndex (m_pDataFile (fst s'))) = leaf_offset (ds @ [d]) k \<and> pos_file_ok path fl (ds @ [d]) k s'"
    using k by (intro exI [of _ k]) (simp add: dfile leaf_offset_snoc)
qed

lemma file_AddLeaf_ok:
  assumes "hash32 B" "file_rep path fl B ds s" "file_fits fl (ds @ [d])"
  shows "\<exists>s'. FileBackend_AddLeaf B be (Leaf_Create B be (LeafIndex_At (of_nat (length ds))) d) s = Inr s' \<and>
    file_rep path fl B (ds @ [d]) s'"
proof -
  let ?leaf = "Leaf_Create B be (LeafIndex_At (of_nat (length ds))) d"
  define s1 where "s1 = (FileBackend_AppendData be d (fst s), snd s)"
  note a = AppendData_ok [OF assms(2,3), of be, folded s1_def]
  have snd1: "snd s1 = snd s" by (simp add: s1_def)
  have "leaf_pos (Suc (length ds)) \<le> 2 ^ 57"
    using leaf_pos_le [of "Suc (length ds)"] assms(3) by (simp add: file_fits_def)
  moreover have "hash_file_ok s1" "hash_chunks (af_content (m_pHashFile (fst s1)) (snd s1)) = mmr_nodes B ds"
    using assms(2) a(1) snd1 by (simp_all add: file_rep_def hash_file_ok_def)
  ultimately obtain s' where s': "rbind (FileBackend_AddHash (leaf_hash ?leaf) s1) (\<lambda>s. AddLeaf_loop B be FileBackend_GetHash
      FileBackend_AddHash (leaf_hash ?leaf) (Index_GetNext (Leaf_GetNodeIndex ?leaf)) s) = Inr s'"
    "hash_file_ok s'" "hash_chunks (af_content (m_pHashFile (fst s')) (snd s')) = mmr_nodes B (ds @ [d])"
    "file_rest s' = file_rest s1"
    using file_store.add_leaf_hashes_ok [OF assms(1)] by blast
  have r: "m_pDataFile (fst s') = m_pDataFile (fst s1)" "m_pPositionFile (fst s') = m_pPositionFile (fst s1)"
    "m_fixedLength (fst s') = m_fixedLength (fst s1)" "snd s' = snd s1"
    "af_path (m_pHashFile (fst s')) = af_path (m_pHashFile (fst s1))"
    using s'(4) by (simp_all add: file_rest_def)
  obtain k where k: "k \<le> length ds" "unat (m_bufferIndex (m_pDataFile (fst s1))) = leaf_offset (ds @ [d]) k"
    "pos_file_ok path fl (ds @ [d]) k s1" using a(5) by blast
  have "pos_file_ok path fl (ds @ [d]) k s'" using k(3) unfolding pos_file_ok_def r .
  then have "file_rep path fl B (ds @ [d]) s'"
    unfolding file_rep_def using assms(2,3) s'(2,3) r a(1-4) k(1,2) snd1
    by (intro conjI exI [of _ k]) (simp_all add: file_rep_def)
  moreover have "FileBackend_AddLeaf B be ?leaf s = Inr s'"
    using s'(1) by (simp add: FileBackend_AddLeaf_def s1_def Leaf_Create_simps(3) Let_def)
  ultimately show ?thesis by blast
qed

interpretation file_mmr: mmr_backend "FileBackend_methods B be" B be "file_rep path fl B" "file_fits fl" for B be path fl
proof
  fix ds s and n :: nat assume r: "file_rep path fl B ds s" and n: "n < leaf_pos (length ds)"
  have "n < 2 ^ 57" using n leaf_pos_le [of "length ds"] file_repD(4) [OF r] by simp
  then show "ib_GetHash (FileBackend_methods B be) (idx n) s = Inr (node_val B ds n)"
    using r n file_store.getHash_ok [of s n] by (simp add: FileBackend_methods_def file_rep_def mmr_nodes_def)
next
  fix ds s d assume "hash32 B" "file_rep path fl B ds s" "file_fits fl (ds @ [d])"
  then show "\<exists>b'. ib_AddLeaf (FileBackend_methods B be) (Leaf_Create B be (LeafIndex_At (of_nat (length ds))) d) s = Inr b' \<and>
      file_rep path fl B (ds @ [d]) b'"
    unfolding FileBackend_methods_def IBackend.select_convs by (rule file_AddLeaf_ok)
next
  show "file_rep path fl B ds s \<Longrightarrow> file_fits fl ds" for ds s by (simp add: file_rep_def)
  show "file_fits fl ds \<Longrightarrow> length ds < 2 ^ 62" for ds by (simp add: file_fits_def)
qed (simp_all add: FileBackend_methods_def file_GetNumLeaves_ok file_GetLeaf_ok file_fits_prefix)

section \<open>Commit and reopening\<close>

lemma mkdirs_existing: "list_all (\<lambda>p. fs p = Some Dir) ps \<Longrightarrow> mkdirs ps fs = Some fs"
  by (induction ps) (simp_all add: mkdir_def)

lemma CreateDir_existing: "dir_ok path fs \<Longrightarrow> FilePath_CreateDirIfMissing path fs = Inr fs"
  using mkdirs_existing [of fs "map (\<lambda>n. take n path) [1..<Suc (length path)]"]
  by (simp add: FilePath_CreateDirIfMissing_def dir_ok_def list_all_iff del: upt_Suc)

lemma dir_ok_self: "dir_ok path fs \<Longrightarrow> fs path = Some Dir"
proof -
  assume d: "dir_ok path fs"
  then have "length path \<in> set [1..<Suc (length path)]" by (cases path) (auto simp: dir_ok_def)
  then have "fs (take (length path) path) = Some Dir" using d unfolding dir_ok_def list_all_iff by blast
  then show ?thesis by simp
qed

lemma dir_ok_update: "dir_ok path fs \<Longrightarrow> dir_ok path (fs(path @ [x] := v))"
  by (auto simp: dir_ok_def list_all_iff dest: arg_cong [of _ _ length])

lemma dir_ok_frame:
  "dir_ok path fs \<Longrightarrow> (\<And>q. length q \<le> length path \<Longrightarrow> fs' q = fs q) \<Longrightarrow> dir_ok path fs'"
  by (auto simp: dir_ok_def list_all_iff)

text \<open>Loading a file that exists, or that does not exist yet.\<close>

lemma Load_ok:
  assumes "dir_ok path fs" "fs (path @ [x]) = None \<and> c = [] \<or> fs (path @ [x]) = Some (RegFile c)" "length c < 2 ^ 63"
  defines "fs' \<equiv> fs(path @ [x] \<mapsto> RegFile c)"
  shows "\<exists>af. AppendOnlyFile_Load (path @ [x]) fs = Inr (af, fs') \<and> af_clean af fs' \<and> af_content af fs' = c \<and>
    af_path af = path @ [x] \<and> unat (m_bufferIndex af) = length c"
proof -
  let ?p = "path @ [x]"
  have par: "parent_path ?p = path" using assms(1) by (auto simp: parent_path_def dir_ok_def)
  have u: "unat (of_nat (length c) :: u64) = length c" using assms(3) by (intro unat_of_nat_u64) simp
  have "File_Create ?p fs = Inr fs'"
    using assms(1,2) par CreateDir_existing [OF assms(1)] dir_ok_self [OF assms(1)]
    by (auto simp: File_Create_def FilePath_GetParent_def dir_ok_def open_out_def fs'_def fun_upd_idem)
  moreover have "MemMap_Map (new_MemMap ?p) fs' = Inr \<lparr>mm_path = ?p, mm_view = c, m_mapped = (c \<noteq> [])\<rparr>"
    using assms(3) by (intro Map_new) (simp_all add: fs'_def)
  ultimately have "AppendOnlyFile_Load ?p fs = Inr ((new_AppendOnlyFile ?p (of_nat (length c)))
      \<lparr>af_mmap := \<lparr>mm_path = ?p, mm_view = c, m_mapped = (c \<noteq> [])\<rparr>\<rparr>, fs')"
    by (simp add: AppendOnlyFile_Load_def File_GetSize_def fs'_def new_AppendOnlyFile_def)
  then show ?thesis
    using assms(3) u by (auto simp: af_clean_def af_inv_def af_content_def file_bytes_def fs'_def new_AppendOnlyFile_def Let_def)
qed

lemma af_clean_frame: "fs' (af_path af) = fs (af_path af) \<Longrightarrow> af_clean af fs' = af_clean af fs"
  by (simp add: af_clean_def af_inv_def file_bytes_def Let_def)

lemma af_content_frame: "fs' (af_path af) = fs (af_path af) \<Longrightarrow> af_content af fs' = af_content af fs"
  by (simp add: af_content_def file_bytes_def)

lemma Commit_clean:
  assumes "af_clean af fs"
  shows "\<exists>af' fs'. AppendOnlyFile_Commit af fs = Inr (af', fs') \<and> af_clean af' fs' \<and> af_path af' = af_path af \<and>
    af_content af' fs' = af_content af fs \<and> fs' = fs(af_path af \<mapsto> RegFile (af_content af fs)) \<and>
    unat (m_bufferIndex af') = length (af_content af fs)"
proof -
  have inv: "af_inv af fs" using assms by (simp add: af_clean_def)
  have c: "take (unat (m_bufferIndex af) + length (m_buffer af)) (file_bytes (af_path af) fs @ m_buffer af) = af_content af fs"
    using assms af_invD(2) [OF inv] by (simp add: af_clean_def af_content_def)
  obtain af' fs' where r: "AppendOnlyFile_Commit af fs = Inr (af', fs')" "af_inv af' fs'" "af_path af' = af_path af"
    "file_bytes (af_path af) fs' = af_content af fs" "af_content af' fs' = af_content af fs"
    "\<forall>q. q \<noteq> af_path af \<longrightarrow> fs' q = fs q" "m_buffer af' = []" "m_bufferIndex af' = m_fileSize af'"
    using Commit_file [OF inv] unfolding c by blast
  have "fs' = fs(af_path af \<mapsto> RegFile (af_content af fs))"
    using r(3,4,6) af_invD(1) [OF r(2)] by (auto simp: fun_eq_iff)
  moreover have "unat (m_bufferIndex af') = length (af_content af fs)"
    using af_invD(2) [OF r(2)] r(3,4,8) by simp
  ultimately show ?thesis using r by (auto simp: af_clean_def)
qed

text \<open>A backend whose three files hold what they should, wherever they were last flushed.\<close>

lemma file_repI:
  assumes "file_fits fl ds" "dir_ok path fs" "af_clean h fs" "length (af_content h fs) = leaf_pos (length ds) * 32"
    "hash_chunks (af_content h fs) = mmr_nodes B ds" "unat (m_bufferIndex h) = length (af_content h fs)"
    "af_path h = path @ [''pmmr_hash.bin'']"
    "af_clean d fs" "af_content d fs = concat ds" "unat (m_bufferIndex d) = length (concat ds)" "af_path d = path @ [''pmmr_data.bin'']"
    "case fl of None \<Rightarrow> (\<exists>pf. p = Some pf \<and> af_clean pf fs \<and> af_content pf fs = pos_bytes ds \<and>
        unat (m_bufferIndex pf) = length (pos_bytes ds) \<and> af_path pf = path @ [''pmmr_pos.bin''])
     | Some L' \<Rightarrow> p = None \<and> L = L'"
  shows "file_rep path fl B ds (\<lparr>m_pHashFile = h, m_pDataFile = d, m_pPositionFile = p, m_fixedLength = L\<rparr>, fs)"
proof -
  have "pos_file_ok path fl ds (length ds) (\<lparr>m_pHashFile = h, m_pDataFile = d, m_pPositionFile = p, m_fixedLength = L\<rparr>, fs)"
    using assms(12) by (auto simp: pos_file_ok_def split: option.splits)
  then show ?thesis
    unfolding file_rep_def using assms by (auto simp: hash_file_ok_def leaf_offset_length intro!: exI [of _ "length ds"])
qed

lemma hash_file_length:
  assumes "file_rep path fl B ds s"
  shows "length (af_content (m_pHashFile (fst s)) (snd s)) = leaf_pos (length ds) * 32"
proof -
  let ?c = "af_content (m_pHashFile (fst s)) (snd s)"
  have "length (hash_chunks ?c) = leaf_pos (length ds)" "32 dvd length ?c"
    using assms by (simp_all add: file_rep_def hash_file_ok_def)
  then show ?thesis by (auto simp: hash_chunks_def elim!: dvdE)
qed

text \<open>The bytes of one of the files of the backend, empty if it does not exist.\<close>

definition file_has :: "fsys \<Rightarrow> fspath \<Rightarrow> bytes \<Rightarrow> bool" where
  "file_has fs p c \<longleftrightarrow> fs p = None \<and> c = [] \<or> fs p = Some (RegFile c)"

text \<open>The files of the backend under \<open>path\<close> hold the MMR over \<open>ds\<close>.\<close>

definition files_hold :: "fspath \<Rightarrow> u16 option \<Rightarrow> (bytes \<Rightarrow> Hash) \<Rightarrow> bytes list \<Rightarrow> fsys \<Rightarrow> bool" where
  "files_hold path fl B ds fs \<longleftrightarrow>
     dir_ok path fs \<and> file_fits fl ds \<and>
     (\<exists>h. file_has fs (path @ [''pmmr_hash.bin'']) h \<and> length h = leaf_pos (length ds) * 32 \<and> hash_chunks h = mmr_nodes B ds) \<and>
     file_has fs (path @ [''pmmr_data.bin'']) (concat ds) \<and>
     (fl = None \<longrightarrow> file_has fs (path @ [''pmmr_pos.bin'']) (pos_bytes ds))"

lemma file_has_update: "p \<noteq> q \<Longrightarrow> file_has (fs(q := v)) p c = file_has fs p c"
  by (simp add: file_has_def)

lemma Load_has:
  assumes "dir_ok path fs" "file_has fs (path @ [x]) c" "length c < 2 ^ 63"
  shows "\<exists>af. AppendOnlyFile_Load (path @ [x]) fs = Inr (af, fs(path @ [x] \<mapsto> RegFile c)) \<and>
    af_clean af (fs(path @ [x] \<mapsto> RegFile c)) \<and> af_content af (fs(path @ [x] \<mapsto> RegFile c)) = c \<and>
    af_path af = path @ [x] \<and> unat (m_bufferIndex af) = length c"
  using assms(2) by (intro Load_ok assms(1,3)) (simp add: file_has_def)

lemma Open_ok:
  assumes "files_hold path fl B ds fs"
  shows "\<exists>s. FileBackend_Open path fl fs = Inr s \<and> file_rep path fl B ds s"
proof -
  obtain h where h: "file_has fs (path @ [''pmmr_hash.bin'']) h" "length h = leaf_pos (length ds) * 32" "hash_chunks h = mmr_nodes B ds"
    and dir: "dir_ok path fs" and fits: "file_fits fl ds"
    and dat: "file_has fs (path @ [''pmmr_data.bin'']) (concat ds)"
    and pos: "fl = None \<Longrightarrow> file_has fs (path @ [''pmmr_pos.bin'']) (pos_bytes ds)"
    using assms by (auto simp: files_hold_def)
  have lens: "length h < 2 ^ 63" "length (concat ds) < 2 ^ 63" "length (pos_bytes ds) < 2 ^ 63"
    using fits h(2) leaf_pos_le [of "length ds"] by (simp_all add: file_fits_def)
  let ?fs1 = "fs(path @ [''pmmr_hash.bin''] \<mapsto> RegFile h)"
  let ?fs2 = "?fs1(path @ [''pmmr_data.bin''] \<mapsto> RegFile (concat ds))"
  let ?fs3 = "?fs2(path @ [''pmmr_pos.bin''] \<mapsto> RegFile (pos_bytes ds))"
  obtain hf where hf: "AppendOnlyFile_Load (path @ [''pmmr_hash.bin'']) fs = Inr (hf, ?fs1)" "af_clean hf ?fs1"
    "af_content hf ?fs1 = h" "af_path hf = path @ [''pmmr_hash.bin'']" "unat (m_bufferIndex hf) = length h"
    using Load_has [OF dir h(1) lens(1)] by blast
  have dir1: "dir_ok path ?fs1" "dir_ok path ?fs2" "dir_ok path ?fs3" by (simp_all add: dir dir_ok_update)
  have "file_has ?fs1 (path @ [''pmmr_data.bin'']) (concat ds)" using dat by (simp add: file_has_update)
  then obtain df where df: "AppendOnlyFile_Load (path @ [''pmmr_data.bin'']) ?fs1 = Inr (df, ?fs2)" "af_clean df ?fs2"
    "af_content df ?fs2 = concat ds" "af_path df = path @ [''pmmr_data.bin'']" "unat (m_bufferIndex df) = length (concat ds)"
    using Load_has [OF dir1(1) _ lens(2)] by blast
  have hf2: "af_clean hf ?fs2" "af_content hf ?fs2 = h" using hf by (simp_all add: af_clean_frame [of ?fs2 hf ?fs1] af_content_frame [of ?fs2 hf ?fs1])
  show ?thesis
  proof (cases fl)
    case None
    have "file_has ?fs2 (path @ [''pmmr_pos.bin'']) (pos_bytes ds)" using pos None by (simp add: file_has_update)
    then obtain pf where pf: "AppendOnlyFile_Load (path @ [''pmmr_pos.bin'']) ?fs2 = Inr (pf, ?fs3)" "af_clean pf ?fs3"
      "af_content pf ?fs3 = pos_bytes ds" "af_path pf = path @ [''pmmr_pos.bin'']" "unat (m_bufferIndex pf) = length (pos_bytes ds)"
      using Load_has [OF dir1(2) _ lens(3)] by blast
    have hf3: "af_clean hf ?fs3" "af_content hf ?fs3 = h"
      using hf2 hf(4) by (simp_all add: af_clean_frame [of ?fs3 hf ?fs2] af_content_frame [of ?fs3 hf ?fs2])
    have df3: "af_clean df ?fs3" "af_content df ?fs3 = concat ds"
      using df by (simp_all add: af_clean_frame [of ?fs3 df ?fs2] af_content_frame [of ?fs3 df ?fs2])
    have "file_rep path fl B ds (\<lparr>m_pHashFile = hf, m_pDataFile = df, m_pPositionFile = Some pf, m_fixedLength = 0\<rparr>, ?fs3)"
      by (rule file_repI [OF fits dir1(3) hf3(1)]) (use hf3 hf df df3 pf h None in simp_all)
    then show ?thesis
      using hf(1) df(1) pf(1) None by (simp add: FileBackend_Open_def FilePath_GetChild_def)
  next
    case (Some L)
    have "file_rep path fl B ds (\<lparr>m_pHashFile = hf, m_pDataFile = df, m_pPositionFile = None, m_fixedLength = L\<rparr>, ?fs2)"
      by (rule file_repI [OF fits dir1(2) hf2(1)]) (use hf2 hf df h Some in simp_all)
    then show ?thesis
      using hf(1) df(1) Some by (simp add: FileBackend_Open_def FilePath_GetChild_def)
  qed
qed

lemma file_Commit_ok:
  assumes "file_rep path fl B ds s"
  shows "\<exists>s'. FileBackend_Commit s = Inr s' \<and> files_hold path fl B ds (snd s') \<and> file_rep path fl B ds s'"
proof -
  obtain b fs where s: "s = (b, fs)" by (cases s)
  let ?h = "m_pHashFile b" and ?d = "m_pDataFile b"
  let ?ch = "af_content ?h fs"
  have R: "af_clean ?h fs" "hash_chunks ?ch = mmr_nodes B ds" "af_path ?h = path @ [''pmmr_hash.bin'']"
    "af_clean ?d fs" "af_content ?d fs = concat ds" "af_path ?d = path @ [''pmmr_data.bin'']"
    "dir_ok path fs" "file_fits fl ds"
    using assms by (simp_all add: file_rep_def hash_file_ok_def s)
  have len: "length ?ch = leaf_pos (length ds) * 32" using hash_file_length [OF assms] by (simp add: s)
  let ?fs1 = "fs(path @ [''pmmr_hash.bin''] \<mapsto> RegFile ?ch)"
  let ?fs2 = "?fs1(path @ [''pmmr_data.bin''] \<mapsto> RegFile (concat ds))"
  obtain h' where h': "AppendOnlyFile_Commit ?h fs = Inr (h', ?fs1)" "af_clean h' ?fs1" "af_path h' = af_path ?h"
    "af_content h' ?fs1 = ?ch" "unat (m_bufferIndex h') = length ?ch"
    using Commit_clean [OF R(1)] R(3) by auto
  have d1: "af_clean ?d ?fs1" "af_content ?d ?fs1 = concat ds"
    using R by (simp_all add: af_clean_frame [of ?fs1 ?d fs] af_content_frame [of ?fs1 ?d fs])
  obtain d' where d': "AppendOnlyFile_Commit ?d ?fs1 = Inr (d', ?fs2)" "af_clean d' ?fs2" "af_path d' = af_path ?d"
    "af_content d' ?fs2 = concat ds" "unat (m_bufferIndex d') = length (concat ds)"
    using Commit_clean [OF d1(1)] d1(2) R(6) by auto
  have h2: "af_clean h' ?fs2" "af_content h' ?fs2 = ?ch"
    using h' R by (simp_all add: af_clean_frame [of ?fs2 h' ?fs1] af_content_frame [of ?fs2 h' ?fs1])
  show ?thesis
  proof (cases fl)
    case None
    obtain p where p: "m_pPositionFile b = Some p" "af_clean p fs" "af_content p fs = pos_bytes ds" "af_path p = path @ [''pmmr_pos.bin'']"
      using assms by (auto simp: file_rep_def pos_file_ok_def None s split: option.splits)
    let ?fs3 = "?fs2(path @ [''pmmr_pos.bin''] \<mapsto> RegFile (pos_bytes ds))"
    have p2: "af_clean p ?fs2" "af_content p ?fs2 = pos_bytes ds"
      using p by (simp_all add: af_clean_frame [of ?fs2 p fs] af_content_frame [of ?fs2 p fs])
    obtain p' where p': "AppendOnlyFile_Commit p ?fs2 = Inr (p', ?fs3)" "af_clean p' ?fs3" "af_path p' = af_path p"
      "af_content p' ?fs3 = pos_bytes ds" "unat (m_bufferIndex p') = length (pos_bytes ds)"
      using Commit_clean [OF p2(1)] p2(2) p(4) by auto
    let ?s' = "(\<lparr>m_pHashFile = h', m_pDataFile = d', m_pPositionFile = Some p', m_fixedLength = m_fixedLength b\<rparr>, ?fs3)"
    have "FileBackend_Commit s = Inr ?s'" using h'(1) d'(1) p'(1) p(1) by (simp add: FileBackend_Commit_def s Let_def)
    moreover have "files_hold path fl B ds ?fs3"
      using R len None by (auto simp: files_hold_def file_has_def dir_ok_update)
    moreover have "file_rep path fl B ds ?s'"
      by (rule file_repI [where fs = ?fs3]) (use R len h' h2 d' p p' None in \<open>simp_all add: dir_ok_update
          af_clean_frame [of ?fs3 h' ?fs2] af_content_frame [of ?fs3 h' ?fs2]
          af_clean_frame [of ?fs3 d' ?fs2] af_content_frame [of ?fs3 d' ?fs2]\<close>)
    ultimately show ?thesis by (intro exI [of _ ?s']) simp
  next
    case (Some L)
    have p: "m_pPositionFile b = None" "m_fixedLength b = L"
      using assms by (auto simp: file_rep_def pos_file_ok_def Some s)
    let ?s' = "(\<lparr>m_pHashFile = h', m_pDataFile = d', m_pPositionFile = None, m_fixedLength = m_fixedLength b\<rparr>, ?fs2)"
    have "FileBackend_Commit s = Inr ?s'" using h'(1) d'(1) p(1) by (simp add: FileBackend_Commit_def s Let_def)
    moreover have "files_hold path fl B ds ?fs2"
      using R len Some by (auto simp: files_hold_def file_has_def dir_ok_update)
    moreover have "file_rep path fl B ds ?s'"
      by (rule file_repI [where fs = ?fs2]) (use R len h' h2 d' p Some in \<open>simp_all add: dir_ok_update\<close>)
    ultimately show ?thesis by (intro exI [of _ ?s']) simp
  qed
qed

section \<open>Properties\<close>


definition fs_empty :: fsys where
  "fs_empty = [[''/''] \<mapsto> Dir]"

lemma files_hold_empty: "fl \<noteq> Some 0 \<Longrightarrow> files_hold [''/''] fl B [] fs_empty"
  by (auto simp: files_hold_def dir_ok_def fs_empty_def file_fits_def file_has_def hash_chunks_def mmr_nodes_def pos_bytes_def)




text \<open>
  C7. \<open>Rewind\<close> of the file backend cuts the position file and the hash file at a leaf number and a node position
  where a byte offset is needed (they hold 10 and 32 bytes per entry): after rewinding to \<open>k\<close> leaves the
  backend counts \<open>k div 10\<close> leaves. In fixed-length mode it dereferences a null pointer.
\<close>

theorem FileBackend_Rewind_units:
  assumes "file_rep path fl B ds s" "0 < k" "k \<le> length ds"
  shows "if fl = None
    then \<exists>s'. FileBackend_Rewind be (LeafIndex_At (of_nat k)) s = Inr s' \<and>
      FileBackend_GetNumLeaves s' = Inr (of_nat (k div 10)) \<and>
      af_content (m_pHashFile (fst s')) (snd s') = take (leaf_pos k) (af_content (m_pHashFile (fst s)) (snd s)) \<and>
      af_content (m_pDataFile (fst s')) (snd s') = concat (take k ds)
    else FileBackend_Rewind be (LeafIndex_At (of_nat k)) s = Inl UndefinedBehaviour"
proof (cases fl)
  case (Some L)
  then show ?thesis
    using assms(1) by (auto simp: file_rep_def pos_file_ok_def FileBackend_Rewind_def GetPosEntry_def Let_def)
next
  case None
  let ?b = "fst s" and ?fs = "snd s"
  have kl: "k < 2 ^ 56" using assms(3) file_repD(4) [OF assms(1)] by simp
  have li: "LeafIndex_At (of_nat k) = \<lparr>m_leafIndex = of_nat k, m_nodeIndex = idx (leaf_pos k)\<rparr>"
    using kl by (intro LeafIndex_At_of_nat) simp
  obtain j where j: "k = Suc j" using assms(2) by (cases k) auto
  have pe: "GetPosEntry be (of_nat k - 1) ?b = Inr \<lparr>pos_position = of_nat (leaf_offset ds j), pos_size = of_nat (length (ds ! j))\<rparr>"
    using GetPosEntry_ok [of path B ds s j be] assms(1,3) None j by simp
  have l16: "length (ds ! j) < 2 ^ 16" using assms(1,3) j None by (auto simp: file_rep_def file_fits_def)
  have "leaf_offset ds k = leaf_offset ds j + length (ds ! j)" using assms(3) j by (simp add: leaf_offset_Suc)
  moreover have "(ucast (of_nat (length (ds ! j)) :: u16) :: u64) = of_nat (length (ds ! j))"
    using l16 by (simp add: word_unat_eq_iff unsigned_ucast_eq unat_of_nat take_bit_nat_eq_self)
  ultimately have off: "of_nat (leaf_offset ds j) + ucast (of_nat (length (ds ! j)) :: u16) = (of_nat (leaf_offset ds k) :: u64)"
    by simp
  have ol: "leaf_offset ds k \<le> length (concat ds)" using leaf_offset_mono [OF assms(3), of ds] by (simp add: leaf_offset_length)
  have uo: "unat (of_nat (leaf_offset ds k) :: u64) = leaf_offset ds k" "unat (of_nat k :: u64) = k"
    "unat (of_nat (leaf_pos k) :: u64) = leaf_pos k"
    using ol file_repD(3) [OF assms(1)] kl leaf_pos_le [of k] by (simp_all add: unat_of_nat_u64)
  obtain pf where pf: "m_pPositionFile ?b = Some pf" "af_inv pf ?fs" "af_content pf ?fs = pos_bytes ds"
    using assms(1) by (auto simp: file_rep_def pos_file_ok_def None af_clean_def split: option.splits)
  obtain pf' where pf': "AppendOnlyFile_Rewind (of_nat k) pf = Inr pf'" "af_inv pf' ?fs" "af_content pf' ?fs = take k (pos_bytes ds)"
    using Rewind_content(1) [OF pf(2), of "of_nat k"] assms(3) pf(3) uo(2) by auto
  obtain df' where df': "AppendOnlyFile_Rewind (of_nat (leaf_offset ds k)) (m_pDataFile ?b) = Inr df'"
      "af_content df' ?fs = take (leaf_offset ds k) (concat ds)"
    using Rewind_content(1) [OF file_repD(1) [OF assms(1)], of "of_nat (leaf_offset ds k)"] ol uo(1)
    by (auto simp: file_repD(2) [OF assms(1)])
  have hi: "af_inv (m_pHashFile ?b) ?fs" using assms(1) by (simp add: file_rep_def hash_file_ok_def af_clean_def)
  have "leaf_pos k \<le> length (af_content (m_pHashFile ?b) ?fs)"
    using hash_file_length [OF assms(1)] leaf_pos_mono [OF assms(3)] by simp
  then obtain hf' where hf': "AppendOnlyFile_Rewind (of_nat (leaf_pos k)) (m_pHashFile ?b) = Inr hf'"
      "af_content hf' ?fs = take (leaf_pos k) (af_content (m_pHashFile ?b) ?fs)"
    using Rewind_content(1) [OF hi, of "of_nat (leaf_pos k)"] uo(3) by auto
  let ?s' = "(?b\<lparr>m_pPositionFile := Some pf', m_pDataFile := df', m_pHashFile := hf'\<rparr>, ?fs)"
  have "FileBackend_Rewind be (LeafIndex_At (of_nat k)) s = Inr ?s'"
    by (simp add: FileBackend_Rewind_def Let_def li pe off pf(1) pf'(1) df'(1) hf'(1) LeafIndex_GetPosition_def)
  moreover have "unat (AppendOnlyFile_GetSize pf' div 10) = k div 10"
    using GetSize_content(2) [OF pf'(2)] pf'(3) assms(3) by (simp add: unat_div)
  then have "AppendOnlyFile_GetSize pf' div 10 = of_nat (k div 10)" by (metis of_nat_unat ucast_id)
  then have "FileBackend_GetNumLeaves ?s' = Inr (of_nat (k div 10))" by (simp add: FileBackend_GetNumLeaves_def)
  moreover have "take (leaf_offset ds k) (concat ds) = concat (take k ds)"
    using arg_cong [OF append_take_drop_id [of k ds], of concat] by (metis append_eq_conv_conj concat_append leaf_offset_def)
  ultimately show ?thesis using df'(2) hf'(2) None by auto
qed

theorem FileBackend_Rewind_units_witness:
  "\<exists>s s' s''. FileBackend_Open [''/''] None fs_empty = Inr s \<and>
     rfold (MMR_Add (FileBackend_methods B_example False) B_example False) [[1], [2]] s = Inr s' \<and>
     FileBackend_GetNumLeaves s' = Inr 2 \<and>
     FileBackend_Rewind False (LeafIndex_At (of_nat 1)) s' = Inr s'' \<and> FileBackend_GetNumLeaves s'' = Inr 0"
proof -
  let ?V = "FileBackend_methods B_example False"
  have f: "files_hold [''/''] None B_example [] fs_empty" by (rule files_hold_empty) simp
  have h: "file_fits None ([] @ [[1], [2]])" by (simp add: file_fits_def)
  obtain s where s: "FileBackend_Open [''/''] None fs_empty = Inr s" "file_rep [''/''] None B_example [] s"
    using Open_ok [OF f] by blast
  obtain s' where s': "rfold (MMR_Add ?V B_example False) [[1], [2]] s = Inr s'" "file_rep [''/''] None B_example ([] @ [[1], [2]]) s'"
    using file_mmr.Add_all_ok [OF hash32_B_example s(2) h] by blast
  obtain s'' where "FileBackend_Rewind False (LeafIndex_At (of_nat 1)) s' = Inr s''" "FileBackend_GetNumLeaves s'' = Inr (of_nat (1 div 10))"
    using FileBackend_Rewind_units [OF s'(2), of 1 False] by auto
  then have "FileBackend_Rewind False (LeafIndex_At (of_nat 1)) s' = Inr s'' \<and> FileBackend_GetNumLeaves s'' = Inr 0" by simp
  moreover have "FileBackend_GetNumLeaves s' = Inr 2" using file_GetNumLeaves_ok [OF s'(2)] by simp
  ultimately show ?thesis using s(1) s'(1) by blast
qed

end
