(* ===== verification/MW_Crypto.thy ===== *)
theory MW_Crypto
  imports MW_Crypto_Models "HOL-Library.AList"
begin

text \<open>
  The wrapper class \<open>Crypto\<close> (\<^verbatim>\<open>src/crypto/Crypto.cpp\<close>) and the classes behind it: \<open>ConversionUtil\<close>,
  \<open>Pedersen\<close>, \<open>PublicKeys\<close>, \<open>AggSig\<close>, \<open>Bulletproofs\<close> with its cache, and the random number source.
  The elliptic curve library (secp256k1-zkp) is the parameter \<open>S\<close>, a record of the functions the sources
  call: \<open>None\<close> stands for a return value other than 1, opaque structures of the library are type variables.
  \<open>pedersen_laws\<close> states what the library documents of commitments. A pointer handed to the
  library is read for the number of bytes the library documents: \<open>read_ptr\<close> is undefined behaviour
  when the buffer is shorter.
\<close>

section \<open>The library as a parameter\<close>

record ('cm, 'pk, 'ss, 'gen) secp =
  secp_commitment_parse :: "bytes \<Rightarrow> 'cm option"
  secp_commitment_serialize :: "'cm \<Rightarrow> bytes option"
  secp_pedersen_commit :: "bytes \<Rightarrow> u64 \<Rightarrow> 'cm option"
  secp_pedersen_commit_sum :: "'cm list \<Rightarrow> 'cm list \<Rightarrow> 'cm option"
  secp_pedersen_blind_sum :: "bytes list \<Rightarrow> nat \<Rightarrow> bytes option"
  secp_blind_switch :: "bytes \<Rightarrow> u64 \<Rightarrow> bytes option"
  secp_commitment_to_pubkey :: "'cm \<Rightarrow> 'pk option"
  secp_pubkey_serialize :: "'pk \<Rightarrow> bytes option"
  secp_pubkey_parse :: "bytes \<Rightarrow> 'pk option"
  secp_pubkey_create :: "bytes \<Rightarrow> 'pk option"
  secp_pubkey_combine :: "'pk list \<Rightarrow> 'pk option"
  secp_seckey_verify :: "bytes \<Rightarrow> bool"
  secp_privkey_tweak_add :: "bytes \<Rightarrow> bytes \<Rightarrow> bytes option"
  secp_signature_parse_compact :: "bytes \<Rightarrow> bytes option"
  secp_signature_serialize_compact :: "bytes \<Rightarrow> bytes option"
  secp_schnorrsig_parse :: "bytes \<Rightarrow> 'ss option"
  secp_schnorrsig_verify_batch :: "'ss list \<Rightarrow> bytes list \<Rightarrow> 'pk list \<Rightarrow> bool"
  secp_context_randomize :: "bytes \<Rightarrow> bool"
  secp_export_secnonce :: "bytes \<Rightarrow> bytes option"
  secp_sign_single :: "bytes \<Rightarrow> bytes \<Rightarrow> bytes option \<Rightarrow> 'pk option \<Rightarrow> 'pk option \<Rightarrow> 'pk option \<Rightarrow> bytes \<Rightarrow> bytes option"
  secp_verify_single :: "bytes \<Rightarrow> bytes \<Rightarrow> 'pk option \<Rightarrow> 'pk \<Rightarrow> 'pk option \<Rightarrow> bool \<Rightarrow> bool"
  secp_add_signatures :: "bytes list \<Rightarrow> 'pk \<Rightarrow> bytes option"
  secp_bulletproof_verify_multi :: "'gen \<Rightarrow> bytes list \<Rightarrow> 'cm list \<Rightarrow> bool"
  secp_bulletproof_prove :: "'gen \<Rightarrow> u64 \<Rightarrow> bytes \<Rightarrow> bytes \<Rightarrow> bytes \<Rightarrow> bytes \<Rightarrow> bytes option"
  secp_bulletproof_rewind :: "bytes \<Rightarrow> 'cm \<Rightarrow> bytes \<Rightarrow> (u64 \<times> bytes \<times> bytes) option"

definition read_ptr :: "nat \<Rightarrow> bytes \<Rightarrow> bytes result" where
  "read_ptr n buf = (if n \<le> length buf then Inr (take n buf) else Inl UndefinedBehaviour)"

lemma read_ptr_exact [simp]: "length buf = n \<Longrightarrow> read_ptr n buf = Inr buf"
  by (simp add: read_ptr_def)

definition or_throw :: "string \<Rightarrow> 'a option \<Rightarrow> 'a result" where
  "or_throw msg r = (case r of Some x \<Rightarrow> Inr x | None \<Rightarrow> Inl (CryptoException msg))"

lemma or_throw_simps [simp]:
  "or_throw msg (Some x) = Inr x" "or_throw msg None = Inl (CryptoException msg)"
  by (simp_all add: or_throw_def)

lemma or_throw_Inr [simp]: "or_throw msg r = Inr x \<longleftrightarrow> r = Some x"
  by (cases r) auto

section \<open>ConversionUtil\<close>

definition ToPublicKey_pubkey :: "('cm, 'pk, 'ss, 'gen) secp \<Rightarrow> 'pk \<Rightarrow> PublicKey result" where
  "ToPublicKey_pubkey S pubkey =
     rbind (or_throw ''Failed to convert to PublicKey'' (secp_pubkey_serialize S pubkey)) (\<lambda>out.
       Inr (mk_PublicKey (mk_BigInt out)))"

definition ToSecp256k1_pubkey :: "('cm, 'pk, 'ss, 'gen) secp \<Rightarrow> PublicKey \<Rightarrow> 'pk result" where
  "ToSecp256k1_pubkey S publicKey =
     or_throw (''Failed to parse pubkey: '' @ BigInt_ToHex (m_compressed publicKey))
       (secp_pubkey_parse S (big_bytes (m_compressed publicKey)))"

definition ToSecp256k1_pubkeys :: "('cm, 'pk, 'ss, 'gen) secp \<Rightarrow> PublicKey list \<Rightarrow> 'pk list result" where
  "ToSecp256k1_pubkeys S publicKeys = rmapM (ToSecp256k1_pubkey S) publicKeys"

definition ToSecp256k1_commitment :: "('cm, 'pk, 'ss, 'gen) secp \<Rightarrow> Commitment \<Rightarrow> 'cm result" where
  "ToSecp256k1_commitment S commitment =
     rbind (read_ptr 33 (big_bytes (commit_bytes commitment))) (\<lambda>ptr.
       or_throw (''Failed to parse commitment: '' @ Commitment_ToHex commitment) (secp_commitment_parse S ptr))"

definition ToSecp256k1_commitments :: "('cm, 'pk, 'ss, 'gen) secp \<Rightarrow> Commitment list \<Rightarrow> 'cm list result" where
  "ToSecp256k1_commitments S commitments = rmapM (ToSecp256k1_commitment S) commitments"

definition ToCommitment :: "('cm, 'pk, 'ss, 'gen) secp \<Rightarrow> 'cm \<Rightarrow> Commitment result" where
  "ToCommitment S commitment =
     rbind (or_throw ''Failed to serialize commitment.'' (secp_commitment_serialize S commitment)) (\<lambda>out.
       Inr (mk_Commitment (mk_BigInt out)))"

definition ToPublicKey_commitment :: "('cm, 'pk, 'ss, 'gen) secp \<Rightarrow> Commitment \<Rightarrow> PublicKey result" where
  "ToPublicKey_commitment S commitment =
     rbind (ToSecp256k1_commitment S commitment) (\<lambda>parsedCommitment.
     rbind (or_throw (''Failed to convert commitment ('' @ Commitment_ToHex commitment @ '') to pubkey'')
              (secp_commitment_to_pubkey S parsedCommitment)) (\<lambda>pubkey.
       ToPublicKey_pubkey S pubkey))"

definition ToSecp256k1_compact :: "('cm, 'pk, 'ss, 'gen) secp \<Rightarrow> CompactSignature \<Rightarrow> bytes result" where
  "ToSecp256k1_compact S signature =
     rbind (read_ptr 64 (big_bytes (sig_bytes signature))) (\<lambda>ptr.
       or_throw (''Failed to parse signature: '' @ BigInt_ToHex (sig_bytes signature)) (secp_signature_parse_compact S ptr))"

definition ToSecp256k1_compacts :: "('cm, 'pk, 'ss, 'gen) secp \<Rightarrow> CompactSignature list \<Rightarrow> bytes list result" where
  "ToSecp256k1_compacts S signatures = rmapM (ToSecp256k1_compact S) signatures"

definition ToSecp256k1_schnorr :: "('cm, 'pk, 'ss, 'gen) secp \<Rightarrow> Signature \<Rightarrow> 'ss result" where
  "ToSecp256k1_schnorr S signature =
     rbind (read_ptr 64 (big_bytes (sig_bytes signature))) (\<lambda>ptr.
       or_throw (''Failed to parse signature: '' @ BigInt_ToHex (sig_bytes signature)) (secp_schnorrsig_parse S ptr))"

definition ToSecp256k1_schnorrs :: "('cm, 'pk, 'ss, 'gen) secp \<Rightarrow> Signature list \<Rightarrow> 'ss list result" where
  "ToSecp256k1_schnorrs S signatures = rmapM (ToSecp256k1_schnorr S) signatures"

definition ToCompact :: "('cm, 'pk, 'ss, 'gen) secp \<Rightarrow> bytes \<Rightarrow> CompactSignature result" where
  "ToCompact S signature =
     rbind (or_throw ''Failed to serialize signature.'' (secp_signature_serialize_compact S signature)) (\<lambda>out.
       Inr (mk_Signature (mk_BigInt out)))"

section \<open>Pedersen\<close>

definition PedersenCommit :: "('cm, 'pk, 'ss, 'gen) secp \<Rightarrow> u64 \<Rightarrow> BlindingFactor \<Rightarrow> Commitment result" where
  "PedersenCommit S val blindingFactor =
     rbind (read_ptr 32 (big_bytes (bf_value blindingFactor))) (\<lambda>ptr.
     rbind (or_throw ''Failed to create commitment.'' (secp_pedersen_commit S ptr val)) (\<lambda>commitment.
       ToCommitment S commitment))"

definition PedersenCommitSum :: "('cm, 'pk, 'ss, 'gen) secp \<Rightarrow> Commitment list \<Rightarrow> Commitment list \<Rightarrow> Commitment result" where
  "PedersenCommitSum S positive negative =
     rbind (ToSecp256k1_commitments S positive) (\<lambda>positiveCommitments.
     rbind (ToSecp256k1_commitments S negative) (\<lambda>negativeCommitments.
     rbind (or_throw ''secp256k1_pedersen_commit_sum error''
              (secp_pedersen_commit_sum S positiveCommitments negativeCommitments)) (\<lambda>commitment.
       ToCommitment S commitment)))"

definition PedersenBlindSum :: "('cm, 'pk, 'ss, 'gen) secp \<Rightarrow> BlindingFactor list \<Rightarrow> BlindingFactor list \<Rightarrow> BlindingFactor result" where
  "PedersenBlindSum S positive negative =
     rbind (rmapM (\<lambda>b. read_ptr 32 (big_bytes (bf_value b))) (positive @ negative)) (\<lambda>blindingFactors.
     rbind (or_throw ''secp256k1_pedersen_blind_sum error''
              (secp_pedersen_blind_sum S blindingFactors (length positive))) (\<lambda>out.
       Inr (mk_BlindingFactor (mk_BigInt out))))"

definition Pedersen_BlindSwitch :: "('cm, 'pk, 'ss, 'gen) secp \<Rightarrow> SecretKey \<Rightarrow> u64 \<Rightarrow> SecretKey result" where
  "Pedersen_BlindSwitch S blindingFactor amount =
     rbind (read_ptr 32 (big_bytes (sk_value blindingFactor))) (\<lambda>ptr.
     rbind (or_throw ''secp256k1_blind_switch failed'' (secp_blind_switch S ptr amount)) (\<lambda>out.
       Inr (mk_secret_key (mk_BigInt out))))"

section \<open>PublicKeys\<close>

definition PublicKeys_CalculatePublicKey :: "('cm, 'pk, 'ss, 'gen) secp \<Rightarrow> SecretKey \<Rightarrow> PublicKey result" where
  "PublicKeys_CalculatePublicKey S privateKey =
     rbind (read_ptr 32 (big_bytes (sk_value privateKey))) (\<lambda>ptr.
       if \<not> secp_seckey_verify S ptr then Inl (CryptoException ''Failed to verify secret key'')
       else rbind (or_throw ''Failed to calculate public key'' (secp_pubkey_create S ptr)) (\<lambda>pubkey.
         ToPublicKey_pubkey S pubkey))"

definition PublicKeySum :: "('cm, 'pk, 'ss, 'gen) secp \<Rightarrow> PublicKey list \<Rightarrow> PublicKey result" where
  "PublicKeySum S publicKeys =
     rbind (ToSecp256k1_pubkeys S publicKeys) (\<lambda>pubkeys.
     rbind (or_throw ''Failed to combine public keys.'' (secp_pubkey_combine S pubkeys)) (\<lambda>pubkey.
       ToPublicKey_pubkey S pubkey))"

section \<open>Random numbers and the library context\<close>

text \<open>
  The operating system's random device is the parameter \<open>ur\<close> over a state: \<open>None\<close> when it cannot be
  opened, otherwise the bytes that one \<^verbatim>\<open>read\<close> returns, which may be fewer than asked for.
\<close>

type_synonym 'r urandom = "nat \<Rightarrow> 'r \<Rightarrow> bytes option \<times> 'r"

definition GenerateRandomBytes :: "'r urandom \<Rightarrow> nat \<Rightarrow> 'r \<Rightarrow> (bytes \<times> 'r) result" where
  "GenerateRandomBytes ur numBytes r =
     (case ur numBytes r of
        (Some buffer, r') \<Rightarrow>
          if length buffer = numBytes then Inr (buffer, r') else Inl (CryptoException ''RNG Failure'')
      | (None, r') \<Rightarrow> Inl (CryptoException ''RNG Failure''))"

definition CSPRNG :: "'r urandom \<Rightarrow> nat \<Rightarrow> 'r \<Rightarrow> (secret_key_t \<times> 'r) result" where
  "CSPRNG ur NUM_BYTES r =
     rbind (GenerateRandomBytes ur NUM_BYTES r) (\<lambda>(buffer, r').
     rbind (secret_key_of_SecureVector NUM_BYTES buffer) (\<lambda>k. Inr (k, r')))"

definition Randomized :: "('cm, 'pk, 'ss, 'gen) secp \<Rightarrow> 'r urandom \<Rightarrow> 'r \<Rightarrow> 'r result" where
  "Randomized S ur r =
     rbind (CSPRNG ur 32 r) (\<lambda>(randomSeed, r').
       if secp_context_randomize S (big_bytes (sk_value randomSeed)) then Inr r'
       else Inl (CryptoException ''Context randomization failed.''))"

lemma CSPRNG_length: "CSPRNG ur n r = Inr (k, r') \<Longrightarrow> length (big_bytes (sk_value k)) = n"
  by (auto simp: CSPRNG_def GenerateRandomBytes_def secret_key_of_SecureVector_def mk_secret_key_def mk_BigInt_def
      split: prod.splits option.splits if_splits)

section \<open>AggSig\<close>

definition AggSig_GenerateSecureNonce :: "('cm, 'pk, 'ss, 'gen) secp \<Rightarrow> 'r urandom \<Rightarrow> 'r \<Rightarrow> (SecretKey \<times> 'r) result" where
  "AggSig_GenerateSecureNonce S ur r =
     rbind (CSPRNG ur 32 r) (\<lambda>(seed, r').
     rbind (or_throw ''secp256k1_aggsig_export_secnonce_single failed with error: 0''
              (secp_export_secnonce S (big_bytes (sk_value seed)))) (\<lambda>nonce.
       Inr (mk_secret_key (mk_BigInt nonce), r')))"

definition AggSig_SignMessage ::
  "('cm, 'pk, 'ss, 'gen) secp \<Rightarrow> 'r urandom \<Rightarrow> SecretKey \<Rightarrow> PublicKey \<Rightarrow> Hash \<Rightarrow> 'r \<Rightarrow> (CompactSignature \<times> 'r) result" where
  "AggSig_SignMessage S ur secretKey publicKey message r =
     rbind (ToSecp256k1_pubkey S publicKey) (\<lambda>pubKey.
     rbind (CSPRNG ur 32 r) (\<lambda>(randomSeed, r').
     rbind (Randomized S ur r') (\<lambda>r''.
     rbind (read_ptr 32 (big_bytes message)) (\<lambda>msg.
     rbind (read_ptr 32 (big_bytes (sk_value secretKey))) (\<lambda>sec.
     rbind (or_throw ''Failed to sign message.''
              (secp_sign_single S msg sec None None None (Some pubKey) (big_bytes (sk_value randomSeed)))) (\<lambda>signature.
     rbind (ToCompact S signature) (\<lambda>sig. Inr (sig, r''))))))))"

definition AggSig_VerifyMessageSignature ::
  "('cm, 'pk, 'ss, 'gen) secp \<Rightarrow> CompactSignature \<Rightarrow> PublicKey \<Rightarrow> Hash \<Rightarrow> bool result" where
  "AggSig_VerifyMessageSignature S signature publicKey message =
     rbind (ToSecp256k1_compact S signature) (\<lambda>secpSig.
     rbind (ToSecp256k1_pubkey S publicKey) (\<lambda>pubkey.
     rbind (read_ptr 32 (big_bytes message)) (\<lambda>msg.
       Inr (secp_verify_single S secpSig msg None pubkey (Some pubkey) False))))"

definition AggSig_CalculatePartialSignature ::
  "('cm, 'pk, 'ss, 'gen) secp \<Rightarrow> 'r urandom \<Rightarrow> SecretKey \<Rightarrow> SecretKey \<Rightarrow> PublicKey \<Rightarrow> PublicKey \<Rightarrow> Hash \<Rightarrow> 'r \<Rightarrow>
     (CompactSignature \<times> 'r) result" where
  "AggSig_CalculatePartialSignature S ur secretKey secretNonce sumPubKeys sumPubNonces message r =
     rbind (ToSecp256k1_pubkey S sumPubKeys) (\<lambda>pubKeyForE.
     rbind (ToSecp256k1_pubkey S sumPubNonces) (\<lambda>pubNoncesForE.
     rbind (CSPRNG ur 32 r) (\<lambda>(randomSeed, r').
     rbind (Randomized S ur r') (\<lambda>r''.
     rbind (read_ptr 32 (big_bytes message)) (\<lambda>msg.
     rbind (read_ptr 32 (big_bytes (sk_value secretKey))) (\<lambda>sec.
     rbind (read_ptr 32 (big_bytes (sk_value secretNonce))) (\<lambda>nonce.
     rbind (or_throw ''Failed to calculate partial signature.''
              (secp_sign_single S msg sec (Some nonce) (Some pubNoncesForE) (Some pubNoncesForE) (Some pubKeyForE)
                 (big_bytes (sk_value randomSeed)))) (\<lambda>signature.
     rbind (ToCompact S signature) (\<lambda>sig. Inr (sig, r''))))))))))"

definition AggSig_VerifyPartialSignature ::
  "('cm, 'pk, 'ss, 'gen) secp \<Rightarrow> CompactSignature \<Rightarrow> PublicKey \<Rightarrow> PublicKey \<Rightarrow> PublicKey \<Rightarrow> Hash \<Rightarrow> bool result" where
  "AggSig_VerifyPartialSignature S partialSignature publicKey sumPubKeys sumPubNonces message =
     rbind (ToSecp256k1_compact S partialSignature) (\<lambda>signature.
     rbind (ToSecp256k1_pubkey S publicKey) (\<lambda>pubkey.
     rbind (ToSecp256k1_pubkey S sumPubKeys) (\<lambda>sumPubKey.
     rbind (ToSecp256k1_pubkey S sumPubNonces) (\<lambda>sumNoncesPubKey.
     rbind (read_ptr 32 (big_bytes message)) (\<lambda>msg.
       Inr (secp_verify_single S signature msg (Some sumNoncesPubKey) pubkey (Some sumPubKey) True))))))"

definition AggSig_AggregateSignatures ::
  "('cm, 'pk, 'ss, 'gen) secp \<Rightarrow> CompactSignature list \<Rightarrow> PublicKey \<Rightarrow> Signature result" where
  "AggSig_AggregateSignatures S signatures sumPubNonces =
     rbind (ToSecp256k1_pubkey S sumPubNonces) (\<lambda>pubNonces.
     rbind (ToSecp256k1_compacts S signatures) (\<lambda>parsedSignatures.
     rbind (or_throw ''Failed to aggregate signatures'' (secp_add_signatures S parsedSignatures pubNonces)) (\<lambda>aggregatedSignature.
     rbind (read_ptr 64 aggregatedSignature) (\<lambda>ptr.
       Inr (mk_Signature (mk_BigInt ptr))))))"

text \<open>
  \<^verbatim>\<open>secp256k1_schnorrsig_verify_batch\<close> reads \<^verbatim>\<open>signatures.size()\<close> entries of each of its three arrays.
\<close>

definition AggSig_VerifyAggregateSignatures ::
  "('cm, 'pk, 'ss, 'gen) secp \<Rightarrow> Signature list \<Rightarrow> Commitment list \<Rightarrow> Hash list \<Rightarrow> bool result" where
  "AggSig_VerifyAggregateSignatures S signatures commitments messages =
     rbind (rmapM (\<lambda>commitment.
              rbind (ToPublicKey_commitment S commitment) (\<lambda>publicKey. ToSecp256k1_pubkey S publicKey))
            commitments) (\<lambda>parsedPubKeys.
     rbind (ToSecp256k1_schnorrs S signatures) (\<lambda>parsedSignatures.
       let n = length signatures in
       if length commitments < n \<or> length messages < n then Inl UndefinedBehaviour
       else rbind (rmapM (\<lambda>m. read_ptr 32 (big_bytes m)) (take n messages)) (\<lambda>messageData.
         Inr (secp_schnorrsig_verify_batch S parsedSignatures messageData (take n parsedPubKeys)))))"

definition AggSig_VerifyAggregateSignature ::
  "('cm, 'pk, 'ss, 'gen) secp \<Rightarrow> Signature \<Rightarrow> PublicKey \<Rightarrow> Hash \<Rightarrow> bool result" where
  "AggSig_VerifyAggregateSignature S signature sumPubKeys message =
     rbind (ToSecp256k1_pubkey S sumPubKeys) (\<lambda>parsedPubKey.
     rbind (read_ptr 64 (big_bytes (sig_bytes signature))) (\<lambda>sig.
     rbind (read_ptr 32 (big_bytes message)) (\<lambda>msg.
       Inr (secp_verify_single S sig msg None parsedPubKey (Some parsedPubKey) False))))"

section \<open>The cache of verified commitments\<close>

text \<open>
  \<^verbatim>\<open>LRUCache\<close> of \<^verbatim>\<open>deps/caches\<close>: a map and a queue of its keys, the most recently used first.
  \<^verbatim>\<open>Erase\<close> of the replacement policy removes the last key of the queue whatever key it is given.
\<close>

record ('k, 'v) LRUCache =
  cache_items_map :: "('k \<times> 'v) list"
  lru_queue :: "'k list"
  max_cache_size :: nat

definition new_LRUCache :: "nat \<Rightarrow> ('k, 'v) LRUCache" where
  "new_LRUCache max_size =
     \<lparr>cache_items_map = [], lru_queue = [], max_cache_size = (if max_size = 0 then 2 ^ 64 - 1 else max_size)\<rparr>"

definition LRU_Touch :: "'k \<Rightarrow> 'k list \<Rightarrow> 'k list" where
  "LRU_Touch key queue = key # remove1 key queue"

definition LRU_Erase :: "'k \<Rightarrow> ('k, 'v) LRUCache \<Rightarrow> ('k, 'v) LRUCache result" where
  "LRU_Erase key c =
     (if map_of (cache_items_map c) key = None then Inl UndefinedBehaviour
      else Inr (c\<lparr>lru_queue := butlast (lru_queue c),
                   cache_items_map := AList.delete key (cache_items_map c)\<rparr>))"

definition LRU_Insert :: "'k \<Rightarrow> 'v \<Rightarrow> ('k, 'v) LRUCache \<Rightarrow> ('k, 'v) LRUCache" where
  "LRU_Insert key v c =
     c\<lparr>lru_queue := key # lru_queue c, cache_items_map := (key, v) # cache_items_map c\<rparr>"

definition LRU_Put :: "'k \<Rightarrow> 'v \<Rightarrow> ('k, 'v) LRUCache \<Rightarrow> ('k, 'v) LRUCache result" where
  "LRU_Put key v c =
     (case map_of (cache_items_map c) key of
        None \<Rightarrow>
          rbind (if length (cache_items_map c) + 1 > max_cache_size c
                 then (if lru_queue c = [] then Inl UndefinedBehaviour else LRU_Erase (last (lru_queue c)) c)
                 else Inr c) (\<lambda>c'. Inr (LRU_Insert key v c'))
      | Some _ \<Rightarrow>
          Inr (c\<lparr>lru_queue := LRU_Touch key (lru_queue c),
                 cache_items_map := AList.update key v (cache_items_map c)\<rparr>))"

definition LRU_Cached :: "'k \<Rightarrow> ('k, 'v) LRUCache \<Rightarrow> bool" where
  "LRU_Cached key c \<longleftrightarrow> map_of (cache_items_map c) key \<noteq> None"

definition LRU_Get :: "'k \<Rightarrow> ('k, 'v) LRUCache \<Rightarrow> ('v \<times> ('k, 'v) LRUCache) result" where
  "LRU_Get key c =
     (case map_of (cache_items_map c) key of
        None \<Rightarrow> Inl StdException
      | Some v \<Rightarrow> Inr (v, c\<lparr>lru_queue := LRU_Touch key (lru_queue c)\<rparr>))"

type_synonym BulletProofsCache = "(Commitment, Commitment) LRUCache"

definition new_BulletProofsCache :: BulletProofsCache where
  "new_BulletProofsCache = new_LRUCache 3000"

definition AddToCache :: "Commitment \<Rightarrow> BulletProofsCache \<Rightarrow> BulletProofsCache result" where
  "AddToCache commitment cache = LRU_Put commitment commitment cache"

definition WasAlreadyVerified :: "Commitment \<Rightarrow> BulletProofsCache \<Rightarrow> (bool \<times> BulletProofsCache) result" where
  "WasAlreadyVerified commitment cache =
     (if LRU_Cached commitment cache
      then rbind (LRU_Get commitment cache) (\<lambda>(v, cache'). Inr (Commitment_eq False v commitment, cache'))
      else Inr (False, cache))"

section \<open>Bulletproofs\<close>

text \<open>
  The constructor of \<open>Bulletproofs\<close> does not initialise \<^verbatim>\<open>m_pGenerators\<close>: what the pointer holds is the
  parameter \<open>gens\<close>, \<open>None\<close> when it does not point to generators; handing that to the library is
  undefined behaviour.
\<close>

record 'gen Bulletproofs =
  m_pGenerators :: "'gen option"
  m_cache :: BulletProofsCache

definition new_Bulletproofs :: "'gen option \<Rightarrow> 'gen Bulletproofs" where
  "new_Bulletproofs gens = \<lparr>m_pGenerators = gens, m_cache = new_BulletProofsCache\<rparr>"

definition deref :: "'a option \<Rightarrow> 'a result" where
  "deref p = (case p of Some x \<Rightarrow> Inr x | None \<Rightarrow> Inl UndefinedBehaviour)"

lemma deref_simps [simp]: "deref (Some x) = Inr x" "deref None = Inl UndefinedBehaviour"
  by (simp_all add: deref_def)

text \<open>
  One step of the loop over the range proofs: what is not in the cache is collected. The state is
  the cache, \<^verbatim>\<open>commitments\<close>, \<^verbatim>\<open>secpCommitments\<close> and the buffers of \<^verbatim>\<open>bulletproofPointers\<close>.
\<close>

definition VerifyBulletproofs_step ::
  "('cm, 'pk, 'ss, 'gen) secp \<Rightarrow> Commitment \<times> RangeProof \<Rightarrow>
     BulletProofsCache \<times> Commitment list \<times> 'cm list \<times> bytes list \<Rightarrow>
     (BulletProofsCache \<times> Commitment list \<times> 'cm list \<times> bytes list) result" where
  "VerifyBulletproofs_step S rp st =
     (let (commitment, rangeProof) = rp; (cache, commitments, secpCommitments, pointers) = st in
      rbind (WasAlreadyVerified commitment cache) (\<lambda>(done, cache').
        if done then Inr (cache', commitments, secpCommitments, pointers)
        else rbind (ToSecp256k1_commitment S commitment) (\<lambda>parsed.
          Inr (cache', commitments @ [commitment], secpCommitments @ [parsed], pointers @ [proof_bytes rangeProof]))))"

definition VerifyBulletproofs ::
  "('cm, 'pk, 'ss, 'gen) secp \<Rightarrow> (Commitment \<times> RangeProof) list \<Rightarrow> 'gen Bulletproofs \<Rightarrow> (bool \<times> 'gen Bulletproofs) result" where
  "VerifyBulletproofs S rangeProofs bp =
     (case rangeProofs of [] \<Rightarrow> Inl UndefinedBehaviour
      | front # _ \<Rightarrow>
        let proofLength = length (proof_bytes (snd front)) in
        rbind (rfold (VerifyBulletproofs_step S) rangeProofs (m_cache bp, [], [], [])) (\<lambda>(cache, commitments, secpCommitments, pointers).
          if commitments = [] then Inr (True, bp\<lparr>m_cache := cache\<rparr>)
          else rbind (deref (m_pGenerators bp)) (\<lambda>gens.
            rbind (rmapM (read_ptr proofLength) pointers) (\<lambda>proofs.
            let result = secp_bulletproof_verify_multi S gens proofs secpCommitments in
            rbind (if result then rfold AddToCache commitments cache else Inr cache) (\<lambda>cache'.
              Inr (result, bp\<lparr>m_cache := cache'\<rparr>))))))"

definition Bulletproofs_GenerateRangeProof ::
  "('cm, 'pk, 'ss, 'gen) secp \<Rightarrow> 'r urandom \<Rightarrow> u64 \<Rightarrow> SecretKey \<Rightarrow> SecretKey \<Rightarrow> SecretKey \<Rightarrow> ProofMessage \<Rightarrow>
     'gen Bulletproofs \<Rightarrow> 'r \<Rightarrow> (RangeProof \<times> 'r) result" where
  "Bulletproofs_GenerateRangeProof S ur amount key privateNonce rewindNonce proofMessage bp r =
     rbind (Randomized S ur r) (\<lambda>r'.
     rbind (deref (m_pGenerators bp)) (\<lambda>gens.
     rbind (read_ptr 32 (big_bytes (sk_value key))) (\<lambda>blind.
     rbind (read_ptr 32 (big_bytes (sk_value rewindNonce))) (\<lambda>rewind.
     rbind (read_ptr 32 (big_bytes (sk_value privateNonce))) (\<lambda>nonce.
     rbind (read_ptr 20 (big_bytes (msg_bytes proofMessage))) (\<lambda>message.
     rbind (or_throw ''secp256k1_bulletproof_rangeproof_prove failed with error: 0''
              (secp_bulletproof_prove S gens amount blind rewind nonce message)) (\<lambda>proof_out.
       Inr (mk_RangeProof proof_out, r'))))))))"

definition RewindProof ::
  "('cm, 'pk, 'ss, 'gen) secp \<Rightarrow> Commitment \<Rightarrow> RangeProof \<Rightarrow> SecretKey \<Rightarrow> RewoundProof option result" where
  "RewindProof S commitment rangeProof nonce =
     rbind (ToSecp256k1_commitment S commitment) (\<lambda>secpCommitment.
     rbind (read_ptr 32 (big_bytes (sk_value nonce))) (\<lambda>ptr.
       case secp_bulletproof_rewind S (proof_bytes rangeProof) secpCommitment ptr of
         Some (val, blindingFactor, message) \<Rightarrow>
           Inr (Some \<lparr>m_amount = val, m_pBlindingFactor = Some (mk_secret_key (mk_BigInt blindingFactor)),
                      m_proofMessage = \<lparr>msg_bytes = mk_BigInt message\<rparr>\<rparr>)
       | None \<Rightarrow> Inr None))"

section \<open>The class Crypto\<close>

text \<open>The hash function \<^verbatim>\<open>blake2b\<close> is the parameter \<open>b2\<close> of a key and an input; \<open>None\<close> is a status other than 0.\<close>

definition Crypto_Blake2b :: "(bytes \<Rightarrow> bytes \<Rightarrow> bytes option) \<Rightarrow> bytes \<Rightarrow> BigInt result" where
  "Crypto_Blake2b b2 input = rbind (or_throw ''blake2b failed with status: -1'' (b2 [] input)) (\<lambda>out. Inr (mk_BigInt out))"

definition Crypto_Blake2b_key :: "(bytes \<Rightarrow> bytes \<Rightarrow> bytes option) \<Rightarrow> bytes \<Rightarrow> bytes \<Rightarrow> BigInt result" where
  "Crypto_Blake2b_key b2 key input =
     rbind (or_throw ''blake2b failed with status: -1'' (b2 key input)) (\<lambda>out. Inr (mk_BigInt out))"

definition CommitTransparent :: "('cm, 'pk, 'ss, 'gen) secp \<Rightarrow> u64 \<Rightarrow> Commitment result" where
  "CommitTransparent S val = PedersenCommit S val (mk_BlindingFactor (ValueOf 32 0))"

definition CommitBlinded :: "('cm, 'pk, 'ss, 'gen) secp \<Rightarrow> u64 \<Rightarrow> BlindingFactor \<Rightarrow> Commitment result" where
  "CommitBlinded S val blindingFactor = PedersenCommit S val blindingFactor"

abbreviation zeroCommitment :: Commitment where
  "zeroCommitment \<equiv> mk_Commitment (ValueOf 33 0)"

definition AddCommitments :: "('cm, 'pk, 'ss, 'gen) secp \<Rightarrow> Commitment list \<Rightarrow> Commitment list \<Rightarrow> Commitment result" where
  "AddCommitments S positive negative =
     (let sanitizedPositive = filter (\<lambda>c. \<not> Commitment_eq False c zeroCommitment) positive;
          sanitizedNegative = filter (\<lambda>c. \<not> Commitment_eq False c zeroCommitment) negative
      in PedersenCommitSum S sanitizedPositive sanitizedNegative)"

definition AddBlindingFactors :: "('cm, 'pk, 'ss, 'gen) secp \<Rightarrow> BlindingFactor list \<Rightarrow> BlindingFactor list \<Rightarrow> BlindingFactor result" where
  "AddBlindingFactors S positive negative =
     (let zeroBlindingFactor = mk_BlindingFactor HASH_ZERO;
          sanitizedPositive = filter (\<lambda>b. \<not> BlindingFactor_eq False b zeroBlindingFactor) positive;
          sanitizedNegative = filter (\<lambda>b. \<not> BlindingFactor_eq False b zeroBlindingFactor) negative
      in if sanitizedPositive = [] \<and> sanitizedNegative = [] then Inr zeroBlindingFactor
         else PedersenBlindSum S sanitizedPositive sanitizedNegative)"

definition AddPrivateKeys :: "('cm, 'pk, 'ss, 'gen) secp \<Rightarrow> SecretKey \<Rightarrow> SecretKey \<Rightarrow> SecretKey result" where
  "AddPrivateKeys S secretKey1 secretKey2 =
     rbind (read_ptr 32 (big_bytes (sk_value secretKey1))) (\<lambda>result.
     rbind (read_ptr 32 (big_bytes (sk_value secretKey2))) (\<lambda>tweak.
     rbind (or_throw ''secp256k1_ec_privkey_tweak_add failed'' (secp_privkey_tweak_add S result tweak)) (\<lambda>out.
       Inr (mk_secret_key (mk_BigInt out)))))"

definition VerifyRangeProofs ::
  "('cm, 'pk, 'ss, 'gen) secp \<Rightarrow> 'gen option \<Rightarrow> (Commitment \<times> RangeProof) list \<Rightarrow> bool result" where
  "VerifyRangeProofs S gens rangeProofs =
     rbind (VerifyBulletproofs S rangeProofs (new_Bulletproofs gens)) (\<lambda>(result, bp). Inr result)"

definition VerifyKernelSignatures ::
  "('cm, 'pk, 'ss, 'gen) secp \<Rightarrow> Signature list \<Rightarrow> Commitment list \<Rightarrow> Hash list \<Rightarrow> bool result" where
  "VerifyKernelSignatures S signatures publicKeys messages =
     AggSig_VerifyAggregateSignatures S signatures publicKeys messages"

definition Crypto_SignMessage ::
  "('cm, 'pk, 'ss, 'gen) secp \<Rightarrow> 'r urandom \<Rightarrow> (bytes \<Rightarrow> bytes \<Rightarrow> bytes option) \<Rightarrow> SecretKey \<Rightarrow> PublicKey \<Rightarrow> string \<Rightarrow> 'r \<Rightarrow>
     (CompactSignature \<times> 'r) result" where
  "Crypto_SignMessage S ur b2 secretKey publicKey message r =
     rbind (Crypto_Blake2b b2 (string_bytes message)) (\<lambda>messageHash.
       AggSig_SignMessage S ur secretKey publicKey messageHash r)"

definition Crypto_VerifyMessageSignature ::
  "('cm, 'pk, 'ss, 'gen) secp \<Rightarrow> (bytes \<Rightarrow> bytes \<Rightarrow> bytes option) \<Rightarrow> CompactSignature \<Rightarrow> PublicKey \<Rightarrow> string \<Rightarrow> bool result" where
  "Crypto_VerifyMessageSignature S b2 signature publicKey message =
     rbind (Crypto_Blake2b b2 (string_bytes message)) (\<lambda>messageHash.
       AggSig_VerifyMessageSignature S signature publicKey messageHash)"

text \<open>
  The password hash: \<^verbatim>\<open>crypto_scrypt\<close> is the parameter \<open>sc\<close> (password, salt, cost parameters, output
  length); the status of the hash over its output is not looked at, and a failing one leaves the key zero.
\<close>

definition PBKDF ::
  "(bytes \<Rightarrow> bytes \<Rightarrow> u32 \<Rightarrow> u32 \<Rightarrow> u32 \<Rightarrow> nat \<Rightarrow> bytes option) \<Rightarrow> (bytes \<Rightarrow> bytes \<Rightarrow> bytes option) \<Rightarrow>
     string \<Rightarrow> bytes \<Rightarrow> ScryptParameters \<Rightarrow> SecretKey result" where
  "PBKDF sc b2 password salt parameters =
     rbind (or_throw ''Scrypt failed''
       (sc (string_bytes password) salt (scrypt_N parameters) (scrypt_r parameters) (scrypt_p parameters) 64)) (\<lambda>buffer.
       Inr (mk_secret_key (case b2 [] buffer of Some out \<Rightarrow> mk_BigInt out | None \<Rightarrow> new_BigInt 32)))"

text \<open>
  AES in CBC mode with padding (\<^verbatim>\<open>deps/crypto\<close>) is the parameter of the two operations: the bytes that
  \<^verbatim>\<open>Encrypt\<close> and \<^verbatim>\<open>Decrypt\<close> write and count, none for failure.
\<close>

definition AES256_Encrypt :: "(bytes \<Rightarrow> bytes \<Rightarrow> bytes \<Rightarrow> bytes) \<Rightarrow> bytes \<Rightarrow> SecretKey \<Rightarrow> BigInt \<Rightarrow> bytes result" where
  "AES256_Encrypt enc input key iv =
     rbind (read_ptr 32 (big_bytes (sk_value key))) (\<lambda>k.
     rbind (read_ptr 16 (big_bytes iv)) (\<lambda>v.
       let out = enc k v input in
       if length out < length input then Inl (CryptoException ''Failed to encrypt'') else Inr out))"

definition AES256_Decrypt :: "(bytes \<Rightarrow> bytes \<Rightarrow> bytes \<Rightarrow> bytes) \<Rightarrow> bytes \<Rightarrow> SecretKey \<Rightarrow> BigInt \<Rightarrow> bytes result" where
  "AES256_Decrypt dec ciphertext key iv =
     rbind (read_ptr 32 (big_bytes (sk_value key))) (\<lambda>k.
     rbind (read_ptr 16 (big_bytes iv)) (\<lambda>v.
       let out = dec k v ciphertext in
       if length out = 0 then Inl (CryptoException ''Failed to decrypt'') else Inr out))"

section \<open>Commitments add up\<close>

text \<open>
  What secp256k1-zkp documents of Pedersen commitments: a commitment stands for a point \<open>pt c\<close> of a
  commutative group; every commitment has a 33-byte form that parses back and is never zero; a sum fails
  exactly when it is the point at infinity; a commitment to \<open>v\<close> with blinding factor \<open>b\<close> stands for
  \<open>com v b\<close> (\<open>vH + bG\<close>), which is additive.
\<close>

definition pedersen_laws :: "('cm, 'pk, 'ss, 'gen) secp \<Rightarrow> ('cm \<Rightarrow> 'g::ab_group_add) \<Rightarrow> (int \<Rightarrow> int \<Rightarrow> 'g) \<Rightarrow> bool" where
  "pedersen_laws S pt com \<longleftrightarrow>
     inj pt \<and>
     (\<forall>c. \<exists>bs. secp_commitment_serialize S c = Some bs \<and> length bs = 33 \<and> bs \<noteq> replicate 33 0 \<and>
        secp_commitment_parse S bs = Some c) \<and>
     (\<forall>pos neg. case secp_pedersen_commit_sum S pos neg of
        Some c \<Rightarrow> pt c = sum_list (map pt pos) - sum_list (map pt neg) \<and> pt c \<noteq> 0
      | None \<Rightarrow> sum_list (map pt pos) - sum_list (map pt neg) = 0) \<and>
     (\<forall>b v c. secp_pedersen_commit S b v = Some c \<longrightarrow> pt c = com (uint v) (int (big_val b))) \<and>
     (\<forall>v v' b b'. com (v + v') (b + b') = com v b + com v' b')"

text \<open>The serialized commitment \<open>C\<close> stands for the point \<open>p\<close>.\<close>

definition stands_for :: "('cm, 'pk, 'ss, 'gen) secp \<Rightarrow> ('cm \<Rightarrow> 'g) \<Rightarrow> Commitment \<Rightarrow> 'g \<Rightarrow> bool" where
  "stands_for S pt C p \<longleftrightarrow> \<not> Commitment_eq False C zeroCommitment \<and>
     (\<exists>x. ToSecp256k1_commitment S C = Inr x \<and> ToCommitment S x = Inr C \<and> pt x = p)"

definition bf_int :: "BlindingFactor \<Rightarrow> int" where
  "bf_int b = int (big_val (big_bytes (bf_value b)))"

lemma zero_33: "big_bytes (ValueOf 33 0) = replicate 33 0"
  by (simp add: ValueOf_def mk_BigInt_def numeral_eq_Suc)

lemma ToCommitment_stands:
  assumes "pedersen_laws S pt com"
  shows "\<exists>C. ToCommitment S x = Inr C \<and> stands_for S pt C (pt x)"
proof -
  obtain bs where bs: "secp_commitment_serialize S x = Some bs" "length bs = 33" "bs \<noteq> replicate 33 0"
      "secp_commitment_parse S bs = Some x"
    using assms unfolding pedersen_laws_def by metis
  let ?C = "mk_Commitment (mk_BigInt bs)"
  have "\<not> Commitment_eq False ?C zeroCommitment"
    using bs(3) by (simp add: Commitment_eq_def BigInt_eq_def mk_Commitment_def zero_33) (simp add: mk_BigInt_def)
  moreover have "ToSecp256k1_commitment S ?C = Inr x"
    using bs(2,4) by (simp add: ToSecp256k1_commitment_def mk_Commitment_def mk_BigInt_def)
  moreover have "ToCommitment S x = Inr ?C" using bs(1) by (simp add: ToCommitment_def)
  ultimately show ?thesis by (auto simp: stands_for_def)
qed

lemma stands_for_inject:
  assumes "pedersen_laws S pt com" "stands_for S pt C p" "stands_for S pt D p"
  shows "C = D"
proof -
  have "inj pt" using assms(1) by (simp add: pedersen_laws_def)
  then show ?thesis using assms(2,3) unfolding stands_for_def by (metis injD sum.inject(2))
qed

lemma CommitBlinded_stands:
  assumes "pedersen_laws S pt com" "BlindingFactor_wf b" "CommitBlinded S v b = Inr C"
  shows "stands_for S pt C (com (uint v) (bf_int b))"
proof -
  obtain x where x: "secp_pedersen_commit S (big_bytes (bf_value b)) v = Some x" "ToCommitment S x = Inr C"
    using assms(2,3) by (auto simp: CommitBlinded_def PedersenCommit_def BlindingFactor_wf_def)
  have "pt x = com (uint v) (bf_int b)" using assms(1) x(1) by (auto simp: pedersen_laws_def bf_int_def)
  then show ?thesis using ToCommitment_stands [OF assms(1), of x] x(2) by auto
qed

lemma filter_stands:
  "list_all2 (stands_for S pt) Cs ps \<Longrightarrow> filter (\<lambda>c. \<not> Commitment_eq False c zeroCommitment) Cs = Cs"
  by (induction Cs ps rule: list_all2_induct) (auto simp: stands_for_def)

lemma ToSecp256k1_stands:
  "list_all2 (stands_for S pt) Cs ps \<Longrightarrow> \<exists>xs. ToSecp256k1_commitments S Cs = Inr xs \<and> map pt xs = ps"
  unfolding ToSecp256k1_commitments_def
proof (induction Cs ps rule: list_all2_induct)
  case (Cons C Cs p ps)
  then obtain x xs where "ToSecp256k1_commitment S C = Inr x" "pt x = p"
      "rmapM (ToSecp256k1_commitment S) Cs = Inr xs" "map pt xs = ps"
    by (auto simp: stands_for_def)
  then show ?case by simp
qed simp

lemma AddCommitments_stands:
  assumes "pedersen_laws S pt com" "list_all2 (stands_for S pt) Cs ps" "list_all2 (stands_for S pt) Ds qs"
  shows "if sum_list ps - sum_list qs = 0
    then AddCommitments S Cs Ds = Inl (CryptoException ''secp256k1_pedersen_commit_sum error'')
    else \<exists>C. AddCommitments S Cs Ds = Inr C \<and> stands_for S pt C (sum_list ps - sum_list qs)"
proof -
  obtain xs ys where xs: "ToSecp256k1_commitments S Cs = Inr xs" "map pt xs = ps"
    and ys: "ToSecp256k1_commitments S Ds = Inr ys" "map pt ys = qs"
    using ToSecp256k1_stands assms(2,3) by metis
  have A: "AddCommitments S Cs Ds = rbind (or_throw ''secp256k1_pedersen_commit_sum error''
      (secp_pedersen_commit_sum S xs ys)) (ToCommitment S)"
    by (simp add: AddCommitments_def Let_def filter_stands [OF assms(2)] filter_stands [OF assms(3)]
        PedersenCommitSum_def xs(1) ys(1))
  have law: "case secp_pedersen_commit_sum S xs ys of
        Some c \<Rightarrow> pt c = sum_list ps - sum_list qs \<and> pt c \<noteq> 0 | None \<Rightarrow> sum_list ps - sum_list qs = 0"
    using assms(1) xs(2) ys(2) unfolding pedersen_laws_def by blast
  show ?thesis
  proof (cases "secp_pedersen_commit_sum S xs ys")
    case None
    then show ?thesis using law A by simp
  next
    case (Some c)
    then show ?thesis using law A ToCommitment_stands [OF assms(1), of c] by auto
  qed
qed

lemma sum_com:
  assumes "pedersen_laws S pt com"
  shows "sum_list (map (\<lambda>(v, b). com (uint v) (bf_int b)) vs) =
    com (\<Sum>(v, b)\<leftarrow>vs. uint v) (\<Sum>(v, b)\<leftarrow>vs. bf_int b)"
proof (induction vs)
  case Nil
  have "com (0 + 0) (0 + 0) = com 0 0 + com 0 0" using assms unfolding pedersen_laws_def by blast
  then show ?case by simp
next
  case (Cons vb vs)
  then show ?case using assms by (cases vb) (simp add: pedersen_laws_def)
qed

lemma com_diff:
  assumes "pedersen_laws S pt com"
  shows "com v b - com v' b' = com (v - v') (b - b')"
proof -
  have "com (v - v' + v') (b - b' + b') = com (v - v') (b - b') + com v' b'"
    using assms unfolding pedersen_laws_def by blast
  then show ?thesis by simp
qed

definition committed :: "('cm, 'pk, 'ss, 'gen) secp \<Rightarrow> u64 \<times> BlindingFactor \<Rightarrow> Commitment \<Rightarrow> bool" where
  "committed S vb C \<longleftrightarrow> BlindingFactor_wf (snd vb) \<and> CommitBlinded S (fst vb) (snd vb) = Inr C"

lemma committed_stands:
  assumes "pedersen_laws S pt com" "list_all2 (committed S) vs Cs"
  shows "list_all2 (stands_for S pt) Cs (map (\<lambda>(v, b). com (uint v) (bf_int b)) vs)"
  using assms(2) by (induction vs Cs rule: list_all2_induct)
    (auto simp: committed_def intro: CommitBlinded_stands [OF assms(1)])

text \<open>
  C25. Commitments add up: \<open>AddCommitments\<close> of commitments created by \<open>CommitBlinded\<close>, positive ones \<open>Cs\<close> and
  negative ones \<open>Ds\<close>, is the commitment to the difference of the sums of their values with the difference of the
  sums of their blinding factors; it throws exactly when that commitment is the point at infinity.
\<close>

theorem AddCommitments_homomorphic:
  assumes "pedersen_laws S pt com" "list_all2 (committed S) vs Cs" "list_all2 (committed S) ws Ds"
    and "(\<Sum>(v, b)\<leftarrow>vs. uint v) - (\<Sum>(v, b)\<leftarrow>ws. uint v) = V" "(\<Sum>(v, b)\<leftarrow>vs. bf_int b) - (\<Sum>(v, b)\<leftarrow>ws. bf_int b) = R"
  shows "(if com V R = 0 then AddCommitments S Cs Ds = Inl (CryptoException ''secp256k1_pedersen_commit_sum error'')
      else \<exists>C. AddCommitments S Cs Ds = Inr C \<and> stands_for S pt C (com V R)) \<and>
    (\<forall>v b C. uint v = V \<and> bf_int b = R \<and> BlindingFactor_wf b \<and> CommitBlinded S v b = Inr C \<and> com V R \<noteq> 0 \<longrightarrow>
       AddCommitments S Cs Ds = Inr C)"
proof -
  have sums: "sum_list (map (\<lambda>(v, b). com (uint v) (bf_int b)) vs) - sum_list (map (\<lambda>(v, b). com (uint v) (bf_int b)) ws) = com V R"
    unfolding sum_com [OF assms(1)] com_diff [OF assms(1)] assms(4,5) ..
  have 1: "if com V R = 0 then AddCommitments S Cs Ds = Inl (CryptoException ''secp256k1_pedersen_commit_sum error'')
      else \<exists>C. AddCommitments S Cs Ds = Inr C \<and> stands_for S pt C (com V R)"
    using AddCommitments_stands [OF assms(1) committed_stands [OF assms(1,2)] committed_stands [OF assms(1,3)]]
    unfolding sums .
  moreover have "AddCommitments S Cs Ds = Inr C"
    if "uint v = V" "bf_int b = R" "BlindingFactor_wf b" "CommitBlinded S v b = Inr C" "com V R \<noteq> 0" for v b C
  proof -
    have "stands_for S pt C (com V R)" using CommitBlinded_stands [OF assms(1) that(3,4)] that(1,2) by simp
    then show ?thesis using 1 that(5) stands_for_inject [OF assms(1)] by auto
  qed
  ultimately show ?thesis by blast
qed

text \<open>An instance of the library over the integers modulo 256, with \<open>com v b = v + 3 * b\<close>.\<close>

definition toy_com :: "int \<Rightarrow> int \<Rightarrow> u8" where
  "toy_com v b = of_int v + 3 * of_int b"

definition toy_secp :: "(u8, u8, bytes, unit) secp" where
  "toy_secp = \<lparr>
     secp_commitment_parse = (\<lambda>bs. if length bs = 33 \<and> hd bs = 8 then Some (last bs) else None),
     secp_commitment_serialize = (\<lambda>c. Some (8 # replicate 31 0 @ [c])),
     secp_pedersen_commit = (\<lambda>b v. if toy_com (uint v) (int (big_val b)) = 0 then None else Some (toy_com (uint v) (int (big_val b)))),
     secp_pedersen_commit_sum = (\<lambda>pos neg. if sum_list pos - sum_list neg = 0 then None else Some (sum_list pos - sum_list neg)),
     secp_pedersen_blind_sum = (\<lambda>bs n. None),
     secp_blind_switch = (\<lambda>b v. None),
     secp_commitment_to_pubkey = Some,
     secp_pubkey_serialize = (\<lambda>p. Some (2 # replicate 31 0 @ [p])),
     secp_pubkey_parse = (\<lambda>bs. if length bs = 33 \<and> hd bs = 2 then Some (last bs) else None),
     secp_pubkey_create = (\<lambda>b. Some (of_nat (big_val b))),
     secp_pubkey_combine = (\<lambda>ps. Some (sum_list ps)),
     secp_seckey_verify = (\<lambda>b. True),
     secp_privkey_tweak_add = (\<lambda>b c. None),
     secp_signature_parse_compact = Some,
     secp_signature_serialize_compact = Some,
     secp_schnorrsig_parse = Some,
     secp_schnorrsig_verify_batch = (\<lambda>ss ms ps. \<forall>i<length ss. (ss ! i) ! 0 = ps ! i),
     secp_context_randomize = (\<lambda>b. True),
     secp_export_secnonce = Some,
     secp_sign_single = (\<lambda>m k n p q r s. None),
     secp_verify_single = (\<lambda>s m p q r t. False),
     secp_add_signatures = (\<lambda>ss p. None),
     secp_bulletproof_verify_multi = (\<lambda>g ps cs. length ps = length cs \<and> (\<forall>i<length ps. ps ! i = [cs ! i])),
     secp_bulletproof_prove = (\<lambda>g a k r n m. None),
     secp_bulletproof_rewind = (\<lambda>p c n. None)\<rparr>"

lemma toy_laws: "pedersen_laws toy_secp id toy_com"
proof -
  have r: "replicate 33 (0 :: u8) = 0 # replicate 32 0" by (simp add: numeral_eq_Suc)
  have "(8 :: u8) # replicate 31 0 @ [c] \<noteq> replicate 33 0" for c unfolding r by simp
  then show ?thesis
    by (auto simp: pedersen_laws_def toy_secp_def toy_com_def algebra_simps)
qed

lemma BlindingFactor_wf_ValueOf: "BlindingFactor_wf (mk_BlindingFactor (ValueOf 32 n))"
  by (simp add: BlindingFactor_wf_def mk_BlindingFactor_def ValueOf_def mk_BigInt_def)

lemma bf_int_ValueOf: "bf_int (mk_BlindingFactor (ValueOf 32 n)) = uint n"
proof -
  have "big_bytes (ValueOf 32 n) = replicate 31 0 @ [n]" by (simp add: ValueOf_def mk_BigInt_def numeral_eq_Suc)
  moreover have "big_val (replicate k 0) = 0" for k by (induction k) simp_all
  ultimately show ?thesis by (simp add: bf_int_def mk_BlindingFactor_def big_val_snoc)
qed

lemma toy_committed:
  assumes "toy_com (uint v) (uint n) = w" "w \<noteq> 0"
  shows "committed toy_secp (v, mk_BlindingFactor (ValueOf 32 n)) (mk_Commitment (mk_BigInt (8 # replicate 31 0 @ [w])))"
proof -
  let ?b = "mk_BlindingFactor (ValueOf 32 n)"
  have wf: "length (big_bytes (bf_value ?b)) = 32" using BlindingFactor_wf_ValueOf [of n] by (simp add: BlindingFactor_wf_def)
  have "int (big_val (big_bytes (bf_value ?b))) = uint n" using bf_int_ValueOf [of n] by (simp add: bf_int_def)
  then show ?thesis
    using assms by (simp add: committed_def BlindingFactor_wf_ValueOf CommitBlinded_def PedersenCommit_def wf toy_secp_def ToCommitment_def)
qed

theorem AddCommitments_homomorphic_witness:
  "AddCommitments toy_secp [mk_Commitment (mk_BigInt (8 # replicate 31 0 @ [13])), mk_Commitment (mk_BigInt (8 # replicate 31 0 @ [9]))]
     [mk_Commitment (mk_BigInt (8 # replicate 31 0 @ [5]))] =
   Inr (mk_Commitment (mk_BigInt (8 # replicate 31 0 @ [17])))"
proof -
  let ?b = "\<lambda>n. mk_BlindingFactor (ValueOf 32 n)"
  have "list_all2 (committed toy_secp) [(10, ?b 1), (3, ?b 2)]
      [mk_Commitment (mk_BigInt (8 # replicate 31 0 @ [13])), mk_Commitment (mk_BigInt (8 # replicate 31 0 @ [9]))]"
    "list_all2 (committed toy_secp) [(2, ?b 1)] [mk_Commitment (mk_BigInt (8 # replicate 31 0 @ [5]))]"
    by (auto intro!: toy_committed simp: toy_com_def)
  note t = AddCommitments_homomorphic [OF toy_laws this, of 11 2, THEN conjunct2, rule_format, of 11 "?b 2"]
  have "committed toy_secp (11, ?b 2) (mk_Commitment (mk_BigInt (8 # replicate 31 0 @ [17])))"
    by (rule toy_committed) (simp_all add: toy_com_def)
  then have "CommitBlinded toy_secp 11 (?b 2) = Inr (mk_Commitment (mk_BigInt (8 # replicate 31 0 @ [17])))"
    by (simp only: committed_def fst_conv snd_conv)
  then show ?thesis
    by (intro t) (simp_all add: toy_com_def bf_int_ValueOf BlindingFactor_wf_ValueOf)
qed

section \<open>The cache keeps the most recently used keys\<close>

definition lru_inv :: "('k, 'v) LRUCache \<Rightarrow> bool" where
  "lru_inv c \<longleftrightarrow> distinct (map fst (cache_items_map c)) \<and> distinct (lru_queue c) \<and>
     set (lru_queue c) = fst ` set (cache_items_map c) \<and>
     length (cache_items_map c) \<le> max_cache_size c \<and> 0 < max_cache_size c"

lemma lru_inv_new: "lru_inv (new_LRUCache n)"
  by (simp add: lru_inv_def new_LRUCache_def)

lemma lru_inv_length: "lru_inv c \<Longrightarrow> length (lru_queue c) = length (cache_items_map c)"
  unfolding lru_inv_def by (metis distinct_card length_map set_map)

lemma map_of_None_fst: "map_of xs k = None \<longleftrightarrow> k \<notin> fst ` set xs"
  by (rule map_of_eq_None_iff)

lemma dom_delete_key: "fst ` set (AList.delete k xs) = fst ` set xs - {k}"
  by (induction xs) auto

lemma length_delete_distinct:
  assumes "distinct (map fst xs)" "k \<in> fst ` set xs"
  shows "Suc (length (AList.delete k xs)) = length xs"
proof -
  have d: "distinct (map fst (AList.delete k xs))" by (rule distinct_delete [OF assms(1)])
  have "length (AList.delete k xs) = card (fst ` set (AList.delete k xs))" using distinct_card [OF d] by simp
  also have "\<dots> = card (fst ` set xs - {k})" by (simp add: dom_delete_key)
  also have "Suc \<dots> = card (fst ` set xs)" using assms(2) by (intro card_Suc_Diff1) simp_all
  also have "\<dots> = length xs" using distinct_card [OF assms(1)] by simp
  finally show ?thesis .
qed

lemma butlast_distinct:
  assumes "distinct q" "q \<noteq> []"
  shows "distinct (butlast q)" "set (butlast q) = set q - {last q}"
proof -
  obtain xs x where q: "q = xs @ [x]" using assms(2) by (metis append_butlast_last_id)
  show "distinct (butlast q)" "set (butlast q) = set q - {last q}" using assms(1) unfolding q by auto
qed

text \<open>Making room: the least recently used key goes, and nothing else.\<close>

lemma LRU_Erase_last:
  assumes "lru_inv c" "lru_queue c \<noteq> []"
  shows "\<exists>c'. LRU_Erase (last (lru_queue c)) c = Inr c' \<and> lru_inv c' \<and> max_cache_size c' = max_cache_size c \<and>
    length (cache_items_map c) = Suc (length (cache_items_map c')) \<and>
    map_of (cache_items_map c') = (map_of (cache_items_map c))(last (lru_queue c) := None)"
proof -
  let ?k = "last (lru_queue c)" and ?m = "cache_items_map c"
  have k: "?k \<in> fst ` set ?m" using assms last_in_set [OF assms(2)] by (auto simp: lru_inv_def)
  have e: "LRU_Erase ?k c = Inr (c\<lparr>lru_queue := butlast (lru_queue c), cache_items_map := AList.delete ?k ?m\<rparr>)"
    using k map_of_None_fst [of ?m ?k] by (simp add: LRU_Erase_def)
  have l: "length ?m = Suc (length (AList.delete ?k ?m))"
    using length_delete_distinct [OF _ k] assms(1) by (simp add: lru_inv_def)
  have "lru_inv (c\<lparr>lru_queue := butlast (lru_queue c), cache_items_map := AList.delete ?k ?m\<rparr>)"
    using assms l butlast_distinct [OF _ assms(2)] by (simp add: lru_inv_def dom_delete_key distinct_delete)
  then show ?thesis using e l by (simp add: delete_conv')
qed

lemma LRU_Insert_inv:
  "lru_inv c \<Longrightarrow> map_of (cache_items_map c) key = None \<Longrightarrow> length (cache_items_map c) < max_cache_size c \<Longrightarrow>
     lru_inv (LRU_Insert key v c)"
  by (simp add: lru_inv_def LRU_Insert_def map_of_None_fst)

lemma LRU_Touch_set: "key \<in> set q \<Longrightarrow> distinct q \<Longrightarrow> distinct (LRU_Touch key q) \<and> set (LRU_Touch key q) = set q"
  by (auto simp: LRU_Touch_def distinct_remove1)

lemma LRU_Put_ok:
  assumes "lru_inv c"
  shows "\<exists>c'. LRU_Put key v c = Inr c' \<and> lru_inv c' \<and> max_cache_size c' = max_cache_size c \<and>
    LRU_Cached key c' \<and> hd (lru_queue c') = key \<and> (\<exists>c''. LRU_Get key c' = Inr (v, c'') \<and> lru_inv c'') \<and>
    (\<forall>k'. k' \<noteq> key \<longrightarrow> map_of (cache_items_map c') k' =
       (if \<not> LRU_Cached key c \<and> length (cache_items_map c) = max_cache_size c \<and> k' = last (lru_queue c)
        then None else map_of (cache_items_map c) k'))"
proof (cases "map_of (cache_items_map c) key")
  case (Some w)
  let ?c' = "c\<lparr>lru_queue := LRU_Touch key (lru_queue c), cache_items_map := AList.update key v (cache_items_map c)\<rparr>"
  have mem: "key \<in> set (lru_queue c)" "key \<in> fst ` set (cache_items_map c)"
    using Some assms by (auto simp: lru_inv_def dest: map_of_SomeD intro: rev_image_eqI)
  have t: "distinct (LRU_Touch key (lru_queue c))" "set (LRU_Touch key (lru_queue c)) = set (lru_queue c)"
    using LRU_Touch_set [OF mem(1)] assms by (auto simp: lru_inv_def)
  have "distinct (map fst (AList.update key v (cache_items_map c)))"
    using assms by (simp add: lru_inv_def distinct_update)
  moreover have dom: "fst ` set (AList.update key v (cache_items_map c)) = fst ` set (cache_items_map c)"
    using mem(2) dom_update [of key v "cache_items_map c"] by (simp add: insert_absorb)
  ultimately have "length (AList.update key v (cache_items_map c)) = length (cache_items_map c)"
    using distinct_card [of "map fst (AList.update key v (cache_items_map c))"]
      distinct_card [of "map fst (cache_items_map c)"] assms by (simp add: lru_inv_def)
  then have inv: "lru_inv ?c'"
    using assms t dom by (simp add: lru_inv_def distinct_update)
  moreover have "lru_inv (?c'\<lparr>lru_queue := LRU_Touch key (lru_queue ?c')\<rparr>)"
    using inv LRU_Touch_set [of key "lru_queue ?c'"] t mem by (simp add: lru_inv_def)
  ultimately show ?thesis
    using Some by (auto simp: LRU_Put_def LRU_Cached_def LRU_Get_def LRU_Touch_def update_conv')
next
  case None
  obtain c1 where c1: "(if length (cache_items_map c) + 1 > max_cache_size c
        then (if lru_queue c = [] then Inl UndefinedBehaviour else LRU_Erase (last (lru_queue c)) c) else Inr c) = Inr c1"
      "lru_inv c1" "max_cache_size c1 = max_cache_size c" "length (cache_items_map c1) < max_cache_size c"
      "map_of (cache_items_map c1) = (if length (cache_items_map c) = max_cache_size c
         then (map_of (cache_items_map c))(last (lru_queue c) := None) else map_of (cache_items_map c))"
  proof (cases "length (cache_items_map c) = max_cache_size c")
    case True
    then have "lru_queue c \<noteq> []" using lru_inv_length [OF assms] assms by (auto simp: lru_inv_def)
    then show ?thesis using that LRU_Erase_last [OF assms] True by fastforce
  next
    case False
    then show ?thesis using that [of c] assms by (auto simp: lru_inv_def)
  qed
  have n: "map_of (cache_items_map c1) key = None" using None c1(5) by (simp add: fun_upd_def)
  have p: "LRU_Put key v c = Inr (LRU_Insert key v c1)" using None c1(1) by (simp add: LRU_Put_def)
  have inv: "lru_inv (LRU_Insert key v c1)" using LRU_Insert_inv [OF c1(2) n] c1(3,4) by simp
  moreover have "lru_inv ((LRU_Insert key v c1)\<lparr>lru_queue := LRU_Touch key (lru_queue (LRU_Insert key v c1))\<rparr>)"
    using inv by (simp add: LRU_Insert_def LRU_Touch_def lru_inv_def)
  ultimately show ?thesis
    using p c1(3,5) None by (auto simp: LRU_Insert_def LRU_Cached_def LRU_Get_def)
qed

text \<open>
  C27. \<open>Put\<close> on a cache in a consistent state never fails and leaves it consistent (every key once in the
  map and once in the queue, at most \<^verbatim>\<open>max_size\<close> of them): the new value is the one \<open>Get\<close> returns and its key the most
  recently used; every other key keeps its value, except the least recently used one of a full cache that gets a new key.
\<close>

theorem LRU_Put_correct:
  assumes "lru_inv c"
  shows "\<exists>c'. LRU_Put key v c = Inr c' \<and> lru_inv c' \<and> max_cache_size c' = max_cache_size c \<and>
    LRU_Cached key c' \<and> hd (lru_queue c') = key \<and> (\<exists>c''. LRU_Get key c' = Inr (v, c'') \<and> lru_inv c'') \<and>
    (\<forall>k'. k' \<noteq> key \<longrightarrow> map_of (cache_items_map c') k' =
       (if \<not> LRU_Cached key c \<and> length (cache_items_map c) = max_cache_size c \<and> k' = last (lru_queue c)
        then None else map_of (cache_items_map c) k'))"
  by (rule LRU_Put_ok [OF assms])

definition lru_example :: "(nat, nat) LRUCache" where
  "lru_example = \<lparr>cache_items_map = [(2, 20), (1, 10)], lru_queue = [2, 1], max_cache_size = 2\<rparr>"

theorem LRU_Put_correct_witness:
  "\<exists>c'. LRU_Put 3 30 lru_example = Inr c' \<and> \<not> LRU_Cached 1 c' \<and> LRU_Cached 2 c' \<and> LRU_Cached 3 c'"
proof -
  have "lru_inv lru_example" by (simp add: lru_inv_def lru_example_def)
  from LRU_Put_correct [OF this, of 3 30] show ?thesis by (auto simp: lru_example_def LRU_Cached_def)
qed

section \<open>Range proofs are only skipped for verified commitments\<close>

text \<open>
  \<open>valid x p\<close>: the library accepts \<open>p\<close> as a range proof for the commitment \<open>x\<close>. A serialized commitment
  is verified when it parses and some proof for it was accepted.
\<close>

definition verified :: "('cm, 'pk, 'ss, 'gen) secp \<Rightarrow> ('cm \<Rightarrow> bytes \<Rightarrow> bool) \<Rightarrow> Commitment \<Rightarrow> bool" where
  "verified S valid C \<longleftrightarrow> (\<exists>x p. ToSecp256k1_commitment S C = Inr x \<and> valid x p)"

definition batch_sound :: "('cm, 'pk, 'ss, 'gen) secp \<Rightarrow> ('cm \<Rightarrow> bytes \<Rightarrow> bool) \<Rightarrow> bool" where
  "batch_sound S valid \<longleftrightarrow>
     (\<forall>g ps cs. length ps = length cs \<and> secp_bulletproof_verify_multi S g ps cs \<longrightarrow> list_all2 valid cs ps)"

definition cache_ok :: "('cm, 'pk, 'ss, 'gen) secp \<Rightarrow> ('cm \<Rightarrow> bytes \<Rightarrow> bool) \<Rightarrow> BulletProofsCache \<Rightarrow> bool" where
  "cache_ok S valid cache \<longleftrightarrow> lru_inv cache \<and>
     (\<forall>C D. map_of (cache_items_map cache) C = Some D \<longrightarrow> D = C \<and> verified S valid C)"

lemma cache_ok_new: "cache_ok S valid new_BulletProofsCache"
  unfolding cache_ok_def new_BulletProofsCache_def using lru_inv_new [of 3000] by (simp add: new_LRUCache_def)

lemma WasAlreadyVerified_ok:
  assumes "cache_ok S valid cache"
  shows "\<exists>cache'. WasAlreadyVerified C cache = Inr (LRU_Cached C cache, cache') \<and> cache_ok S valid cache' \<and>
    cache_items_map cache' = cache_items_map cache"
proof (cases "map_of (cache_items_map cache) C")
  case None
  then show ?thesis using assms by (simp add: WasAlreadyVerified_def LRU_Cached_def)
next
  case (Some D)
  then have D: "D = C" using assms by (simp add: cache_ok_def)
  have "C \<in> set (lru_queue cache)"
    using Some assms by (auto simp: cache_ok_def lru_inv_def dest: map_of_SomeD intro: rev_image_eqI)
  then have "lru_inv (cache\<lparr>lru_queue := LRU_Touch C (lru_queue cache)\<rparr>)"
    using assms LRU_Touch_set [of C "lru_queue cache"] by (simp add: cache_ok_def lru_inv_def)
  then show ?thesis
    using Some assms D by (simp add: WasAlreadyVerified_def LRU_Cached_def LRU_Get_def cache_ok_def Commitment_eq_def BigInt_eq_def)
qed

lemma LRU_Put_map:
  assumes "lru_inv c"
  shows "\<exists>c'. LRU_Put key v c = Inr c' \<and> lru_inv c' \<and> map_of (cache_items_map c') key = Some v \<and>
    (\<forall>k. k \<noteq> key \<longrightarrow> map_of (cache_items_map c') k = map_of (cache_items_map c) k \<or> map_of (cache_items_map c') k = None)"
proof -
  obtain c' c'' where c': "LRU_Put key v c = Inr c'" "lru_inv c'" "LRU_Get key c' = Inr (v, c'')"
    "\<forall>k'. k' \<noteq> key \<longrightarrow> map_of (cache_items_map c') k' =
       (if \<not> LRU_Cached key c \<and> length (cache_items_map c) = max_cache_size c \<and> k' = last (lru_queue c)
        then None else map_of (cache_items_map c) k')"
    using LRU_Put_ok [OF assms, of key v] by blast
  then have "map_of (cache_items_map c') key = Some v" by (auto simp: LRU_Get_def split: option.splits)
  then show ?thesis using c'(1,2,4) by auto
qed

lemma AddToCache_all:
  assumes "cache_ok S valid cache" "\<forall>C\<in>set Cs. verified S valid C"
  shows "\<exists>cache'. rfold AddToCache Cs cache = Inr cache' \<and> cache_ok S valid cache'"
  using assms
proof (induction Cs arbitrary: cache)
  case (Cons C Cs)
  have "lru_inv cache" using Cons.prems(1) by (simp add: cache_ok_def)
  obtain c' where c': "LRU_Put C C cache = Inr c'" "lru_inv c'" "map_of (cache_items_map c') C = Some C"
      "\<And>k. k \<noteq> C \<Longrightarrow> map_of (cache_items_map c') k = map_of (cache_items_map cache) k \<or> map_of (cache_items_map c') k = None"
    using LRU_Put_map [OF \<open>lru_inv cache\<close>, of C C] by blast
  have "cache_ok S valid c'"
    unfolding cache_ok_def
  proof (intro conjI c'(2) allI impI)
    fix k D assume kD: "map_of (cache_items_map c') k = Some D"
    show "D = k" "verified S valid k"
    proof (atomize (full), cases "k = C")
      case True
      then show "D = k \<and> verified S valid k" using kD c'(3) Cons.prems(2) by simp
    next
      case False
      then have "map_of (cache_items_map cache) k = Some D" using kD c'(4) [of k] by auto
      then show "D = k \<and> verified S valid k" using Cons.prems(1) by (simp add: cache_ok_def)
    qed
  qed
  then show ?case using Cons.IH [of c'] Cons.prems(2) c'(1) by (simp add: AddToCache_def)
qed simp

lemma VerifyBulletproofs_loop:
  assumes "cache_ok S valid cache" "\<forall>(C, p)\<in>set rps. \<exists>x. ToSecp256k1_commitment S C = Inr x"
  shows "\<exists>cache' news xs. rfold (VerifyBulletproofs_step S) rps (cache, cs, xs0, ps) =
      Inr (cache', cs @ map fst news, xs0 @ xs, ps @ map (\<lambda>n. proof_bytes (snd n)) news) \<and>
    cache_ok S valid cache' \<and> cache_items_map cache' = cache_items_map cache \<and> set news \<subseteq> set rps \<and>
    list_all2 (\<lambda>n x. ToSecp256k1_commitment S (fst n) = Inr x) news xs \<and>
    (\<forall>n\<in>set rps. LRU_Cached (fst n) cache \<or> n \<in> set news) \<and> (\<forall>n\<in>set news. \<not> LRU_Cached (fst n) cache)"
  using assms
proof (induction rps arbitrary: cache cs xs0 ps)
  case Nil
  then show ?case by (intro exI [of _ cache] exI [of _ "[]"]) simp
next
  case (Cons rp rps)
  obtain C p where rp: "rp = (C, p)" by (cases rp)
  obtain c1 where c1: "WasAlreadyVerified C cache = Inr (LRU_Cached C cache, c1)" "cache_ok S valid c1"
      "cache_items_map c1 = cache_items_map cache"
    using WasAlreadyVerified_ok [OF Cons.prems(1)] by blast
  obtain x where x: "ToSecp256k1_commitment S C = Inr x" using Cons.prems(2) rp by auto
  have parse: "\<forall>(C, p)\<in>set rps. \<exists>x. ToSecp256k1_commitment S C = Inr x" using Cons.prems(2) by simp
  have cached: "LRU_Cached D c1 = LRU_Cached D cache" for D using c1(3) by (simp add: LRU_Cached_def)
  show ?case
  proof (cases "LRU_Cached C cache")
    case True
    then have st: "VerifyBulletproofs_step S rp (cache, cs, xs0, ps) = Inr (c1, cs, xs0, ps)"
      using c1(1) by (simp add: VerifyBulletproofs_step_def rp)
    show ?thesis
      using Cons.IH [OF c1(2) parse, of cs xs0 ps] st True c1(3) cached rp by fastforce
  next
    case False
    then have st: "VerifyBulletproofs_step S rp (cache, cs, xs0, ps) = Inr (c1, cs @ [C], xs0 @ [x], ps @ [proof_bytes p])"
      using c1(1) x by (simp add: VerifyBulletproofs_step_def rp)
    obtain c2 news xs where IH: "rfold (VerifyBulletproofs_step S) rps (c1, cs @ [C], xs0 @ [x], ps @ [proof_bytes p]) =
        Inr (c2, (cs @ [C]) @ map fst news, (xs0 @ [x]) @ xs, (ps @ [proof_bytes p]) @ map (\<lambda>n. proof_bytes (snd n)) news)"
        "cache_ok S valid c2" "cache_items_map c2 = cache_items_map c1" "set news \<subseteq> set rps"
        "list_all2 (\<lambda>n x. ToSecp256k1_commitment S (fst n) = Inr x) news xs"
        "\<forall>n\<in>set rps. LRU_Cached (fst n) c1 \<or> n \<in> set news" "\<forall>n\<in>set news. \<not> LRU_Cached (fst n) c1"
      using Cons.IH [OF c1(2) parse, of "cs @ [C]" "xs0 @ [x]" "ps @ [proof_bytes p]"] by blast
    show ?thesis
      by (intro exI [of _ c2] exI [of _ "rp # news"] exI [of _ "x # xs"])
        (use st IH x c1(3) cached rp False in auto)
  qed
qed

lemma read_ptr_all:
  assumes "\<forall>p\<in>set ps. length p = n"
  shows "rmapM (read_ptr n) ps = Inr ps"
  using assms rmapM_map [of ps "read_ptr n" "\<lambda>p. p"] by simp

text \<open>
  C26. \<open>VerifyBulletproofs\<close> on an object whose generators exist and whose cache holds verified commitments
  only, for a non-empty list of commitments that parse with proofs of one length: it returns, the cache still holds
  verified commitments only, and if it returns true every commitment of the list is verified. (A commitment in the cache
  is accepted with whatever proof it comes with.) On the empty list, or without generators when there is something to
  verify, it is undefined behaviour.
\<close>

theorem VerifyBulletproofs_sound:
  assumes "batch_sound S valid" "cache_ok S valid (m_cache bp)"
    and "\<forall>(C, p)\<in>set rps. (\<exists>x. ToSecp256k1_commitment S C = Inr x) \<and> length (proof_bytes p) = n"
  shows "(if rps = [] \<or> m_pGenerators bp = None \<and> (\<exists>(C, p)\<in>set rps. \<not> LRU_Cached C (m_cache bp))
    then VerifyBulletproofs S rps bp = Inl UndefinedBehaviour
    else \<exists>b bp'. VerifyBulletproofs S rps bp = Inr (b, bp') \<and> cache_ok S valid (m_cache bp') \<and>
      (b \<longrightarrow> (\<forall>(C, p)\<in>set rps. verified S valid C)))"
proof (cases rps)
  case (Cons front rest)
  obtain cache news xs where L: "rfold (VerifyBulletproofs_step S) rps (m_cache bp, [], [], []) =
        Inr (cache, map fst news, xs, map (\<lambda>n. proof_bytes (snd n)) news)"
      "cache_ok S valid cache" "cache_items_map cache = cache_items_map (m_cache bp)" "set news \<subseteq> set rps"
      "list_all2 (\<lambda>n x. ToSecp256k1_commitment S (fst n) = Inr x) news xs"
      "\<forall>n\<in>set rps. LRU_Cached (fst n) (m_cache bp) \<or> n \<in> set news" "\<forall>n\<in>set news. \<not> LRU_Cached (fst n) (m_cache bp)"
    using VerifyBulletproofs_loop [OF assms(2), of rps "[]" "[]" "[]"] assms(3) by fastforce
  have old: "verified S valid C" if "LRU_Cached C (m_cache bp)" for C
    using assms(2) that by (auto simp: cache_ok_def LRU_Cached_def)
  have len: "length (proof_bytes (snd front)) = n" using assms(3) Cons by auto
  have "\<forall>q\<in>set (map (\<lambda>n. proof_bytes (snd n)) news). length q = n" using assms(3) L(4) by fastforce
  note rd = read_ptr_all [OF this]
  define r where "r = (case m_pGenerators bp of None \<Rightarrow> False
     | Some g \<Rightarrow> secp_bulletproof_verify_multi S g (map (\<lambda>n. proof_bytes (snd n)) news) xs)"
  have fresh: "verified S valid (fst n)" if rn: "r" "n \<in> set news" for n
  proof -
    obtain g where "secp_bulletproof_verify_multi S g (map (\<lambda>n. proof_bytes (snd n)) news) xs"
      using rn(1) by (cases "m_pGenerators bp") (auto simp: r_def)
    then have "list_all2 valid xs (map (\<lambda>n. proof_bytes (snd n)) news)"
      using assms(1) list_all2_lengthD [OF L(5)] by (simp add: batch_sound_def)
    then show ?thesis using L(5) rn(2)
      by (fastforce simp: verified_def list_all2_conv_all_nth in_set_conv_nth)
  qed
  obtain cache' where c': "(if r then rfold AddToCache (map fst news) cache else Inr cache) = Inr cache'" "cache_ok S valid cache'"
    using AddToCache_all [OF L(2), of "map fst news"] fresh L(2) by (cases r) auto
  have V: "VerifyBulletproofs S rps bp =
      (if news = [] then Inr (True, bp\<lparr>m_cache := cache\<rparr>)
       else case m_pGenerators bp of None \<Rightarrow> Inl UndefinedBehaviour | Some g \<Rightarrow> Inr (r, bp\<lparr>m_cache := cache'\<rparr>))"
    unfolding VerifyBulletproofs_def Cons list.case Let_def len L(1) [unfolded Cons]
    using c'(1) rd by (auto simp: r_def split: option.split)
  have news: "news = [] \<longleftrightarrow> (\<forall>(C, p)\<in>set rps. LRU_Cached C (m_cache bp))"
    using L(4,6,7) by (cases news) fastforce+
  show ?thesis
  proof (cases "news = []")
    case True
    then have all: "\<forall>(C, p)\<in>set rps. LRU_Cached C (m_cache bp)" using news by simp
    then have "\<forall>(C, p)\<in>set rps. verified S valid C" using old by blast
    moreover have "VerifyBulletproofs S rps bp = Inr (True, bp\<lparr>m_cache := cache\<rparr>)" using V True by simp
    ultimately show ?thesis using L(2) Cons all by auto
  next
    case False
    then show ?thesis
    proof (cases "m_pGenerators bp")
      case None
      then show ?thesis using V False news by auto
    next
      case (Some g)
      have "verified S valid (fst m)" if "r" "m \<in> set rps" for m
        using L(6) old fresh [OF that(1)] that(2) by blast
      then have "r \<longrightarrow> (\<forall>(C, p)\<in>set rps. verified S valid C)" by auto
      moreover have "VerifyBulletproofs S rps bp = Inr (r, bp\<lparr>m_cache := cache'\<rparr>)" using V False Some by simp
      ultimately show ?thesis using c'(2) Cons Some by simp
    qed
  qed
qed (simp add: VerifyBulletproofs_def)

theorem VerifyBulletproofs_sound_witness:
  "\<exists>b bp'. VerifyBulletproofs toy_secp [(mk_Commitment (mk_BigInt (8 # replicate 31 0 @ [13])), mk_RangeProof [13])]
      (new_Bulletproofs (Some ())) = Inr (b, bp') \<and>
    (b \<longrightarrow> verified toy_secp (\<lambda>x p. p = [x]) (mk_Commitment (mk_BigInt (8 # replicate 31 0 @ [13]))))"
proof -
  let ?C = "mk_Commitment (mk_BigInt (8 # replicate 31 0 @ [13])) :: Commitment" and ?p = "mk_RangeProof [13]"
  have s: "batch_sound toy_secp (\<lambda>x p. p = [x])"
    by (auto simp: batch_sound_def toy_secp_def list_all2_conv_all_nth)
  have c: "cache_ok toy_secp (\<lambda>x p. p = [x]) (m_cache (new_Bulletproofs (Some ())))"
    by (simp add: new_Bulletproofs_def cache_ok_new)
  have "ToSecp256k1_commitment toy_secp ?C = Inr 13"
    by (simp add: ToSecp256k1_commitment_def mk_Commitment_def mk_BigInt_def toy_secp_def)
  then have r: "\<forall>(C, p)\<in>set [(?C, ?p)]. (\<exists>x. ToSecp256k1_commitment toy_secp C = Inr x) \<and> length (proof_bytes p) = 1"
    by (simp add: mk_RangeProof_def)
  have g: "\<not> ([(?C, ?p)] = [] \<or> m_pGenerators (new_Bulletproofs (Some ())) = None \<and>
      (\<exists>(C, p)\<in>set [(?C, ?p)]. \<not> LRU_Cached C (m_cache (new_Bulletproofs (Some ())))))"
    by (simp add: new_Bulletproofs_def)
  from VerifyBulletproofs_sound [OF s c r] show ?thesis unfolding if_not_P [OF g] by auto
qed

end
