(* ===== verification/MW_Tx.thy ===== *)
theory MW_Tx
  imports MW_Mmr MW_Crypto
begin

text \<open>
  The transaction classes of \<^verbatim>\<open>include/mw/core/models/tx\<close>: output features, \<open>Input\<close>, \<open>Output\<close>, the abstract
  kernel class \<open>IKernel\<close>, \<open>TxBody\<close>, \<open>Transaction\<close> and \<open>UTXO\<close>. The hash function of the objects is the parameter \<open>B\<close>.
  A concrete kernel class is not part of the repository: its virtual methods and the kernel factory of the
  context are the parameter \<open>K\<close>, and its objects extend the record \<open>IKernel\<close>.
\<close>

section \<open>Features\<close>

record Features =
  m_features :: u8

definition Features_IsSet :: "Features \<Rightarrow> u8 \<Rightarrow> bool" where
  "Features_IsSet f feature \<longleftrightarrow> (m_features f AND feature) = feature"

text \<open>
  \<open>EOutputFeatures\<close> has two enumerators, but its values are made from bytes of the wire by a cast,
  which keeps the byte: the type of its values is the byte.
\<close>

type_synonym EOutputFeatures = u8

definition DEFAULT_OUTPUT :: EOutputFeatures where "DEFAULT_OUTPUT = 0"
definition COINBASE_OUTPUT :: EOutputFeatures where "COINBASE_OUTPUT = 1"

definition OutputFeatures_ToString :: "EOutputFeatures \<Rightarrow> string" where
  "OutputFeatures_ToString features =
     (if features = DEFAULT_OUTPUT then ''Plain''
      else if features = COINBASE_OUTPUT then ''Coinbase''
      else [])"

definition OutputFeatures_FromString :: "string \<Rightarrow> EOutputFeatures result" where
  "OutputFeatures_FromString str =
     (if str = ''Plain'' then Inr DEFAULT_OUTPUT
      else if str = ''Coinbase'' then Inr COINBASE_OUTPUT
      else Inl (DeserializationException (''Failed to deserialize output feature: '' @ str)))"

section \<open>Input\<close>

record Input =
  in_features :: EOutputFeatures
  in_commitment :: Commitment
  in_hash :: Hash

definition Input_Serialize :: "bool \<Rightarrow> Input \<Rightarrow> Serializer \<Rightarrow> Serializer" where
  "Input_Serialize be i s = Commitment_Serialize (in_commitment i) (Append be (in_features i) s)"

definition mk_Input :: "(bytes \<Rightarrow> Hash) \<Rightarrow> bool \<Rightarrow> EOutputFeatures \<Rightarrow> Commitment \<Rightarrow> Input" where
  "mk_Input B be features commitment =
     (let i = \<lparr>in_features = features, in_commitment = commitment, in_hash = new_BigInt 32\<rparr>
      in i\<lparr>in_hash := B (m_serialized (Input_Serialize be i new_Serializer))\<rparr>)"

definition Input_less :: "bool \<Rightarrow> Input \<Rightarrow> Input \<Rightarrow> bool result" where
  "Input_less same a b = BigInt_less 32 same (in_hash a) (in_hash b)"

definition Input_eq :: "bool \<Rightarrow> Input \<Rightarrow> Input \<Rightarrow> bool" where
  "Input_eq same a b = BigInt_eq same (in_hash a) (in_hash b)"

definition Input_IsCoinbase :: "Input \<Rightarrow> bool" where
  "Input_IsCoinbase i \<longleftrightarrow> (in_features i AND COINBASE_OUTPUT) = COINBASE_OUTPUT"

definition Input_Deserialize :: "(bytes \<Rightarrow> Hash) \<Rightarrow> bool \<Rightarrow> Input reader" where
  "Input_Deserialize B be =
     dbind (Read be) (\<lambda>features :: u8.
     dbind Commitment_Deserialize (\<lambda>commitment.
       dreturn (mk_Input B be features commitment)))"

definition Input_ToJSON :: "'j json_lib \<Rightarrow> Input \<Rightarrow> 'j" where
  "Input_ToJSON J i = j_object J [(''features'', j_string J (OutputFeatures_ToString (in_features i))),
     (''commit'', to_json (Commitment_ToJSON J) (in_commitment i))]"

definition Input_FromJSON :: "(bytes \<Rightarrow> Hash) \<Rightarrow> bool \<Rightarrow> 'j json_lib \<Rightarrow> 'j Json \<Rightarrow> Input result" where
  "Input_FromJSON B be J js =
     rbind (Json_GetRequired J (j_get_string J) js ''features'') (\<lambda>str.
     rbind (OutputFeatures_FromString str) (\<lambda>features.
     rbind (Json_GetRequired J (from_json (Commitment_FromJSON J)) js ''commit'') (\<lambda>commitment.
       Inr (mk_Input B be features commitment))))"

section \<open>Output\<close>

text \<open>The range proof is held by a shared pointer, which is never null in an object the code constructs.\<close>

record Output =
  out_features :: EOutputFeatures
  out_commitment :: Commitment
  out_proof :: RangeProof
  out_hash :: Hash

definition Output_Serialize :: "bool \<Rightarrow> Output \<Rightarrow> Serializer \<Rightarrow> Serializer" where
  "Output_Serialize be x s =
     RangeProof_Serialize be (out_proof x) (Commitment_Serialize (out_commitment x) (Append be (out_features x) s))"

definition mk_Output :: "(bytes \<Rightarrow> Hash) \<Rightarrow> bool \<Rightarrow> EOutputFeatures \<Rightarrow> Commitment \<Rightarrow> RangeProof \<Rightarrow> Output" where
  "mk_Output B be features commitment pProof =
     (let x = \<lparr>out_features = features, out_commitment = commitment, out_proof = pProof, out_hash = new_BigInt 32\<rparr>
      in x\<lparr>out_hash := B (m_serialized (Output_Serialize be x new_Serializer))\<rparr>)"

definition Output_less :: "bool \<Rightarrow> Output \<Rightarrow> Output \<Rightarrow> bool result" where
  "Output_less same a b = BigInt_less 32 same (out_hash a) (out_hash b)"

definition Output_eq :: "bool \<Rightarrow> Output \<Rightarrow> Output \<Rightarrow> bool" where
  "Output_eq same a b = BigInt_eq same (out_hash a) (out_hash b)"

definition Output_IsCoinbase :: "Output \<Rightarrow> bool" where
  "Output_IsCoinbase x \<longleftrightarrow> (out_features x AND COINBASE_OUTPUT) = COINBASE_OUTPUT"

definition Output_Deserialize :: "(bytes \<Rightarrow> Hash) \<Rightarrow> bool \<Rightarrow> Output reader" where
  "Output_Deserialize B be =
     dbind (Read be) (\<lambda>features :: u8.
     dbind Commitment_Deserialize (\<lambda>commitment.
     dbind (RangeProof_Deserialize be) (\<lambda>pProof.
       dreturn (mk_Output B be features commitment pProof))))"

definition Output_ToJSON :: "'j json_lib \<Rightarrow> Output \<Rightarrow> 'j" where
  "Output_ToJSON J x = j_object J [(''features'', j_string J (OutputFeatures_ToString (out_features x))),
     (''commit'', to_json (Commitment_ToJSON J) (out_commitment x)),
     (''proof'', to_json (RangeProof_ToJSON J) (out_proof x))]"

definition Output_FromJSON :: "(bytes \<Rightarrow> Hash) \<Rightarrow> bool \<Rightarrow> 'j json_lib \<Rightarrow> 'j Json \<Rightarrow> Output result" where
  "Output_FromJSON B be J js =
     rbind (Json_GetRequired J (j_get_string J) js ''features'') (\<lambda>str.
     rbind (OutputFeatures_FromString str) (\<lambda>features.
     rbind (Json_GetRequired J (from_json (Commitment_FromJSON J)) js ''commit'') (\<lambda>commitment.
     rbind (Json_GetRequired J (from_json (RangeProof_FromJSON J)) js ''proof'') (\<lambda>pProof.
       Inr (mk_Output B be features commitment pProof)))))"

section \<open>IKernel\<close>

record IKernel =
  kn_features :: u8
  kn_fee :: u64
  kn_lockHeight :: u64
  kn_excess :: Commitment
  kn_signature :: Signature
  kn_hash :: "Hash option"

record ('j, 'k) kernel_class =
  K_GetSignatureMessage :: "'k \<Rightarrow> Hash"
  K_Serialize :: "'k \<Rightarrow> Serializer \<Rightarrow> Serializer"
  K_ToJSON :: "'k \<Rightarrow> 'j"
  K_Deserialize :: "'k reader"
  K_FromJSON :: "'j Json \<Rightarrow> 'k result"

definition mk_IKernel :: "u8 \<Rightarrow> u64 \<Rightarrow> u64 \<Rightarrow> Commitment \<Rightarrow> Signature \<Rightarrow> IKernel" where
  "mk_IKernel features fee lockHeight excess signature =
     \<lparr>kn_features = features, kn_fee = fee, kn_lockHeight = lockHeight, kn_excess = excess,
      kn_signature = signature, kn_hash = None\<rparr>"

text \<open>\<open>GetHash\<close> computes the hash once and keeps it in the mutable member: it returns the updated object too.\<close>

definition IKernel_GetHash ::
  "(bytes \<Rightarrow> Hash) \<Rightarrow> ('j, 'z IKernel_scheme) kernel_class \<Rightarrow> 'z IKernel_scheme \<Rightarrow> Hash \<times> 'z IKernel_scheme" where
  "IKernel_GetHash B K k =
     (case kn_hash k of
        Some h \<Rightarrow> (h, k)
      | None \<Rightarrow> (let h = B (Serialized (K_Serialize K k)) in (h, k\<lparr>kn_hash := Some h\<rparr>)))"

definition IKernel_less ::
  "(bytes \<Rightarrow> Hash) \<Rightarrow> ('j, 'z IKernel_scheme) kernel_class \<Rightarrow> 'z IKernel_scheme \<Rightarrow> 'z IKernel_scheme \<Rightarrow> bool result" where
  "IKernel_less B K a b = BigInt_less 32 False (fst (IKernel_GetHash B K a)) (fst (IKernel_GetHash B K b))"

definition IKernel_eq ::
  "(bytes \<Rightarrow> Hash) \<Rightarrow> ('j, 'z IKernel_scheme) kernel_class \<Rightarrow> 'z IKernel_scheme \<Rightarrow> 'z IKernel_scheme \<Rightarrow> bool" where
  "IKernel_eq B K a b = BigInt_eq False (fst (IKernel_GetHash B K a)) (fst (IKernel_GetHash B K b))"

definition IKernel_Deserialize :: "('j, 'k) kernel_class \<Rightarrow> 'k reader" where
  "IKernel_Deserialize K = K_Deserialize K"

definition IKernel_FromJSON :: "('j, 'k) kernel_class \<Rightarrow> 'j Json \<Rightarrow> 'k result" where
  "IKernel_FromJSON K js = K_FromJSON K js"

section \<open>TxBody\<close>

record 'k TxBody =
  m_inputs :: "Input list"
  m_outputs :: "Output list"
  m_kernels :: "'k list"

definition TxBody_Serialize :: "bool \<Rightarrow> ('j, 'k) kernel_class \<Rightarrow> 'k TxBody \<Rightarrow> Serializer \<Rightarrow> Serializer" where
  "TxBody_Serialize be K b s =
     (let s = Append be (of_nat (length (m_kernels b)) :: u64)
            (Append be (of_nat (length (m_outputs b)) :: u64)
            (Append be (of_nat (length (m_inputs b)) :: u64) s));
          s = serialize_all (Input_Serialize be) (m_inputs b) s;
          s = serialize_all (Output_Serialize be) (m_outputs b) s
      in serialize_all (K_Serialize K) (m_kernels b) s)"

text \<open>\<open>cap\<close> bounds what \<^verbatim>\<open>reserve\<close> of the three vectors accepts; beyond it \<^verbatim>\<open>reserve\<close> throws.\<close>

definition TxBody_Deserialize :: "u64 \<Rightarrow> (bytes \<Rightarrow> Hash) \<Rightarrow> bool \<Rightarrow> ('j, 'k) kernel_class \<Rightarrow> 'k TxBody reader" where
  "TxBody_Deserialize cap B be K =
     dbind (Read be) (\<lambda>numInputs :: u64.
     dbind (Read be) (\<lambda>numOutputs :: u64.
     dbind (Read be) (\<lambda>numKernels :: u64.
     dbind (read_list cap (Input_Deserialize B be) numInputs) (\<lambda>inputs.
     dbind (read_list cap (Output_Deserialize B be) numOutputs) (\<lambda>outputs.
     dbind (read_list cap (IKernel_Deserialize K) numKernels) (\<lambda>kernels.
       dreturn \<lparr>m_inputs = inputs, m_outputs = outputs, m_kernels = kernels\<rparr>))))))"

definition TxBody_ToJSON :: "'j json_lib \<Rightarrow> ('j, 'k) kernel_class \<Rightarrow> 'k TxBody \<Rightarrow> 'j" where
  "TxBody_ToJSON J K b = j_object J [
     (''inputs'', j_vector J (to_json (Input_ToJSON J)) (m_inputs b)),
     (''outputs'', j_vector J (to_json (Output_ToJSON J)) (m_outputs b)),
     (''kernels'', j_vector J (to_json (K_ToJSON K)) (m_kernels b))]"

text \<open>The body of \<open>FromJSON\<close> is empty: flowing off the end of a function that returns a value.\<close>

definition TxBody_FromJSON :: "'j Json \<Rightarrow> 'k TxBody result" where
  "TxBody_FromJSON js = Inl UndefinedBehaviour"

section \<open>Transaction\<close>

record 'k Transaction =
  tx_offset :: BlindingFactor
  tx_body :: "'k TxBody"
  tx_hash :: Hash

definition Transaction_Serialize :: "bool \<Rightarrow> ('j, 'k) kernel_class \<Rightarrow> 'k Transaction \<Rightarrow> Serializer \<Rightarrow> Serializer" where
  "Transaction_Serialize be K t s = TxBody_Serialize be K (tx_body t) (BlindingFactor_Serialize (tx_offset t) s)"

definition mk_Transaction :: "(bytes \<Rightarrow> Hash) \<Rightarrow> bool \<Rightarrow> ('j, 'k) kernel_class \<Rightarrow> BlindingFactor \<Rightarrow> 'k TxBody \<Rightarrow> 'k Transaction" where
  "mk_Transaction B be K offset body =
     (let t = \<lparr>tx_offset = offset, tx_body = body, tx_hash = new_BigInt 32\<rparr>
      in t\<lparr>tx_hash := B (m_serialized (Transaction_Serialize be K t new_Serializer))\<rparr>)"

definition Transaction_less :: "bool \<Rightarrow> 'k Transaction \<Rightarrow> 'k Transaction \<Rightarrow> bool result" where
  "Transaction_less same a b = BigInt_less 32 same (tx_hash a) (tx_hash b)"

definition Transaction_eq :: "bool \<Rightarrow> 'k Transaction \<Rightarrow> 'k Transaction \<Rightarrow> bool" where
  "Transaction_eq same a b = BigInt_eq same (tx_hash a) (tx_hash b)"

definition Transaction_Deserialize :: "u64 \<Rightarrow> (bytes \<Rightarrow> Hash) \<Rightarrow> bool \<Rightarrow> ('j, 'k) kernel_class \<Rightarrow> 'k Transaction reader" where
  "Transaction_Deserialize cap B be K =
     dbind BlindingFactor_Deserialize (\<lambda>offset.
     dbind (TxBody_Deserialize cap B be K) (\<lambda>body.
       dreturn (mk_Transaction B be K offset body)))"

definition Transaction_ToJSON :: "'j json_lib \<Rightarrow> ('j, 'k) kernel_class \<Rightarrow> 'k Transaction \<Rightarrow> 'j" where
  "Transaction_ToJSON J K t = j_object J [
     (''offset'', j_string J (BlindingFactor_ToHex (tx_offset t))),
     (''body'', TxBody_ToJSON J K (tx_body t))]"

definition Transaction_FromJSON ::
  "(bytes \<Rightarrow> Hash) \<Rightarrow> bool \<Rightarrow> 'j json_lib \<Rightarrow> ('j, 'k) kernel_class \<Rightarrow> 'j Json \<Rightarrow> 'k Transaction result" where
  "Transaction_FromJSON B be J K js =
     rbind (Json_GetRequired J (j_get_string J) js ''offset'') (\<lambda>hex.
     rbind (Json_GetRequired J (from_json TxBody_FromJSON) js ''body'') (\<lambda>body.
       Inr (mk_Transaction B be K (BlindingFactor_FromHex hex) body)))"

section \<open>UTXO\<close>

record UTXO =
  m_blockHeight :: u64
  utxo_leafIndex :: LeafIndex
  utxo_output :: Output

definition UTXO_Serialize :: "bool \<Rightarrow> UTXO \<Rightarrow> Serializer \<Rightarrow> Serializer" where
  "UTXO_Serialize be u s =
     Output_Serialize be (utxo_output u) (Append be (m_leafIndex (utxo_leafIndex u)) (Append be (m_blockHeight u) s))"

definition UTXO_Deserialize :: "UTXO reader" where
  "UTXO_Deserialize = dthrow StdException"

section \<open>The classes satisfy the codec contract\<close>

abbreviation Input_enc :: "Input \<Rightarrow> bytes" where
  "Input_enc i \<equiv> be_bytes (in_features i) @ Commitment_enc (in_commitment i)"

definition Input_wf :: "(bytes \<Rightarrow> Hash) \<Rightarrow> Input \<Rightarrow> bool" where
  "Input_wf B i \<longleftrightarrow> Commitment_wf (in_commitment i) \<and> in_hash i = B (Input_enc i)"

lemma appends_Input: "appends (Input_Serialize be i) (Input_enc i)"
  unfolding Input_Serialize_def [abs_def] by (intro appends_comp appends_simps Commitment_codec.ser_appends)

lemma mk_Input_eq: "mk_Input B be f c = \<lparr>in_features = f, in_commitment = c, in_hash = B (be_bytes f @ Commitment_enc c)\<rparr>"
  using appendsD [OF appends_Input, of be _ new_Serializer] by (simp add: mk_Input_def Let_def new_Serializer_def)

interpretation Input_codec: codec "Input_Serialize be" "Input_Deserialize B be" Input_enc "Input_wf B" for B be
proof
  show "appends (Input_Serialize be i) (Input_enc i)" for i by (rule appends_Input)
  show "decodes (Input_Deserialize B be) i (Input_enc i)" if "Input_wf B i" for i
    unfolding Input_Deserialize_def using that
    by (intro decodes_bind [OF decodes_Read decodes_bind_return [OF Commitment_codec.des_enc]])
      (cases i; simp add: Input_wf_def mk_Input_eq)+
  show "reader_safe (Input_Deserialize B be)"
    unfolding Input_Deserialize_def by (intro reader_safe_bind Commitment_codec.des_safe) auto
qed

abbreviation Output_enc :: "Output \<Rightarrow> bytes" where
  "Output_enc x \<equiv> be_bytes (out_features x) @ Commitment_enc (out_commitment x) @ RangeProof_enc (out_proof x)"

definition Output_wf :: "(bytes \<Rightarrow> Hash) \<Rightarrow> Output \<Rightarrow> bool" where
  "Output_wf B x \<longleftrightarrow> Commitment_wf (out_commitment x) \<and> RangeProof_wf (out_proof x) \<and> out_hash x = B (Output_enc x)"

lemma appends_Output: "appends (Output_Serialize be x) (Output_enc x)"
proof -
  have "appends (\<lambda>s. RangeProof_Serialize be (out_proof x) (Commitment_Serialize (out_commitment x) (Append be (out_features x) s)))
      ((be_bytes (out_features x) @ Commitment_enc (out_commitment x)) @ RangeProof_enc (out_proof x))"
    by (intro appends_comp [of "\<lambda>s. Commitment_Serialize (out_commitment x) (Append be (out_features x) s)"]
        appends_comp [of "Append be (out_features x)"] appends_simps Commitment_codec.ser_appends RangeProof_codec.ser_appends)
  then show ?thesis by (simp add: Output_Serialize_def [abs_def])
qed

lemma mk_Output_eq:
  "mk_Output B be f c p = \<lparr>out_features = f, out_commitment = c, out_proof = p,
     out_hash = B (be_bytes f @ Commitment_enc c @ RangeProof_enc p)\<rparr>"
  using appendsD [OF appends_Output, of be _ new_Serializer] by (simp add: mk_Output_def Let_def new_Serializer_def)

interpretation Output_codec: codec "Output_Serialize be" "Output_Deserialize B be" Output_enc "Output_wf B" for B be
proof
  show "appends (Output_Serialize be x) (Output_enc x)" for x by (rule appends_Output)
  show "decodes (Output_Deserialize B be) x (Output_enc x)" if "Output_wf B x" for x
    unfolding Output_Deserialize_def using that
    by (intro decodes_bind [OF decodes_Read decodes_bind [OF Commitment_codec.des_enc
          decodes_bind_return [OF RangeProof_codec.des_enc]]])
      (cases x; simp add: Output_wf_def mk_Output_eq)+
  show "reader_safe (Output_Deserialize B be)"
    unfolding Output_Deserialize_def
    by (intro reader_safe_bind Commitment_codec.des_safe RangeProof_codec.des_safe) auto
qed

text \<open>
  A kernel class that satisfies the contract gives bodies and transactions that do; \<open>cap\<close> bounds the numbers of
  inputs, outputs and kernels.
\<close>

definition TxBody_enc :: "('k \<Rightarrow> bytes) \<Rightarrow> 'k TxBody \<Rightarrow> bytes" where
  "TxBody_enc kenc b = be_bytes (of_nat (length (m_inputs b)) :: u64) @ be_bytes (of_nat (length (m_outputs b)) :: u64) @
     be_bytes (of_nat (length (m_kernels b)) :: u64) @ concat (map Input_enc (m_inputs b)) @
     concat (map Output_enc (m_outputs b)) @ concat (map kenc (m_kernels b))"

definition TxBody_wf :: "u64 \<Rightarrow> (bytes \<Rightarrow> Hash) \<Rightarrow> ('k \<Rightarrow> bool) \<Rightarrow> 'k TxBody \<Rightarrow> bool" where
  "TxBody_wf cap B kvalid b \<longleftrightarrow> list_all (Input_wf B) (m_inputs b) \<and> list_all (Output_wf B) (m_outputs b) \<and>
     list_all kvalid (m_kernels b) \<and> length (m_inputs b) \<le> unat cap \<and> length (m_outputs b) \<le> unat cap \<and>
     length (m_kernels b) \<le> unat cap"

lemma appends_TxBody:
  assumes "\<And>k. appends (K_Serialize K k) (kenc k)"
  shows "appends (TxBody_Serialize be K b) (TxBody_enc kenc b)"
proof -
  let ?h = "\<lambda>s. Append be (of_nat (length (m_kernels b)) :: u64) (Append be (of_nat (length (m_outputs b)) :: u64)
      (Append be (of_nat (length (m_inputs b)) :: u64) s))"
  have h: "appends ?h ((be_bytes (of_nat (length (m_inputs b)) :: u64) @ be_bytes (of_nat (length (m_outputs b)) :: u64)) @
      be_bytes (of_nat (length (m_kernels b)) :: u64))"
    by (intro appends_comp [of "\<lambda>s. Append be (of_nat (length (m_outputs b)) :: u64) (Append be (of_nat (length (m_inputs b)) :: u64) s)"]
        appends_comp [of "Append be (of_nat (length (m_inputs b)) :: u64)"] appends_simps)
  note i = appends_comp [OF h Input_codec.serialize_all_enc [of be "m_inputs b"]]
  note x = appends_comp [OF i Output_codec.serialize_all_enc [of be "m_outputs b"]]
  have k: "appends (serialize_all (K_Serialize K) (m_kernels b)) (concat (map kenc (m_kernels b)))"
    by (rule appends_serialize_all) (rule assms)
  show ?thesis
    using appends_comp [OF x k] by (simp add: TxBody_Serialize_def [abs_def] Let_def TxBody_enc_def)
qed

lemma TxBody_codec:
  assumes "codec (K_Serialize K) (K_Deserialize K) kenc kvalid"
  shows "codec (TxBody_Serialize be K) (TxBody_Deserialize cap B be K) (TxBody_enc kenc) (TxBody_wf cap B kvalid)"
proof
  note c = assms [unfolded codec_def]
  show "appends (TxBody_Serialize be K b) (TxBody_enc kenc b)" for b
    by (rule appends_TxBody) (use c in blast)
  show "decodes (TxBody_Deserialize cap B be K) b (TxBody_enc kenc b)" if wf: "TxBody_wf cap B kvalid b" for b
  proof -
    have i: "decodes (read_list cap (Input_Deserialize B be) (of_nat (length (m_inputs b)))) (m_inputs b) (concat (map Input_enc (m_inputs b)))"
      by (rule Input_codec.list_enc) (use wf in \<open>simp_all add: TxBody_wf_def\<close>)
    have x: "decodes (read_list cap (Output_Deserialize B be) (of_nat (length (m_outputs b)))) (m_outputs b) (concat (map Output_enc (m_outputs b)))"
      by (rule Output_codec.list_enc) (use wf in \<open>simp_all add: TxBody_wf_def\<close>)
    have k: "decodes (read_list cap (IKernel_Deserialize K) (of_nat (length (m_kernels b)))) (m_kernels b) (concat (map kenc (m_kernels b)))"
      by (rule decodes_read_list) (use wf c in \<open>auto simp: TxBody_wf_def IKernel_Deserialize_def list_all_iff\<close>)
    show ?thesis
      unfolding TxBody_Deserialize_def TxBody_enc_def
      by ((rule decodes_bind, rule decodes_Read, simp, simp)+, rule decodes_bind, rule i, rule decodes_bind, rule x,
          rule decodes_bind_return, rule k) (cases b, simp)
  qed
  show "reader_safe (TxBody_Deserialize cap B be K)"
    unfolding TxBody_Deserialize_def IKernel_Deserialize_def using c
    by (intro reader_safe_bind reader_safe_read_list Input_codec.des_safe Output_codec.des_safe) auto
qed

definition Transaction_wf :: "u64 \<Rightarrow> (bytes \<Rightarrow> Hash) \<Rightarrow> ('k \<Rightarrow> bytes) \<Rightarrow> ('k \<Rightarrow> bool) \<Rightarrow> 'k Transaction \<Rightarrow> bool" where
  "Transaction_wf cap B kenc kvalid t \<longleftrightarrow> BlindingFactor_wf (tx_offset t) \<and> TxBody_wf cap B kvalid (tx_body t) \<and>
     tx_hash t = B (BlindingFactor_enc (tx_offset t) @ TxBody_enc kenc (tx_body t))"

lemma Transaction_codec:
  assumes "codec (K_Serialize K) (K_Deserialize K) kenc kvalid"
  shows "codec (Transaction_Serialize be K) (Transaction_Deserialize cap B be K)
    (\<lambda>t. BlindingFactor_enc (tx_offset t) @ TxBody_enc kenc (tx_body t)) (Transaction_wf cap B kenc kvalid)"
proof
  note b = TxBody_codec [OF assms, of be cap B, unfolded codec_def]
  show a: "appends (Transaction_Serialize be K t) (BlindingFactor_enc (tx_offset t) @ TxBody_enc kenc (tx_body t))" for t
    unfolding Transaction_Serialize_def [abs_def]
    by (intro appends_comp BlindingFactor_codec.ser_appends) (use b in blast)
  have mk: "mk_Transaction B be K (tx_offset t) (tx_body t) = t" if "Transaction_wf cap B kenc kvalid t" for t
    using that appendsD [OF a, of "\<lparr>tx_offset = tx_offset t, tx_body = tx_body t, tx_hash = new_BigInt 32\<rparr>" new_Serializer]
    by (simp add: mk_Transaction_def Let_def Transaction_wf_def new_Serializer_def)
  show "decodes (Transaction_Deserialize cap B be K) t (BlindingFactor_enc (tx_offset t) @ TxBody_enc kenc (tx_body t))"
    if wf: "Transaction_wf cap B kenc kvalid t" for t
    unfolding Transaction_Deserialize_def
    by (intro decodes_bind [OF BlindingFactor_codec.des_enc decodes_bind_return])
      (use wf b mk in \<open>auto simp: Transaction_wf_def\<close>)
  show "reader_safe (Transaction_Deserialize cap B be K)"
    unfolding Transaction_Deserialize_def using b
    by (intro reader_safe_bind BlindingFactor_codec.des_safe) auto
qed

section \<open>The cached hash of a kernel\<close>

definition kernel_hash_ok :: "(bytes \<Rightarrow> Hash) \<Rightarrow> ('j, 'z IKernel_scheme) kernel_class \<Rightarrow> 'z IKernel_scheme \<Rightarrow> bool" where
  "kernel_hash_ok B K k \<longleftrightarrow> kn_hash k = None \<or> kn_hash k = Some (B (Serialized (K_Serialize K k)))"

lemma IKernel_GetHash_ok:
  assumes "kernel_hash_ok B K k" "\<And>k h. K_Serialize K (k\<lparr>kn_hash := h\<rparr>) = K_Serialize K k"
  shows "\<exists>k'. IKernel_GetHash B K k = (B (Serialized (K_Serialize K k)), k') \<and> kernel_hash_ok B K k' \<and>
    IKernel_GetHash B K k' = (B (Serialized (K_Serialize K k)), k')"
  using assms by (auto simp: kernel_hash_ok_def IKernel_GetHash_def Let_def)

section \<open>A kernel class for examples\<close>

text \<open>Features, fee, lock height, excess and signature one after the other, without a cached hash.\<close>

definition example_kernel_ser :: "bool \<Rightarrow> IKernel \<Rightarrow> Serializer \<Rightarrow> Serializer" where
  "example_kernel_ser be k s = Signature_Serialize (kn_signature k) (Commitment_Serialize (kn_excess k)
     (Append be (kn_lockHeight k) (Append be (kn_fee k) (Append be (kn_features k) s))))"

definition example_kernel_des :: "bool \<Rightarrow> IKernel reader" where
  "example_kernel_des be = dbind (Read be) (\<lambda>features. dbind (Read be) (\<lambda>fee. dbind (Read be) (\<lambda>lockHeight.
     dbind Commitment_Deserialize (\<lambda>excess. dbind Signature_Deserialize (\<lambda>signature.
       dreturn (mk_IKernel features fee lockHeight excess signature))))))"

definition example_kernel_enc :: "IKernel \<Rightarrow> bytes" where
  "example_kernel_enc k = be_bytes (kn_features k) @ be_bytes (kn_fee k) @ be_bytes (kn_lockHeight k) @
     Commitment_enc (kn_excess k) @ Signature_enc (kn_signature k)"

definition example_kernel_wf :: "IKernel \<Rightarrow> bool" where
  "example_kernel_wf k \<longleftrightarrow> Commitment_wf (kn_excess k) \<and> Signature_wf (kn_signature k) \<and> kn_hash k = None"

definition example_kernels :: "bool \<Rightarrow> (json_value, IKernel) kernel_class" where
  "example_kernels be = \<lparr>K_GetSignatureMessage = (\<lambda>k. mk_BigInt (replicate 32 (kn_features k))),
     K_Serialize = example_kernel_ser be, K_ToJSON = (\<lambda>k. JNull),
     K_Deserialize = example_kernel_des be, K_FromJSON = (\<lambda>js. Inl JsonException)\<rparr>"

lemma appends_example_kernel: "appends (example_kernel_ser be k) (example_kernel_enc k)"
  using appendsD [OF Commitment_codec.ser_appends] appendsD [OF Signature_codec.ser_appends]
  by (simp add: appends_def example_kernel_ser_def example_kernel_enc_def mw_codec)

lemma example_kernels_codec:
  "codec (K_Serialize (example_kernels be)) (K_Deserialize (example_kernels be)) example_kernel_enc example_kernel_wf"
proof
  show "appends (K_Serialize (example_kernels be) k) (example_kernel_enc k)" for k
    by (simp add: example_kernels_def appends_example_kernel)
  show "decodes (K_Deserialize (example_kernels be)) k (example_kernel_enc k)" if wf: "example_kernel_wf k" for k
    using wf unfolding example_kernels_def example_kernel_des_def example_kernel_enc_def example_kernel_wf_def kernel_class.simps
    by - ((rule decodes_bind, rule decodes_Read, simp, simp)+, rule decodes_bind, rule Commitment_codec.des_enc, simp,
      rule decodes_bind_return, rule Signature_codec.des_enc, simp, cases k, simp add: mk_IKernel_def)
  show "reader_safe (K_Deserialize (example_kernels be))"
    unfolding example_kernels_def example_kernel_des_def kernel_class.simps
    by (intro reader_safe_bind Commitment_codec.des_safe Signature_codec.des_safe) auto
qed

definition example_commitment :: "u8 \<Rightarrow> Commitment" where
  "example_commitment n = mk_Commitment (mk_BigInt (8 # replicate 31 0 @ [n]))"

lemma example_commitment_wf: "Commitment_wf (example_commitment n)"
  by (simp add: example_commitment_def Commitment_wf_def mk_Commitment_def mk_BigInt_def)

definition example_input :: Input where
  "example_input = mk_Input B_example False 0 (example_commitment 5)"

definition example_output :: Output where
  "example_output = mk_Output B_example False 1 (example_commitment 17) (mk_RangeProof [17])"

definition example_kernel :: IKernel where
  "example_kernel = mk_IKernel 7 1 0 (example_commitment 12) (mk_Signature (mk_BigInt (replicate 64 12)))"

definition example_body :: "IKernel TxBody" where
  "example_body = \<lparr>m_inputs = [example_input], m_outputs = [example_output], m_kernels = [example_kernel]\<rparr>"

definition example_tx :: "IKernel Transaction" where
  "example_tx = mk_Transaction B_example False (example_kernels False) (mk_BlindingFactor (ValueOf 32 3)) example_body"

lemma example_wf:
  "Input_wf B_example example_input" "Output_wf B_example example_output" "example_kernel_wf example_kernel"
  by (simp_all add: example_input_def example_output_def example_kernel_def Input_wf_def Output_wf_def mk_Input_eq
      mk_Output_eq example_commitment_wf RangeProof_wf_def mk_RangeProof_def example_kernel_wf_def mk_IKernel_def
      Signature_wf_def mk_Signature_def mk_BigInt_def)

lemma example_body_wf: "TxBody_wf 10 B_example example_kernel_wf example_body"
  by (simp add: TxBody_wf_def example_body_def example_wf)

lemma example_tx_wf: "Transaction_wf 10 B_example example_kernel_enc example_kernel_wf example_tx"
proof -
  note c = Transaction_codec [OF example_kernels_codec, of False False 10 B_example, unfolded codec_def, THEN conjunct1, rule_format]
  let ?t = "\<lparr>tx_offset = mk_BlindingFactor (ValueOf 32 3), tx_body = example_body, tx_hash = new_BigInt 32\<rparr>"
  show ?thesis
    using appendsD [OF c, of ?t new_Serializer] BlindingFactor_wf_ValueOf
    by (simp add: Transaction_wf_def example_tx_def mk_Transaction_def Let_def example_body_wf new_Serializer_def)
qed

section \<open>Properties\<close>

lemma Serialized_codec: "codec ser des enc valid \<Longrightarrow> Serialized (ser x) = enc x"
  unfolding codec_def by (blast intro: Serialized_appends)

lemma codec_stream:
  assumes "codec ser' des enc valid" "codec ser des' enc valid'" "valid x" "length (Serialized (ser x) @ rest) < 2 ^ 63"
  shows "des (new_Deserializer (Serialized (ser x) @ rest)) = Inr (x, reader_at (Serialized (ser x)) rest)"
proof -
  have "decodes des x (enc x)" using assms(1,3) by (simp add: codec_def)
  then show ?thesis
    using decodesD [of des x "enc x" "[]" rest] assms(4) by (simp add: Serialized_codec [OF assms(2)] reader_at_Nil)
qed

lemma codec_never_undefined:
  assumes "codec ser des enc valid" "length bs < 2 ^ 63"
  shows "des (new_Deserializer bs) \<noteq> Inl UndefinedBehaviour"
  using codec.never_undefined [OF assms] .



text \<open>
  C24. The JSON form of an input or an output parses back to the same object exactly when its features
  are one of the two enumerators; an object with other features (which the wire format carries) prints the empty
  string, which parsing rejects. No transaction parses from JSON: its body has no parser.
\<close>

theorem tx_json_features:
  assumes "json_laws J" "Input_wf B i" "Output_wf B x"
  shows "Input_FromJSON B be J \<lparr>m_json = Input_ToJSON J i\<rparr> =
      (if in_features i \<le> 1 then Inr i else Inl (DeserializationException ''Failed to deserialize output feature: '')) \<and>
    Output_FromJSON B be J \<lparr>m_json = Output_ToJSON J x\<rparr> =
      (if out_features x \<le> 1 then Inr x else Inl (DeserializationException ''Failed to deserialize output feature: '')) \<and>
    Transaction_FromJSON B be J K \<lparr>m_json = Transaction_ToJSON J K t\<rparr> = Inl UndefinedBehaviour"
proof -
  have le1: "f \<le> 1 \<longleftrightarrow> f = 0 \<or> f = 1" for f :: u8
    using le_less [of f 1] by (simp only: word_less_1)
  have str: "OutputFeatures_FromString (OutputFeatures_ToString f) =
      (if f \<le> 1 then Inr f else Inl (DeserializationException ''Failed to deserialize output feature: ''))" for f
    unfolding le1 by (auto simp: OutputFeatures_FromString_def OutputFeatures_ToString_def DEFAULT_OUTPUT_def COINBASE_OUTPUT_def)
  note c = models_json [OF assms(1), THEN conjunct1]
  note p = models_json [OF assms(1), THEN conjunct2, THEN conjunct2, THEN conjunct1]
  have "Input_FromJSON B be J \<lparr>m_json = Input_ToJSON J i\<rparr> =
      (if in_features i \<le> 1 then Inr i else Inl (DeserializationException ''Failed to deserialize output feature: ''))"
    using assms(1,2) by (simp add: Input_FromJSON_def Input_ToJSON_def GetRequired_object json_laws_simps str to_json_def
        from_json_def c mk_Input_eq Input_wf_def)
  moreover have "Output_FromJSON B be J \<lparr>m_json = Output_ToJSON J x\<rparr> =
      (if out_features x \<le> 1 then Inr x else Inl (DeserializationException ''Failed to deserialize output feature: ''))"
    using assms(1,3) by (simp add: Output_FromJSON_def Output_ToJSON_def GetRequired_object json_laws_simps str to_json_def
        from_json_def c p mk_Output_eq Output_wf_def)
  moreover have "Transaction_FromJSON B be J K \<lparr>m_json = Transaction_ToJSON J K t\<rparr> = Inl UndefinedBehaviour"
    using assms(1) by (simp add: Transaction_FromJSON_def Transaction_ToJSON_def GetRequired_object json_laws_simps
        from_json_def TxBody_FromJSON_def)
  ultimately show ?thesis by blast
qed

theorem tx_json_features_witness:
  "Output_FromJSON B_example False json_ref \<lparr>m_json = Output_ToJSON json_ref example_output\<rparr> = Inr example_output"
proof -
  have "out_features example_output \<le> 1" by (simp add: example_output_def mk_Output_eq)
  then show ?thesis using tx_json_features [OF json_ref_laws example_wf(1,2), of False "example_kernels False" example_tx] by simp
qed

end
