(* ===== verification/MW_Consensus.thy ===== *)
theory MW_Consensus
  imports MW_Tx
begin

text \<open>
  The consensus checks of \<^verbatim>\<open>include/mw/core/consensus\<close> and \<open>TxBody::Validate\<close>, which runs them: the cut-through
  check over an ordered set of commitments, the batch check of the kernel signatures, the range proofs, and the
  computation of the kernel sums. The class \<open>BlockSums\<close> is not part of the repository and is a parameter.
\<close>

section \<open>Ordered sets\<close>

text \<open>
  \<^verbatim>\<open>std::set\<close> with the comparison \<open>cmp\<close> of its elements (which may fail): an ordered list; two elements
  are equivalent when neither is less than the other.
\<close>

fun set_insert :: "('a \<Rightarrow> 'a \<Rightarrow> bool result) \<Rightarrow> 'a \<Rightarrow> 'a list \<Rightarrow> 'a list result" where
  "set_insert cmp x [] = Inr [x]"
| "set_insert cmp x (y # ys) =
     rbind (cmp x y) (\<lambda>lt. if lt then Inr (x # y # ys)
       else rbind (cmp y x) (\<lambda>gt. if gt then rbind (set_insert cmp x ys) (\<lambda>zs. Inr (y # zs)) else Inr (y # ys)))"

fun set_find :: "('a \<Rightarrow> 'a \<Rightarrow> bool result) \<Rightarrow> 'a \<Rightarrow> 'a list \<Rightarrow> 'a option result" where
  "set_find cmp x [] = Inr None"
| "set_find cmp x (y # ys) =
     rbind (cmp y x) (\<lambda>lt. if lt then set_find cmp x ys
       else rbind (cmp x y) (\<lambda>gt. Inr (if gt then None else Some y)))"

text \<open>A comparison that is total on the elements with \<open>ok\<close> and orders them by a key that tells them apart.\<close>

definition key_order :: "('a \<Rightarrow> bool) \<Rightarrow> ('a \<Rightarrow> nat) \<Rightarrow> ('a \<Rightarrow> 'a \<Rightarrow> bool result) \<Rightarrow> bool" where
  "key_order ok key cmp \<longleftrightarrow> inj_on key (Collect ok) \<and> (\<forall>x y. ok x \<and> ok y \<longrightarrow> cmp x y = Inr (key x < key y))"

lemma set_insert_ok:
  assumes "key_order ok key cmp" "ok x" "list_all ok ys" "sorted_wrt (\<lambda>a b. key a < key b) ys"
  shows "\<exists>zs. set_insert cmp x ys = Inr zs \<and> set zs = insert x (set ys) \<and> list_all ok zs \<and>
    sorted_wrt (\<lambda>a b. key a < key b) zs"
  using assms(3,4)
proof (induction ys)
  case (Cons y ys)
  have l: "cmp x y = Inr (key x < key y)" "cmp y x = Inr (key y < key x)"
    using assms(1,2) Cons.prems(1) by (simp_all add: key_order_def)
  obtain zs where zs: "set_insert cmp x ys = Inr zs" "set zs = insert x (set ys)" "list_all ok zs"
      "sorted_wrt (\<lambda>a b. key a < key b) zs"
    using Cons by auto
  show ?case
  proof (cases "key x < key y")
    case True
    then show ?thesis using l Cons.prems assms(2) by auto
  next
    case False
    show ?thesis
    proof (cases "key y < key x")
      case True
      then show ?thesis using False l zs Cons.prems by auto
    next
      case eq: False
      then have "x = y" using False assms(1,2) Cons.prems(1) by (auto simp: key_order_def inj_on_def)
      then show ?thesis using False eq l Cons.prems by auto
    qed
  qed
qed (use assms(2) in auto)

lemma set_find_ok:
  assumes "key_order ok key cmp" "ok x" "list_all ok ys" "sorted_wrt (\<lambda>a b. key a < key b) ys"
  shows "set_find cmp x ys = Inr (if x \<in> set ys then Some x else None)"
  using assms(3,4)
proof (induction ys)
  case (Cons y ys)
  have l: "cmp x y = Inr (key x < key y)" "cmp y x = Inr (key y < key x)"
    using assms(1,2) Cons.prems(1) by (simp_all add: key_order_def)
  have i: "key x = key y \<Longrightarrow> x = y" using assms(1,2) Cons.prems(1) by (auto simp: key_order_def inj_on_def)
  show ?case
    using Cons l i by (auto simp: not_less_iff_gr_or_eq dest: less_not_sym)
qed simp

lemma set_insert_all:
  assumes "key_order ok key cmp" "list_all ok xs"
  shows "\<exists>zs. rfold (set_insert cmp) xs [] = Inr zs \<and> set zs = set xs \<and> list_all ok zs \<and>
    sorted_wrt (\<lambda>a b. key a < key b) zs"
proof -
  have "\<exists>zs. rfold (set_insert cmp) xs ys = Inr zs \<and> set zs = set xs \<union> set ys \<and> list_all ok zs \<and>
      sorted_wrt (\<lambda>a b. key a < key b) zs"
    if "list_all ok ys" "sorted_wrt (\<lambda>a b. key a < key b) ys" for ys
    using assms(2) that
  proof (induction xs arbitrary: ys)
    case (Cons x xs)
    obtain zs where "set_insert cmp x ys = Inr zs" "set zs = insert x (set ys)" "list_all ok zs"
        "sorted_wrt (\<lambda>a b. key a < key b) zs"
      using set_insert_ok [OF assms(1), of x ys] Cons.prems by auto
    then show ?case using Cons.IH [of zs] Cons.prems(1) by auto
  qed simp
  from this [of "[]"] show ?thesis by simp
qed

lemma Commitment_order:
  "key_order Commitment_wf (\<lambda>c. big_val (Commitment_enc c)) (Commitment_less False)"
proof -
  have "c = d" if "Commitment_wf c" "Commitment_wf d" "big_val (Commitment_enc c) = big_val (Commitment_enc d)" for c d
    using that big_val_inject [of "Commitment_enc c" "Commitment_enc d"] by (cases c; cases d) (auto simp: Commitment_wf_def)
  moreover have "Commitment_less False c d = Inr (big_val (Commitment_enc c) < big_val (Commitment_enc d))"
    if "Commitment_wf c" "Commitment_wf d" for c d
    using that BigInt_less_loop_drop [of "Commitment_enc c" 33 "Commitment_enc d" 0]
    by (simp add: Commitment_less_def Commitment_wf_def BigInt_less_def)
  ultimately show ?thesis unfolding key_order_def inj_on_def by blast
qed

section \<open>CutThroughVerifier\<close>

primrec any_of :: "('a \<Rightarrow> bool result) \<Rightarrow> 'a list \<Rightarrow> bool result" where
  "any_of p [] = Inr False"
| "any_of p (x # xs) = rbind (p x) (\<lambda>b. if b then Inr True else any_of p xs)"

definition VerifyCutThrough :: "Input list \<Rightarrow> Output list \<Rightarrow> unit result" where
  "VerifyCutThrough inputs outputs =
     rbind (rfold (set_insert (Commitment_less False)) (map out_commitment outputs) []) (\<lambda>commitments.
     rbind (any_of (\<lambda>input. rbind (set_find (Commitment_less False) (in_commitment input) commitments)
                              (\<lambda>r. Inr (r \<noteq> None))) inputs) (\<lambda>invalid.
       if invalid then Inl (ValidationException CUT_THROUGH) else Inr ()))"

section \<open>KernelSignatureValidator\<close>

definition VerifyKernelSignatures_kernels ::
  "('cm, 'pk, 'ss, 'gen) secp \<Rightarrow> ('j, 'z IKernel_scheme) kernel_class \<Rightarrow> 'z IKernel_scheme list \<Rightarrow> unit result" where
  "VerifyKernelSignatures_kernels S K kernels =
     (let commitments = map kn_excess kernels;
          signatures = map kn_signature kernels;
          messages = map (K_GetSignatureMessage K) kernels
      in rbind (VerifyKernelSignatures S signatures commitments messages) (\<lambda>ok.
           if \<not> ok then Inl (ValidationException KERNEL_SIG) else Inr ()))"

section \<open>TxBody::Validate\<close>

definition TxBody_Validate ::
  "('cm, 'pk, 'ss, 'gen) secp \<Rightarrow> 'gen option \<Rightarrow> ('j, 'z IKernel_scheme) kernel_class \<Rightarrow> 'z IKernel_scheme TxBody \<Rightarrow> unit result" where
  "TxBody_Validate S gens K b =
     rbind (VerifyCutThrough (m_inputs b) (m_outputs b)) (\<lambda>_.
     rbind (VerifyKernelSignatures_kernels S K (m_kernels b)) (\<lambda>_.
     let rangeProofs = map (\<lambda>output. (out_commitment output, out_proof output)) (m_outputs b) in
     rbind (VerifyRangeProofs S gens rangeProofs) (\<lambda>ok.
       if \<not> ok then Inl (ValidationException BULLETPROOF) else Inr ())))"

section \<open>KernelSumValidator\<close>

record 'bs block_sums =
  bs_make :: "Commitment \<Rightarrow> Commitment \<Rightarrow> 'bs"
  bs_GetOutputSum :: "'bs \<Rightarrow> Commitment"
  bs_GetKernelSum :: "'bs \<Rightarrow> Commitment"

definition AddKernelOffset :: "('cm, 'pk, 'ss, 'gen) secp \<Rightarrow> Commitment \<Rightarrow> BlindingFactor \<Rightarrow> Commitment result" where
  "AddKernelOffset S kernelSum totalKernelOffset =
     rbind (if BigInt_neq False (bf_value totalKernelOffset) (ValueOf 32 0)
            then rbind (CommitBlinded S 0 totalKernelOffset) (\<lambda>c. Inr [kernelSum, c])
            else Inr [kernelSum]) (\<lambda>commitments.
       AddCommitments S commitments [])"

text \<open>\<^verbatim>\<open>overage\<close> is a signed 64-bit number; negating the least one overflows.\<close>

definition ValidateKernelSums ::
  "('cm, 'pk, 'ss, 'gen) secp \<Rightarrow> 'bs block_sums \<Rightarrow> Commitment list \<Rightarrow> Commitment list \<Rightarrow> Commitment list \<Rightarrow>
     int \<Rightarrow> BlindingFactor \<Rightarrow> 'bs option \<Rightarrow> 'bs result" where
  "ValidateKernelSums S BS inputs outputs kernels overage kernelOffset blockSumsOpt =
     rbind (if overage > 0 then rbind (CommitTransparent S (of_int overage)) (\<lambda>c. Inr (inputs, outputs @ [c]))
            else if overage < 0 then
              (if overage = - (2 ^ 63) then Inl UndefinedBehaviour
               else rbind (CommitTransparent S (of_int (0 - overage))) (\<lambda>c. Inr (inputs @ [c], outputs)))
            else Inr (inputs, outputs)) (\<lambda>(inputCommitments, outputCommitments).
     let outputCommitments =
           (case blockSumsOpt of Some bs \<Rightarrow> outputCommitments @ [bs_GetOutputSum BS bs] | None \<Rightarrow> outputCommitments);
         kernelCommitments =
           (case blockSumsOpt of Some bs \<Rightarrow> kernels @ [bs_GetKernelSum BS bs] | None \<Rightarrow> kernels)
     in rbind (AddCommitments S outputCommitments inputCommitments) (\<lambda>utxoSum.
        rbind (AddCommitments S kernelCommitments []) (\<lambda>kernelSum.
        rbind (AddKernelOffset S kernelSum kernelOffset) (\<lambda>kernelSumPlusOffset.
          Inr (bs_make BS utxoSum kernelSum)))))"

section \<open>What the checks establish\<close>

lemma any_of_ok: "(\<And>x. x \<in> set xs \<Longrightarrow> p x = Inr (q x)) \<Longrightarrow> any_of p xs = Inr (\<exists>x\<in>set xs. q x)"
  by (induction xs) auto

lemma VerifyCutThrough_ok:
  assumes "\<forall>i\<in>set inputs. Commitment_wf (in_commitment i)" "\<forall>x\<in>set outputs. Commitment_wf (out_commitment x)"
  shows "VerifyCutThrough inputs outputs =
    (if in_commitment ` set inputs \<inter> out_commitment ` set outputs = {} then Inr () else Inl (ValidationException CUT_THROUGH))"
proof -
  obtain zs where zs: "rfold (set_insert (Commitment_less False)) (map out_commitment outputs) [] = Inr zs"
      "set zs = set (map out_commitment outputs)" "list_all Commitment_wf zs"
      "sorted_wrt (\<lambda>a b. big_val (Commitment_enc a) < big_val (Commitment_enc b)) zs"
    using set_insert_all [OF Commitment_order, of "map out_commitment outputs"] assms(2) by (auto simp: list_all_iff)
  have "any_of (\<lambda>input. rbind (set_find (Commitment_less False) (in_commitment input) zs) (\<lambda>r. Inr (r \<noteq> None))) inputs =
      Inr (\<exists>i\<in>set inputs. in_commitment i \<in> set zs)"
    using assms(1) by (intro any_of_ok) (simp add: set_find_ok [OF Commitment_order _ zs(3,4)])
  then show ?thesis using zs(1,2) by (auto simp: VerifyCutThrough_def)
qed


section \<open>Soundness of the batch checks\<close>

text \<open>\<open>vsig s m p\<close>: the library accepts the signature \<open>s\<close> of the message \<open>m\<close> under the public key \<open>p\<close>.\<close>

definition sig_batch_sound :: "('cm, 'pk, 'ss, 'gen) secp \<Rightarrow> ('ss \<Rightarrow> bytes \<Rightarrow> 'pk \<Rightarrow> bool) \<Rightarrow> bool" where
  "sig_batch_sound S vsig \<longleftrightarrow> (\<forall>ss ms ps. length ms = length ss \<and> length ps = length ss \<and>
     secp_schnorrsig_verify_batch S ss ms ps \<longrightarrow> (\<forall>i<length ss. vsig (ss ! i) (ms ! i) (ps ! i)))"

definition kernel_signed ::
  "('cm, 'pk, 'ss, 'gen) secp \<Rightarrow> ('ss \<Rightarrow> bytes \<Rightarrow> 'pk \<Rightarrow> bool) \<Rightarrow> ('j, 'z IKernel_scheme) kernel_class \<Rightarrow> 'z IKernel_scheme \<Rightarrow> bool" where
  "kernel_signed S vsig K k \<longleftrightarrow> (\<exists>key pk s m. ToPublicKey_commitment S (kn_excess k) = Inr key \<and> ToSecp256k1_pubkey S key = Inr pk \<and>
     ToSecp256k1_schnorr S (kn_signature k) = Inr s \<and> read_ptr 32 (big_bytes (K_GetSignatureMessage K k)) = Inr m \<and> vsig s m pk)"

lemma rmapM_map_nth:
  assumes "rmapM f (map g xs) = Inr ys"
  shows "length ys = length xs" "\<And>i. i < length xs \<Longrightarrow> f (g (xs ! i)) = Inr (ys ! i)"
  using assms by (auto simp: rmapM_Inr_iff list_all2_conv_all_nth)

lemma VerifyKernelSignatures_sound:
  assumes "sig_batch_sound S vsig" "VerifyKernelSignatures_kernels S K kernels = Inr ()"
  shows "\<forall>k\<in>set kernels. kernel_signed S vsig K k"
proof -
  let ?pk = "\<lambda>c. rbind (ToPublicKey_commitment S c) (\<lambda>publicKey. ToSecp256k1_pubkey S publicKey)"
  have ok: "AggSig_VerifyAggregateSignatures S (map kn_signature kernels) (map kn_excess kernels)
      (map (K_GetSignatureMessage K) kernels) = Inr True"
    using assms(2) by (auto simp: VerifyKernelSignatures_kernels_def VerifyKernelSignatures_def Let_def split: if_splits)
  obtain ps ss ms where r: "rmapM ?pk (map kn_excess kernels) = Inr ps"
      "ToSecp256k1_schnorrs S (map kn_signature kernels) = Inr ss"
      "rmapM (\<lambda>m. read_ptr 32 (big_bytes m)) (map (K_GetSignatureMessage K) kernels) = Inr ms"
      "secp_schnorrsig_verify_batch S ss ms (take (length kernels) ps)"
    using ok by (auto simp: AggSig_VerifyAggregateSignatures_def Let_def split: if_splits)
  note p = rmapM_map_nth [OF r(1)] and s = rmapM_map_nth [OF r(2) [unfolded ToSecp256k1_schnorrs_def]] and m = rmapM_map_nth [OF r(3)]
  have v: "\<forall>i<length ss. vsig (ss ! i) (ms ! i) (ps ! i)"
    using assms(1) r(4) p(1) s(1) m(1) unfolding sig_batch_sound_def by fastforce
  show ?thesis
  proof
    fix k assume "k \<in> set kernels"
    then obtain i where i: "i < length kernels" "k = kernels ! i" by (metis in_set_conv_nth)
    then show "kernel_signed S vsig K k"
      using p(2) [OF i(1)] s(2) [OF i(1)] m(2) [OF i(1)] v s(1) by (auto simp: kernel_signed_def)
  qed
qed

text \<open>A fresh cache skips nothing.\<close>

lemma VerifyBulletproofs_loop_fresh:
  assumes "cache_items_map cache = []" "rfold (VerifyBulletproofs_step S) rps (cache, cs, xs, ps) = Inr (cache', cs', xs', ps')"
  shows "\<exists>ys. rmapM (ToSecp256k1_commitment S) (map fst rps) = Inr ys \<and> cs' = cs @ map fst rps \<and> xs' = xs @ ys \<and>
    ps' = ps @ map (\<lambda>rp. proof_bytes (snd rp)) rps"
  using assms(2)
proof (induction rps arbitrary: cs xs ps)
  case (Cons rp rps)
  obtain C p where rp: "rp = (C, p)" by (cases rp)
  have w: "WasAlreadyVerified C cache = Inr (False, cache)" using assms(1) by (simp add: WasAlreadyVerified_def LRU_Cached_def)
  have st: "VerifyBulletproofs_step S rp (cache, cs, xs, ps) = rbind (ToSecp256k1_commitment S C)
      (\<lambda>x. Inr (cache, cs @ [C], xs @ [x], ps @ [proof_bytes p]))"
    by (simp add: VerifyBulletproofs_step_def rp w)
  obtain x where x: "ToSecp256k1_commitment S C = Inr x"
      "rfold (VerifyBulletproofs_step S) rps (cache, cs @ [C], xs @ [x], ps @ [proof_bytes p]) = Inr (cache', cs', xs', ps')"
    using Cons.prems st by auto
  show ?case using Cons.IH [OF x(2)] x(1) rp by auto
qed simp

lemma VerifyRangeProofs_sound:
  assumes "batch_sound S valid" "VerifyRangeProofs S gens rps = Inr True"
  shows "\<forall>(C, p)\<in>set rps. verified S valid C"
proof -
  obtain front rest where rps: "rps = front # rest"
    using assms(2) by (cases rps) (simp_all add: VerifyRangeProofs_def VerifyBulletproofs_def)
  have fresh: "cache_items_map (m_cache (new_Bulletproofs gens)) = []"
    by (simp add: new_Bulletproofs_def new_BulletProofsCache_def new_LRUCache_def)
  obtain cache cs xs ps where L: "rfold (VerifyBulletproofs_step S) rps (m_cache (new_Bulletproofs gens), [], [], []) = Inr (cache, cs, xs, ps)"
    using assms(2) by (auto simp: VerifyRangeProofs_def VerifyBulletproofs_def rps Let_def split: prod.splits)
  obtain ys where ys: "rmapM (ToSecp256k1_commitment S) (map fst rps) = Inr ys" "cs = map fst rps" "xs = ys"
      "ps = map (\<lambda>rp. proof_bytes (snd rp)) rps"
    using VerifyBulletproofs_loop_fresh [OF fresh L] by auto
  obtain g qs where v: "rmapM (read_ptr (length (proof_bytes (snd front)))) ps = Inr qs" "secp_bulletproof_verify_multi S g qs xs"
    using assms(2) L ys(2) by (auto simp: VerifyRangeProofs_def VerifyBulletproofs_def rps Let_def split: prod.splits if_splits)
  have "length qs = length xs"
    using v(1) ys by (auto simp: rmapM_Inr_iff dest!: list_all2_lengthD)
  then have "list_all2 valid xs qs" using assms(1) v(2) by (simp add: batch_sound_def)
  then show ?thesis
    using ys(1,3) by (fastforce simp: verified_def rmapM_Inr_iff list_all2_conv_all_nth in_set_conv_nth)
qed

text \<open>
  C11. What acceptance means: if \<open>TxBody::Validate\<close> returns normally, no input spends an output of the same body,
  every kernel carries a signature of its message that is valid under its excess as public key, and every output
  commitment has an accepted range proof (given that the two batch checks of the library are sound).
\<close>

theorem TxBody_Validate_sound:
  assumes "sig_batch_sound S vsig" "batch_sound S valid"
    and "\<forall>i\<in>set (m_inputs b). Commitment_wf (in_commitment i)" "\<forall>x\<in>set (m_outputs b). Commitment_wf (out_commitment x)"
    and "TxBody_Validate S gens K b = Inr ()"
  shows "in_commitment ` set (m_inputs b) \<inter> out_commitment ` set (m_outputs b) = {} \<and>
    (\<forall>k\<in>set (m_kernels b). kernel_signed S vsig K k) \<and> (\<forall>x\<in>set (m_outputs b). verified S valid (out_commitment x))"
proof -
  have 1: "VerifyCutThrough (m_inputs b) (m_outputs b) = Inr ()" "VerifyKernelSignatures_kernels S K (m_kernels b) = Inr ()"
    "VerifyRangeProofs S gens (map (\<lambda>x. (out_commitment x, out_proof x)) (m_outputs b)) = Inr True"
    using assms(5) by (auto simp: TxBody_Validate_def Let_def split: if_splits)
  show ?thesis
    using VerifyCutThrough_ok [OF assms(3,4)] 1(1) VerifyKernelSignatures_sound [OF assms(1) 1(2)]
      VerifyRangeProofs_sound [OF assms(2) 1(3)] by (fastforce split: if_splits)
qed

lemma example_signatures:
  "VerifyKernelSignatures toy_secp (map kn_signature (m_kernels example_body)) (map kn_excess (m_kernels example_body))
     (map (K_GetSignatureMessage (example_kernels False)) (m_kernels example_body)) = Inr True"
proof -
  have pk: "rbind (ToPublicKey_commitment toy_secp (example_commitment 12)) (ToSecp256k1_pubkey toy_secp) = Inr 12"
    unfolding ToPublicKey_commitment_def ToSecp256k1_commitment_def ToPublicKey_pubkey_def ToSecp256k1_pubkey_def
    by (simp add: example_commitment_def mk_Commitment_def mk_BigInt_def toy_secp_def mk_PublicKey_def rbind_def)
  have s: "ToSecp256k1_schnorr toy_secp (mk_Signature (mk_BigInt (replicate 64 12))) = Inr (replicate 64 12)"
    by (simp add: ToSecp256k1_schnorr_def mk_Signature_def mk_BigInt_def toy_secp_def)
  have m: "read_ptr 32 (big_bytes (K_GetSignatureMessage (example_kernels False) example_kernel)) = Inr (replicate 32 7)"
    by (simp add: example_kernels_def example_kernel_def mk_IKernel_def mk_BigInt_def)
  have f: "kn_excess example_kernel = example_commitment 12" "kn_signature example_kernel = mk_Signature (mk_BigInt (replicate 64 12))"
    by (simp_all add: example_kernel_def mk_IKernel_def)
  have v: "secp_schnorrsig_verify_batch toy_secp [replicate 64 12] [replicate 32 7] [12]" by (simp add: toy_secp_def)
  have k: "m_kernels example_body = [example_kernel]" by (simp add: example_body_def)
  show ?thesis
    unfolding k list.map VerifyKernelSignatures_def AggSig_VerifyAggregateSignatures_def rmapM.simps ToSecp256k1_schnorrs_def f pk s
      rbind_simps Let_def
    by (simp only: list.size One_nat_def add_0 less_irrefl if_False de_Morgan_disj simp_thms take_Suc_Cons take_0 rmapM.simps m rbind_simps v)
qed

lemma example_proofs:
  "VerifyRangeProofs toy_secp (Some ()) (map (\<lambda>x. (out_commitment x, out_proof x)) (m_outputs example_body)) = Inr True"
proof -
  have "ToSecp256k1_commitment toy_secp (example_commitment 17) = Inr 17"
    by (simp add: ToSecp256k1_commitment_def example_commitment_def mk_Commitment_def mk_BigInt_def toy_secp_def)
  moreover have "secp_bulletproof_verify_multi toy_secp () [[17]] [17]" by (simp add: toy_secp_def)
  ultimately show ?thesis
    by (simp add: VerifyRangeProofs_def VerifyBulletproofs_def example_body_def example_output_def mk_Output_eq mk_RangeProof_def
        VerifyBulletproofs_step_def WasAlreadyVerified_def LRU_Cached_def new_Bulletproofs_def new_BulletProofsCache_def
        new_LRUCache_def AddToCache_def LRU_Put_def LRU_Insert_def)
qed

lemma example_commitments_wf:
  "\<forall>i\<in>set (m_inputs example_body). Commitment_wf (in_commitment i)"
  "\<forall>x\<in>set (m_outputs example_body). Commitment_wf (out_commitment x)"
  using example_wf by (simp_all add: example_body_def Input_wf_def Output_wf_def)

lemma example_disjoint: "in_commitment ` set (m_inputs example_body) \<inter> out_commitment ` set (m_outputs example_body) = {}"
  by (simp add: example_body_def example_input_def example_output_def mk_Input_eq mk_Output_eq example_commitment_def
      mk_Commitment_def mk_BigInt_def)

lemma example_accepted: "TxBody_Validate toy_secp (Some ()) (example_kernels False) example_body = Inr ()"
  using VerifyCutThrough_ok [OF example_commitments_wf] example_disjoint example_signatures example_proofs
  by (simp add: TxBody_Validate_def VerifyKernelSignatures_kernels_def Let_def)


theorem TxBody_Validate_sound_witness:
  "kernel_signed toy_secp (\<lambda>s m p. s ! 0 = p) (example_kernels False) example_kernel \<and>
   verified toy_secp (\<lambda>x p. p = [x]) (out_commitment example_output)"
proof -
  have s: "sig_batch_sound toy_secp (\<lambda>s m p. s ! 0 = p)" by (simp add: sig_batch_sound_def toy_secp_def)
  have v: "batch_sound toy_secp (\<lambda>x p. p = [x])" by (auto simp: batch_sound_def toy_secp_def list_all2_conv_all_nth)
  show ?thesis
    using TxBody_Validate_sound [OF s v example_commitments_wf example_accepted] by (simp add: example_body_def)
qed

section \<open>Kernel sums\<close>

lemma com_zero: "pedersen_laws S pt com \<Longrightarrow> com 0 0 = 0"
  using com_diff [of S pt com 0 0 0 0] by simp

lemma CommitTransparent_stands:
  assumes "pedersen_laws S pt com" "CommitTransparent S v = Inr C"
  shows "stands_for S pt C (com (uint v) 0)"
  using CommitBlinded_stands [OF assms(1) BlindingFactor_wf_ValueOf [of 0], of v C] assms(2)
  by (simp add: CommitTransparent_def CommitBlinded_def bf_int_ValueOf)

lemma offset_zero_iff:
  assumes "BlindingFactor_wf off"
  shows "BigInt_neq False (bf_value off) (ValueOf 32 0) \<longleftrightarrow> bf_int off \<noteq> 0"
proof -
  let ?z = "mk_BlindingFactor (ValueOf 32 0)"
  have z: "bf_int ?z = 0" "length (big_bytes (ValueOf 32 0)) = 32"
    using bf_int_ValueOf [of 0] BlindingFactor_wf_ValueOf [of 0] by (simp_all add: BlindingFactor_wf_def mk_BlindingFactor_def)
  have "bf_int off = 0 \<longleftrightarrow> big_val (big_bytes (bf_value off)) = big_val (big_bytes (ValueOf 32 0))"
    using z(1) by (simp add: bf_int_def mk_BlindingFactor_def)
  also have "\<dots> \<longleftrightarrow> big_bytes (bf_value off) = big_bytes (ValueOf 32 0)"
    using assms z(2) by (intro big_val_inject) (simp add: BlindingFactor_wf_def)
  finally show ?thesis by (simp add: BigInt_neq_def BigInt_eq_def)
qed

lemma AddKernelOffset_ok:
  assumes "pedersen_laws S pt com" "stands_for S pt C k" "BlindingFactor_wf off" "bf_int off \<noteq> 0 \<Longrightarrow> \<exists>D. CommitBlinded S 0 off = Inr D"
    and "k \<noteq> 0" "k + com 0 (bf_int off) \<noteq> 0"
  shows "\<exists>D. AddKernelOffset S C off = Inr D"
proof (cases "bf_int off = 0")
  case True
  then show ?thesis
    using AddCommitments_stands [OF assms(1), of "[C]" "[k]" "[]" "[]"] assms(2,5) offset_zero_iff [OF assms(3)]
    by (auto simp: AddKernelOffset_def)
next
  case False
  obtain D where D: "CommitBlinded S 0 off = Inr D" using assms(4) False by blast
  have "stands_for S pt D (com 0 (bf_int off))" using CommitBlinded_stands [OF assms(1,3) D] by simp
  then show ?thesis
    using AddCommitments_stands [OF assms(1), of "[C, D]" "[k, com 0 (bf_int off)]" "[]" "[]"] assms(2,6) False D
      offset_zero_iff [OF assms(3)]
    by (auto simp: AddKernelOffset_def)
qed


lemma example_stands:
  assumes "n \<noteq> 0"
  shows "stands_for toy_secp id (example_commitment n) n"
proof -
  have u: "ucast (ucast n :: u64) = n" by (rule bit_word_eqI) (simp add: bit_simps)
  show ?thesis
  using CommitBlinded_stands [OF toy_laws BlindingFactor_wf_ValueOf [of 0], of "ucast n" "example_commitment n"]
    toy_committed [of "ucast n" 0 n] assms u
  by (simp add: committed_def example_commitment_def bf_int_ValueOf toy_com_def)
qed


end
