(* ===== verification/MW_Siphash.thy ===== *)
theory MW_Siphash
  imports MW_Prelude
begin

text \<open>
  SipHash-c-d as deps/crypto/include/crypto/siphash.h computes it, and \<^verbatim>\<open>Crypto::SipHash24\<close>. The
  program reads the message eight bytes at a time through a cast pointer and treats the last, partial
  block in a switch whose cases fall through; the reference definition pads the message and splits it into
  little-endian words. On a little-endian host the two agree.
\<close>

section \<open>The program\<close>

definition SIPHASH_BIT_ROTL :: "u64 \<Rightarrow> nat \<Rightarrow> u64" where
  "SIPHASH_BIT_ROTL b n = push_bit n b OR drop_bit (64 - n) b"

type_synonym sipstate = "u64 \<times> u64 \<times> u64 \<times> u64"

definition SIPHASH_ROUND :: "sipstate \<Rightarrow> sipstate" where
  "SIPHASH_ROUND = (\<lambda>(s0, s1, s2, s3).
     let s0 = s0 + s1;
         s2 = s2 + s3;
         s1 = SIPHASH_BIT_ROTL s1 13;
         s3 = SIPHASH_BIT_ROTL s3 16;
         s1 = s1 XOR s0;
         s3 = s3 XOR s2;
         s0 = SIPHASH_BIT_ROTL s0 32;
         s2 = s2 + s1;
         s0 = s0 + s3;
         s1 = SIPHASH_BIT_ROTL s1 17;
         s3 = SIPHASH_BIT_ROTL s3 21;
         s1 = s1 XOR s2;
         s3 = s3 XOR s0;
         s2 = SIPHASH_BIT_ROTL s2 32
     in (s0, s1, s2, s3))"

text \<open>One block \<open>mi\<close>: into \<open>v3\<close>, \<open>r\<close> rounds, into \<open>v0\<close>.\<close>

definition siphash_block :: "nat \<Rightarrow> u64 \<Rightarrow> sipstate \<Rightarrow> sipstate" where
  "siphash_block r mi = (\<lambda>(v0, v1, v2, v3).
     case (SIPHASH_ROUND ^^ r) (v0, v1, v2, v3 XOR mi) of (v0, v1, v2, v3) \<Rightarrow> (v0 XOR mi, v1, v2, v3))"

definition siphash_init :: "u64 \<Rightarrow> u64 \<Rightarrow> sipstate" where
  "siphash_init k0 k1 = (k0 XOR 0x736f6d6570736575, k1 XOR 0x646f72616e646f6d,
     k0 XOR 0x6c7967656e657261, k1 XOR 0x7465646279746573)"

text \<open>
  The switch on the number \<open>n\<close> of bytes left: entered at case \<open>n\<close>, it falls through the cases down to 1; the
  case \<open>k + 1\<close> adds the byte at \<open>k\<close>.
\<close>

primrec siphash_tail :: "bytes \<Rightarrow> nat \<Rightarrow> u64 \<Rightarrow> u64" where
  "siphash_tail ptr 0 mi = mi"
| "siphash_tail ptr (Suc k) mi = siphash_tail ptr k (mi OR push_bit (8 * k) (ucast (ptr ! k)))"

definition siphash_final :: "nat \<Rightarrow> sipstate \<Rightarrow> u64" where
  "siphash_final r = (\<lambda>(v0, v1, v2, v3).
     case (SIPHASH_ROUND ^^ r) (v0, v1, v2 XOR 0xff, v3) of (v0, v1, v2, v3) \<Rightarrow> v0 XOR v1 XOR v2 XOR v3)"

definition siphash :: "bool \<Rightarrow> nat \<Rightarrow> nat \<Rightarrow> u64 \<Rightarrow> u64 \<Rightarrow> bytes \<Rightarrow> u64" where
  "siphash be rblk rfin k0 k1 src =
     (let n = length src div 8;
          v = fold (\<lambda>i. siphash_block rblk (of_mem be (take 8 (drop (8 * i) src)))) [0..<n] (siphash_init k0 k1);
          mi = siphash_tail (drop (8 * n) src) (length src - 8 * n) (push_bit 56 (of_nat (length src)));
          v = siphash_block rblk mi v
      in siphash_final rfin v)"

definition Crypto_SipHash24 :: "bool \<Rightarrow> u64 \<Rightarrow> u64 \<Rightarrow> bytes \<Rightarrow> u64" where
  "Crypto_SipHash24 be k0 k1 data = siphash be 2 4 k0 k1 data"

section \<open>The reference\<close>

text \<open>The message, zero bytes up to one byte before a multiple of eight, and the length as the last byte.\<close>

definition sip_pad :: "bytes \<Rightarrow> bytes" where
  "sip_pad m = m @ replicate (7 - length m mod 8) 0 @ [of_nat (length m)]"

fun words_of :: "bytes \<Rightarrow> u64 list" where
  "words_of [] = []"
| "words_of (b # bs) = of_le_bytes (take 8 (b # bs)) # words_of (drop 8 (b # bs))"

definition siphash_spec :: "nat \<Rightarrow> nat \<Rightarrow> u64 \<Rightarrow> u64 \<Rightarrow> bytes \<Rightarrow> u64" where
  "siphash_spec c d k0 k1 m = siphash_final d (fold (siphash_block c) (words_of (sip_pad m)) (siphash_init k0 k1))"

section \<open>Equivalence\<close>

lemma words_of_append: "8 dvd length xs \<Longrightarrow> words_of (xs @ ys) = words_of xs @ words_of ys"
proof (induction xs rule: words_of.induct)
  case (2 b bs)
  then have "8 \<le> length (b # bs)" by (auto dest: dvd_imp_le)
  then have t: "take 8 ((b # bs) @ ys) = take 8 (b # bs)" "drop 8 ((b # bs) @ ys) = drop 8 (b # bs) @ ys" by auto
  have d: "8 dvd length (drop 8 (b # bs))" using 2(2) by (metis dvd_diff_nat dvd_refl length_drop)
  have "words_of ((b # bs) @ ys) = of_le_bytes (take 8 ((b # bs) @ ys)) # words_of (drop 8 ((b # bs) @ ys))"
    by (simp only: append_Cons words_of.simps)
  then show ?case unfolding t using 2(1) [OF d] by simp
qed simp

lemma words_of_single: "length w = 8 \<Longrightarrow> words_of w = [of_le_bytes w]"
  by (cases w) auto

lemma words_of_blocks:
  "words_of (take (8 * n) m) = map (\<lambda>i. of_le_bytes (take 8 (drop (8 * i) m))) [0..<n]" if "8 * n \<le> length m"
  using that
proof (induction n)
  case (Suc n)
  let ?w = "take 8 (drop (8 * n) m)"
  have l: "length ?w = 8" "8 dvd length (take (8 * n) m)" using Suc.prems by auto
  have "take (8 * Suc n) m = take (8 * n) m @ ?w" by (simp add: take_add [symmetric] add.commute)
  moreover have "words_of ?w = [of_le_bytes ?w]"
    by (rule words_of_single [OF l(1)])
  ultimately show ?case using Suc l(2) by (simp add: words_of_append)
qed simp

lemma bit_push_byte:
  "bit (push_bit (8 * k) (ucast (b :: u8)) :: u64) i \<longleftrightarrow> i < 64 \<and> i div 8 = k \<and> bit b (i mod 8)"
proof (cases "8 * k \<le> i \<and> i - 8 * k < 8")
  case True
  then have k: "i div 8 = k" by (intro div_nat_eqI) auto
  then have "i - 8 * k = i mod 8" by (metis minus_mult_div_eq_mod)
  then show ?thesis using True k by (auto simp: bit_push_bit_iff bit_ucast_iff)
next
  case False
  then have "i div 8 \<noteq> k" by (auto simp: minus_mult_div_eq_mod)
  moreover have "\<not> bit b (i - 8 * k)" if "8 * k \<le> i"
    using False that bit_imp_le_length [of b "i - 8 * k"] by auto
  ultimately show ?thesis by (auto simp: bit_push_bit_iff bit_ucast_iff)
qed

lemma bit_siphash_tail:
  "bit (siphash_tail r n mi) i \<longleftrightarrow> bit mi i \<or> (i < 64 \<and> i div 8 < n \<and> bit (r ! (i div 8)) (i mod 8))"
  by (induction n arbitrary: mi) (auto simp: bit_or_iff bit_push_byte less_Suc_eq)

lemma siphash_tail_word:
  assumes "length r < 8"
  shows "siphash_tail r (length r) (push_bit 56 (ucast L)) =
    (of_le_bytes (r @ replicate (7 - length r) 0 @ [L]) :: u64)"
proof (rule bit_word_eqI)
  fix i assume "i < LENGTH(64)"
  then have i: "i < 64" by simp
  let ?bs = "r @ replicate (7 - length r) 0 @ [L]"
  have d: "i div 8 < 8" using i by simp
  have last: "bit (push_bit 56 (ucast L) :: u64) i \<longleftrightarrow> i div 8 = 7 \<and> bit L (i mod 8)"
    using bit_push_byte [of 7 L i] i by simp
  have "?bs ! (i div 8) = (if i div 8 < length r then r ! (i div 8) else if i div 8 = 7 then L else 0)"
    using assms d by (auto simp: nth_append)
  then show "bit (siphash_tail r (length r) (push_bit 56 (ucast L))) i = bit (of_le_bytes ?bs :: u64) i"
    using i assms d last by (auto simp: bit_siphash_tail bit_of_le_bytes)
qed

lemma push_56_length: "push_bit 56 (of_nat n :: u64) = push_bit 56 (ucast (of_nat n :: u8))"
proof (rule bit_word_eqI)
  fix i assume "i < LENGTH(64)"
  then show "bit (push_bit 56 (of_nat n :: u64)) i = bit (push_bit 56 (ucast (of_nat n :: u8)) :: u64) i"
    by (auto simp: bit_push_bit_iff bit_ucast_iff bit_of_nat_iff)
qed

lemma words_of_pad:
  assumes "n = length m div 8"
  shows "words_of (sip_pad m) = map (\<lambda>i. of_le_bytes (take 8 (drop (8 * i) m))) [0..<n] @
    [siphash_tail (drop (8 * n) m) (length m - 8 * n) (push_bit 56 (of_nat (length m)))]"
proof -
  let ?r = "drop (8 * n) m" and ?L = "of_nat (length m) :: u8"
  let ?last = "?r @ replicate (7 - length ?r) 0 @ [?L]"
  have n: "8 * n \<le> length m" "length ?r = length m mod 8"
    using assms by (simp_all add: minus_mult_div_eq_mod)
  then have r: "length ?r < 8" by simp
  have pad: "sip_pad m = take (8 * n) m @ ?last"
    unfolding sip_pad_def n(2) by (metis append_assoc append_take_drop_id)
  have "8 dvd length (take (8 * n) m)" using n(1) by simp
  then have "words_of (sip_pad m) = words_of (take (8 * n) m) @ words_of ?last"
    unfolding pad by (rule words_of_append)
  also have "words_of ?last = [of_le_bytes ?last]"
    by (rule words_of_single) (use r in simp)
  also have "of_le_bytes ?last = siphash_tail ?r (length m - 8 * n) (push_bit 56 (of_nat (length m)))"
    unfolding push_56_length using siphash_tail_word [OF r, of ?L] by simp
  finally show ?thesis using words_of_blocks [OF n(1)] by simp
qed


end
