(* ===== verification/MW_Blocks.thy ===== *)
theory MW_Blocks
  imports MW_Tx MW_Siphash
begin

text \<open>
  The block models under models/block: ShortId, IHeader, IBlock and CompactBlock. IHeader and IBlock
  are abstract; what their subclasses and the factories of Context add (how a header is serialized and
  read) is the record \<open>header_class\<close>, a parameter like the kernel class of MW_Tx. The hash of a header is
  computed once and cached. Compact blocks satisfy the codec contract whenever headers and kernels do,
  and a short id is six bytes of SipHash24 under a key taken from the hash of block hash and nonce.
\<close>

section \<open>ShortId\<close>

record ShortId =
  si_id :: BigInt

definition ShortId_Create :: "(bytes \<Rightarrow> Hash) \<Rightarrow> bool \<Rightarrow> Hash \<Rightarrow> Hash \<Rightarrow> u64 \<Rightarrow> ShortId result" where
  "ShortId_Create B be h blockHash nonce =
     (let serializer = Append be nonce (BigInt_Serialize blockHash new_Serializer);
          hashWithNonce = B (m_serialized serializer)
      in rbind (dbind (ReadLE be) (\<lambda>k0 :: u64. dbind (ReadLE be) (\<lambda>k1 :: u64. dreturn (k0, k1)))
             (new_Deserializer (big_bytes hashWithNonce)))
         (\<lambda>((k0, k1), _).
           let sipHash = Crypto_SipHash24 be k0 k1 (big_bytes h);
               serializer2 = AppendLE be sipHash new_Serializer
           in Inr \<lparr>si_id = mk_BigInt (take 6 (m_serialized serializer2))\<rparr>))"

definition ShortId_Serialize :: "ShortId \<Rightarrow> Serializer \<Rightarrow> Serializer" where
  "ShortId_Serialize i = BigInt_Serialize (si_id i)"

definition ShortId_Deserialize :: "ShortId reader" where
  "ShortId_Deserialize = dbind (BigInt_Deserialize 6) (\<lambda>v. dreturn \<lparr>si_id = v\<rparr>)"

definition ShortId_GetHash :: "(bytes \<Rightarrow> Hash) \<Rightarrow> ShortId \<Rightarrow> Hash" where
  "ShortId_GetHash B i = B (big_bytes (si_id i))"

definition ShortId_less :: "(bytes \<Rightarrow> Hash) \<Rightarrow> ShortId \<Rightarrow> ShortId \<Rightarrow> bool result" where
  "ShortId_less B a b = BigInt_less 32 False (ShortId_GetHash B a) (ShortId_GetHash B b)"

section \<open>IHeader\<close>

record IHeader =
  hd_hash :: "Hash option"
  hd_height :: u64
  hd_outputRoot :: Hash
  hd_rangeProofRoot :: Hash
  hd_kernelRoot :: Hash
  hd_offset :: BlindingFactor
  hd_outputMMRSize :: u64
  hd_kernelMMRSize :: u64

record ('j, 'h) header_class =
  H_Serialize :: "'h \<Rightarrow> Serializer \<Rightarrow> Serializer"
  H_ToJSON :: "'h \<Rightarrow> 'j"
  H_Deserialize :: "'h reader"
  H_FromJSON :: "'j Json \<Rightarrow> 'h result"

definition mk_IHeader ::
  "u64 \<Rightarrow> Hash \<Rightarrow> Hash \<Rightarrow> Hash \<Rightarrow> BlindingFactor \<Rightarrow> u64 \<Rightarrow> u64 \<Rightarrow> IHeader" where
  "mk_IHeader height outputRoot rangeProofRoot kernelRoot offset outputMMRSize kernelMMRSize =
     \<lparr>hd_hash = None, hd_height = height, hd_outputRoot = outputRoot, hd_rangeProofRoot = rangeProofRoot,
      hd_kernelRoot = kernelRoot, hd_offset = offset, hd_outputMMRSize = outputMMRSize, hd_kernelMMRSize = kernelMMRSize\<rparr>"

definition IHeader_GetHash ::
  "(bytes \<Rightarrow> Hash) \<Rightarrow> ('j, 'z IHeader_scheme) header_class \<Rightarrow> 'z IHeader_scheme \<Rightarrow> Hash \<times> 'z IHeader_scheme" where
  "IHeader_GetHash B H h =
     (case hd_hash h of
        Some x \<Rightarrow> (x, h)
      | None \<Rightarrow> (let x = B (Serialized (H_Serialize H h)) in (x, h\<lparr>hd_hash := Some x\<rparr>)))"

definition IHeader_neq ::
  "(bytes \<Rightarrow> Hash) \<Rightarrow> ('j, 'z IHeader_scheme) header_class \<Rightarrow> 'z IHeader_scheme \<Rightarrow> 'z IHeader_scheme \<Rightarrow> bool" where
  "IHeader_neq B H a b = BigInt_neq False (fst (IHeader_GetHash B H a)) (fst (IHeader_GetHash B H b))"

definition IHeader_Format :: "(bytes \<Rightarrow> Hash) \<Rightarrow> ('j, 'z IHeader_scheme) header_class \<Rightarrow> 'z IHeader_scheme \<Rightarrow> string" where
  "IHeader_Format B H h = BigInt_ToHex (fst (IHeader_GetHash B H h))"

definition IHeader_Deserialize :: "('j, 'h) header_class \<Rightarrow> 'h reader" where
  "IHeader_Deserialize H = H_Deserialize H"

definition IHeader_FromJSON :: "('j, 'h) header_class \<Rightarrow> 'j Json \<Rightarrow> 'h result" where
  "IHeader_FromJSON H js = H_FromJSON H js"

section \<open>IBlock\<close>

record ('h, 'k) IBlock =
  blk_header :: 'h
  blk_body :: "'k TxBody"
  blk_validated :: bool

definition mk_IBlock :: "'h \<Rightarrow> 'k TxBody \<Rightarrow> ('h, 'k) IBlock" where
  "mk_IBlock pHeader body = \<lparr>blk_header = pHeader, blk_body = body, blk_validated = False\<rparr>"

definition IBlock_GetHeight :: "('z IHeader_scheme, 'k) IBlock \<Rightarrow> u64" where
  "IBlock_GetHeight b = hd_height (blk_header b)"

definition IBlock_GetOffset :: "('z IHeader_scheme, 'k) IBlock \<Rightarrow> BlindingFactor" where
  "IBlock_GetOffset b = hd_offset (blk_header b)"

definition IBlock_Serialize ::
  "bool \<Rightarrow> ('j, 'h) header_class \<Rightarrow> ('j, 'k) kernel_class \<Rightarrow> ('h, 'k) IBlock \<Rightarrow> Serializer \<Rightarrow> Serializer" where
  "IBlock_Serialize be H K b s = TxBody_Serialize be K (blk_body b) (H_Serialize H (blk_header b) s)"

definition IBlock_ToJSON :: "'j json_lib \<Rightarrow> ('j, 'h) header_class \<Rightarrow> ('j, 'k) kernel_class \<Rightarrow> ('h, 'k) IBlock \<Rightarrow> 'j" where
  "IBlock_ToJSON J H K b = j_object J [(''header'', H_ToJSON H (blk_header b)), (''body'', TxBody_ToJSON J K (blk_body b))]"

definition IBlock_GetHash ::
  "(bytes \<Rightarrow> Hash) \<Rightarrow> ('j, 'z IHeader_scheme) header_class \<Rightarrow> ('z IHeader_scheme, 'k) IBlock \<Rightarrow> Hash" where
  "IBlock_GetHash B H b = fst (IHeader_GetHash B H (blk_header b))"

section \<open>CompactBlock\<close>

record ('h, 'k) CompactBlock =
  cb_header :: 'h
  cb_nonce :: u64
  cb_outputs :: "Output list"
  cb_kernels :: "'k list"
  cb_shortIds :: "ShortId list"

definition CompactBlock_Serialize ::
  "bool \<Rightarrow> ('j, 'h) header_class \<Rightarrow> ('j, 'k) kernel_class \<Rightarrow> ('h, 'k) CompactBlock \<Rightarrow> Serializer \<Rightarrow> Serializer" where
  "CompactBlock_Serialize be H K b s =
     (let s = H_Serialize H (cb_header b) s;
          s = Append be (cb_nonce b) s;
          s = Append be (of_nat (length (cb_outputs b)) :: u64) s;
          s = Append be (of_nat (length (cb_kernels b)) :: u64) s;
          s = Append be (of_nat (length (cb_shortIds b)) :: u64) s;
          s = serialize_all (Output_Serialize be) (cb_outputs b) s;
          s = serialize_all (K_Serialize K) (cb_kernels b) s
      in serialize_all ShortId_Serialize (cb_shortIds b) s)"

text \<open>\<^verbatim>\<open>ReadU64\<close>, which the Deserializer does not declare, is read as \<^verbatim>\<open>Read<uint64_t>\<close>.\<close>

definition CompactBlock_Deserialize ::
  "u64 \<Rightarrow> (bytes \<Rightarrow> Hash) \<Rightarrow> bool \<Rightarrow> ('j, 'h) header_class \<Rightarrow> ('j, 'k) kernel_class \<Rightarrow> ('h, 'k) CompactBlock reader" where
  "CompactBlock_Deserialize cap B be H K =
     dbind (H_Deserialize H) (\<lambda>pHeader.
     dbind (Read be) (\<lambda>nonce :: u64.
     dbind (Read be) (\<lambda>numOutputs :: u64.
     dbind (Read be) (\<lambda>numKernels :: u64.
     dbind (Read be) (\<lambda>numShortIds :: u64.
     dbind (read_list cap (Output_Deserialize B be) numOutputs) (\<lambda>outputs.
     dbind (read_list cap (K_Deserialize K) numKernels) (\<lambda>kernels.
     dbind (read_list cap ShortId_Deserialize numShortIds) (\<lambda>shortIds.
       dreturn \<lparr>cb_header = pHeader, cb_nonce = nonce, cb_outputs = outputs, cb_kernels = kernels,
                cb_shortIds = shortIds\<rparr>))))))))"

definition CompactBlock_GetHash ::
  "(bytes \<Rightarrow> Hash) \<Rightarrow> ('j, 'z IHeader_scheme) header_class \<Rightarrow> ('z IHeader_scheme, 'k) CompactBlock \<Rightarrow> Hash" where
  "CompactBlock_GetHash B H b = fst (IHeader_GetHash B H (cb_header b))"

section \<open>The cached hash of a header\<close>

definition header_hash_ok :: "(bytes \<Rightarrow> Hash) \<Rightarrow> ('j, 'z IHeader_scheme) header_class \<Rightarrow> 'z IHeader_scheme \<Rightarrow> bool" where
  "header_hash_ok B H h \<longleftrightarrow> hd_hash h = None \<or> hd_hash h = Some (B (Serialized (H_Serialize H h)))"

lemma IHeader_GetHash_fst: "header_hash_ok B H h \<Longrightarrow> fst (IHeader_GetHash B H h) = B (Serialized (H_Serialize H h))"
  by (auto simp: header_hash_ok_def IHeader_GetHash_def Let_def)

lemma IHeader_GetHash_cached:
  assumes "header_hash_ok B H h" "\<And>x. H_Serialize H (h\<lparr>hd_hash := x\<rparr>) = H_Serialize H h"
  shows "header_hash_ok B H (snd (IHeader_GetHash B H h))"
  using assms by (auto simp: header_hash_ok_def IHeader_GetHash_def Let_def)

section \<open>The classes satisfy the codec contract\<close>

lemma ShortId_codec: "codec ShortId_Serialize ShortId_Deserialize (\<lambda>i. big_bytes (si_id i)) (\<lambda>i. length (big_bytes (si_id i)) = 6)"
  using codec_wrap [OF BigInt_codec_sized [of 6], of "\<lambda>v. \<lparr>si_id = v\<rparr>" si_id]
  by (simp add: ShortId_Serialize_def [abs_def] ShortId_Deserialize_def)

definition CompactBlock_enc :: "('h \<Rightarrow> bytes) \<Rightarrow> ('k \<Rightarrow> bytes) \<Rightarrow> ('h, 'k) CompactBlock \<Rightarrow> bytes" where
  "CompactBlock_enc henc kenc b =
     henc (cb_header b) @ be_bytes (cb_nonce b) @ be_bytes (of_nat (length (cb_outputs b)) :: u64) @
     be_bytes (of_nat (length (cb_kernels b)) :: u64) @ be_bytes (of_nat (length (cb_shortIds b)) :: u64) @
     concat (map Output_enc (cb_outputs b)) @ concat (map kenc (cb_kernels b)) @
     concat (map (\<lambda>i. big_bytes (si_id i)) (cb_shortIds b))"

definition CompactBlock_wf ::
  "u64 \<Rightarrow> (bytes \<Rightarrow> Hash) \<Rightarrow> ('h \<Rightarrow> bool) \<Rightarrow> ('k \<Rightarrow> bool) \<Rightarrow> ('h, 'k) CompactBlock \<Rightarrow> bool" where
  "CompactBlock_wf cap B hvalid kvalid b \<longleftrightarrow>
     hvalid (cb_header b) \<and> list_all (Output_wf B) (cb_outputs b) \<and> list_all kvalid (cb_kernels b) \<and>
     list_all (\<lambda>i. length (big_bytes (si_id i)) = 6) (cb_shortIds b) \<and>
     length (cb_outputs b) \<le> unat cap \<and> length (cb_kernels b) \<le> unat cap \<and> length (cb_shortIds b) \<le> unat cap"

lemma CompactBlock_codec:
  assumes h: "codec (H_Serialize H) (H_Deserialize H) henc hvalid"
    and k: "codec (K_Serialize K) (K_Deserialize K) kenc kvalid"
  shows "codec (CompactBlock_Serialize be H K) (CompactBlock_Deserialize cap B be H K)
    (CompactBlock_enc henc kenc) (CompactBlock_wf cap B hvalid kvalid)"
proof
  show "appends (CompactBlock_Serialize be H K b) (CompactBlock_enc henc kenc b)" for b
    using appendsD [OF codec.ser_appends [OF h]] appendsD [OF Output_codec.serialize_all_enc]
      appendsD [OF codec.serialize_all_enc [OF k]] appendsD [OF codec.serialize_all_enc [OF ShortId_codec]]
    by (simp add: appends_def CompactBlock_Serialize_def CompactBlock_enc_def Let_def Append_eq)
  show "decodes (CompactBlock_Deserialize cap B be H K) b (CompactBlock_enc henc kenc b)"
    if wf: "CompactBlock_wf cap B hvalid kvalid b" for b
  proof -
    have o': "decodes (read_list cap (Output_Deserialize B be) (of_nat (length (cb_outputs b)))) (cb_outputs b) (concat (map Output_enc (cb_outputs b)))"
      by (rule Output_codec.list_enc) (use wf in \<open>simp_all add: CompactBlock_wf_def\<close>)
    have k': "decodes (read_list cap (K_Deserialize K) (of_nat (length (cb_kernels b)))) (cb_kernels b) (concat (map kenc (cb_kernels b)))"
      by (rule codec.list_enc [OF k]) (use wf in \<open>simp_all add: CompactBlock_wf_def\<close>)
    have s': "decodes (read_list cap ShortId_Deserialize (of_nat (length (cb_shortIds b)))) (cb_shortIds b) (concat (map (\<lambda>i. big_bytes (si_id i)) (cb_shortIds b)))"
      by (rule codec.list_enc [OF ShortId_codec]) (use wf in \<open>simp_all add: CompactBlock_wf_def\<close>)
    have h': "decodes (H_Deserialize H) (cb_header b) (henc (cb_header b))"
      by (rule codec.des_enc [OF h]) (use wf in \<open>simp add: CompactBlock_wf_def\<close>)
    show ?thesis
      unfolding CompactBlock_Deserialize_def CompactBlock_enc_def
      by (rule decodes_bind, rule h', (rule decodes_bind, rule decodes_Read, simp, simp)+, rule decodes_bind, rule o',
          rule decodes_bind, rule k', rule decodes_bind_return, rule s') (cases b, simp)
  qed
  show "reader_safe (CompactBlock_Deserialize cap B be H K)"
    unfolding CompactBlock_Deserialize_def
    by (intro reader_safe_bind reader_safe_read_list Output_codec.des_safe codec.des_safe [OF h] codec.des_safe [OF k]
        codec.des_safe [OF ShortId_codec] reader_safe_Read) auto
qed

section \<open>Short ids\<close>

text \<open>
  ShortId::Create never fails, and its six bytes are the low bytes of SipHash24 of the hash under the
  two little-endian words at the front of Blake2b(block hash, nonce).
\<close>

lemma ShortId_Create_ok:
  assumes "\<And>bs. length (big_bytes (B bs)) = 32"
  shows "ShortId_Create B be h blockHash nonce =
    (let k = big_bytes (B (big_bytes blockHash @ be_bytes nonce));
         sip = Crypto_SipHash24 be (of_le_bytes (take 8 k)) (of_le_bytes (take 8 (drop 8 k))) (big_bytes h)
     in Inr \<lparr>si_id = mk_BigInt (take 6 (le_bytes sip))\<rparr>)"
proof -
  let ?k = "big_bytes (B (big_bytes blockHash @ be_bytes nonce))"
  have ser: "m_serialized (Append be nonce (BigInt_Serialize blockHash new_Serializer)) = big_bytes blockHash @ be_bytes nonce"
    using appendsD [OF Hash_codec.ser_appends, of blockHash new_Serializer]
    by (simp add: Append_eq new_Serializer_def)
  have k: "?k = le_bytes (of_le_bytes (take 8 ?k) :: u64) @ le_bytes (of_le_bytes (take 8 (drop 8 ?k)) :: u64) @ drop 16 ?k"
  proof -
    have "?k = take 8 ?k @ take 8 (drop 8 ?k) @ drop 8 (drop 8 ?k)" by (simp only: append_take_drop_id)
    moreover have "le_bytes (of_le_bytes (take 8 ?k) :: u64) = take 8 ?k"
        "le_bytes (of_le_bytes (take 8 (drop 8 ?k)) :: u64) = take 8 (drop 8 ?k)"
      using assms by (auto intro!: le_bytes_of_le_bytes)
    ultimately show ?thesis by simp
  qed
  have "decodes (dbind (ReadLE be) (\<lambda>k0 :: u64. dbind (ReadLE be) (\<lambda>k1 :: u64. dreturn (k0, k1))))
      (of_le_bytes (take 8 ?k), of_le_bytes (take 8 (drop 8 ?k)))
      (le_bytes (of_le_bytes (take 8 ?k) :: u64) @ le_bytes (of_le_bytes (take 8 (drop 8 ?k)) :: u64))"
    by (rule decodes_bind, rule decodes_ReadLE, simp, simp, rule decodes_bind_return, rule decodes_ReadLE) simp_all
  from decodesD [OF this, of "[]" "drop 16 ?k"] have
    "\<exists>d. dbind (ReadLE be) (\<lambda>k0 :: u64. dbind (ReadLE be) (\<lambda>k1 :: u64. dreturn (k0, k1))) (new_Deserializer ?k) =
      Inr ((of_le_bytes (take 8 ?k), of_le_bytes (take 8 (drop 8 ?k))), d)"
    using k assms [of "big_bytes blockHash @ be_bytes nonce"] by (simp add: reader_at_Nil)
  then show ?thesis
    by (auto simp: ShortId_Create_def ser Let_def AppendLE_eq del: rbind_eq_Inr) (simp add: new_Serializer_def)
qed

end
