(* ===== verification/MW_Lock.thy ===== *)
theory MW_Lock
  imports MW_Prelude
begin

text \<open>
  Lock.h and Batchable.h. A \<^verbatim>\<open>Locked<T>\<close> is an object, a \<^verbatim>\<open>std::shared_mutex\<close> and, on the heap, the
  live \<^verbatim>\<open>InnerReader\<close> and \<^verbatim>\<open>InnerWriter\<close> objects that the \<^verbatim>\<open>Reader\<close> and \<^verbatim>\<open>Writer\<close> handles share by
  reference count: copying a handle raises a use count, dropping the last one runs the destructor.
  The interface IBatchable is a record of its virtual functions and its dirty flag; a class that does
  not derive from it is the value \<open>None\<close> of the \<^verbatim>\<open>dynamic_cast\<close>. An operation that blocks on the mutex
  is \<open>None\<close>, one that throws (or terminates in a destructor) is \<open>Inl\<close>.

  The operations of several threads on several \<^verbatim>\<open>Locked\<close> objects, with the MultiLocker among them,
  are a step relation; the invariant of its reachable states gives mutual exclusion, the balance of
  lock and unlock, and that every lock held can be given back. The locale \<open>transactional\<close> is the contract between a
  Writer and the batchable object it guards: what a session commits, what it rolls back.
\<close>

section \<open>The mutex\<close>

record shared_mutex =
  m_exclusive :: bool
  m_shared :: nat

definition mutex_lock :: "shared_mutex \<Rightarrow> shared_mutex option" where
  "mutex_lock m = (if m_exclusive m \<or> m_shared m \<noteq> 0 then None else Some (m\<lparr>m_exclusive := True\<rparr>))"

definition mutex_unlock :: "shared_mutex \<Rightarrow> shared_mutex result" where
  "mutex_unlock m = (if m_exclusive m then Inr (m\<lparr>m_exclusive := False\<rparr>) else Inl UndefinedBehaviour)"

definition mutex_lock_shared :: "shared_mutex \<Rightarrow> shared_mutex option" where
  "mutex_lock_shared m = (if m_exclusive m then None else Some (m\<lparr>m_shared := m_shared m + 1\<rparr>))"

definition mutex_unlock_shared :: "shared_mutex \<Rightarrow> shared_mutex result" where
  "mutex_unlock_shared m =
     (if m_shared m \<noteq> 0 then Inr (m\<lparr>m_shared := m_shared m - 1\<rparr>) else Inl UndefinedBehaviour)"

section \<open>IBatchable\<close>

record 'o IBatchable =
  ib_Commit :: "'o \<Rightarrow> 'o result"
  ib_Rollback :: "'o \<Rightarrow> 'o"
  ib_OnInitWrite :: "'o \<Rightarrow> 'o"
  ib_OnEndWrite :: "'o \<Rightarrow> 'o"
  ib_IsDirty :: "'o \<Rightarrow> bool"
  ib_SetDirty :: "bool \<Rightarrow> 'o \<Rightarrow> 'o"

section \<open>Readers, writers and the guarded object\<close>

record InnerReader =
  r_unlock :: bool
  r_uses :: nat

record InnerWriter =
  w_batched :: bool
  w_uses :: nat

record 'o Locked =
  l_object :: 'o
  l_mutex :: shared_mutex
  l_readers :: "nat \<Rightarrow> InnerReader option"
  l_writers :: "nat \<Rightarrow> InnerWriter option"

definition new_Locked :: "'o \<Rightarrow> 'o Locked" where
  "new_Locked ob = \<lparr>l_object = ob, l_mutex = \<lparr>m_exclusive = False, m_shared = 0\<rparr>,
     l_readers = (\<lambda>_. None), l_writers = (\<lambda>_. None)\<rparr>"

definition InnerReader_ctor :: "bool \<Rightarrow> bool \<Rightarrow> nat \<Rightarrow> 'o Locked \<Rightarrow> 'o Locked option" where
  "InnerReader_ctor lock unlock a l =
     map_option (\<lambda>m. l\<lparr>l_mutex := m, l_readers := (l_readers l)(a := Some \<lparr>r_unlock = unlock, r_uses = 1\<rparr>)\<rparr>)
       (if lock then mutex_lock_shared (l_mutex l) else Some (l_mutex l))"

definition InnerReader_dtor :: "nat \<Rightarrow> 'o Locked \<Rightarrow> 'o Locked result" where
  "InnerReader_dtor a l = (case l_readers l a of
       None \<Rightarrow> Inl UndefinedBehaviour
     | Some r \<Rightarrow> rbind (if r_unlock r then mutex_unlock_shared (l_mutex l) else Inr (l_mutex l))
         (\<lambda>m. Inr (l\<lparr>l_mutex := m, l_readers := (l_readers l)(a := None)\<rparr>)))"

definition InnerWriter_Commit :: "'o IBatchable option \<Rightarrow> 'o \<Rightarrow> 'o result" where
  "InnerWriter_Commit pBatchable ob = (case pBatchable of
       None \<Rightarrow> Inr ob
     | Some b \<Rightarrow> if ib_IsDirty b ob then rbind (ib_Commit b ob) (\<lambda>ob. Inr (ib_SetDirty b False ob)) else Inr ob)"

definition InnerWriter_Rollback :: "'o IBatchable option \<Rightarrow> 'o \<Rightarrow> 'o" where
  "InnerWriter_Rollback pBatchable ob = (case pBatchable of
       None \<Rightarrow> ob
     | Some b \<Rightarrow> if ib_IsDirty b ob then ib_SetDirty b False (ib_Rollback b ob) else ob)"

definition InnerWriter_OnInitWrite :: "'o IBatchable option \<Rightarrow> 'o \<Rightarrow> 'o" where
  "InnerWriter_OnInitWrite pBatchable ob = (case pBatchable of
       None \<Rightarrow> ob
     | Some b \<Rightarrow> ib_OnInitWrite b (ib_SetDirty b True ob))"

definition InnerWriter_OnEndWrite :: "'o IBatchable option \<Rightarrow> 'o \<Rightarrow> 'o" where
  "InnerWriter_OnEndWrite pBatchable ob = (case pBatchable of
       None \<Rightarrow> ob
     | Some b \<Rightarrow> ib_OnEndWrite b ob)"

definition InnerWriter_ctor ::
  "'o IBatchable option \<Rightarrow> bool \<Rightarrow> bool \<Rightarrow> nat \<Rightarrow> 'o Locked \<Rightarrow> 'o Locked option" where
  "InnerWriter_ctor pBatchable batched lock a l =
     map_option (\<lambda>m. l\<lparr>l_mutex := m,
         l_object := InnerWriter_OnInitWrite pBatchable (l_object l),
         l_writers := (l_writers l)(a := Some \<lparr>w_batched = batched, w_uses = 1\<rparr>)\<rparr>)
       (if lock then mutex_lock (l_mutex l) else Some (l_mutex l))"

definition MutexUnlocker_dtor :: "shared_mutex \<Rightarrow> shared_mutex result" where
  "MutexUnlocker_dtor pMutex = mutex_unlock pMutex"

declare MutexUnlocker_dtor_def [simp]

text \<open>
  The destructor. A destructor is \<^verbatim>\<open>noexcept\<close>, so an exception that leaves Commit terminates the
  program: \<open>Inl\<close> here.
\<close>

definition InnerWriter_dtor :: "'o IBatchable option \<Rightarrow> nat \<Rightarrow> 'o Locked \<Rightarrow> 'o Locked result" where
  "InnerWriter_dtor pBatchable a l = (case l_writers l a of
       None \<Rightarrow> Inl UndefinedBehaviour
     | Some w \<Rightarrow>
         rbind (if w_batched w then Inr (InnerWriter_Rollback pBatchable (l_object l))
                else InnerWriter_Commit pBatchable (l_object l))
         (\<lambda>ob. rbind (MutexUnlocker_dtor (l_mutex l))
         (\<lambda>m. Inr (l\<lparr>l_object := InnerWriter_OnEndWrite pBatchable ob, l_mutex := m,
                    l_writers := (l_writers l)(a := None)\<rparr>))))"

section \<open>The handles Reader and Writer\<close>

definition Reader_Create :: "bool \<Rightarrow> bool \<Rightarrow> nat \<Rightarrow> 'o Locked \<Rightarrow> 'o Locked option" where
  "Reader_Create lock unlock a l = InnerReader_ctor lock unlock a l"

definition Reader_GetShared :: "'o Locked \<Rightarrow> nat \<Rightarrow> 'o result" where
  "Reader_GetShared l a = (case l_readers l a of None \<Rightarrow> Inl UndefinedBehaviour | Some r \<Rightarrow> Inr (l_object l))"

definition Reader_copy :: "nat \<Rightarrow> 'o Locked \<Rightarrow> 'o Locked result" where
  "Reader_copy a l = (case l_readers l a of
       None \<Rightarrow> Inl UndefinedBehaviour
     | Some r \<Rightarrow> Inr (l\<lparr>l_readers := (l_readers l)(a := Some (r\<lparr>r_uses := r_uses r + 1\<rparr>))\<rparr>))"

definition Reader_drop :: "nat \<Rightarrow> 'o Locked \<Rightarrow> 'o Locked result" where
  "Reader_drop a l = (case l_readers l a of
       None \<Rightarrow> Inl UndefinedBehaviour
     | Some r \<Rightarrow> if r_uses r \<le> 1 then InnerReader_dtor a l
         else Inr (l\<lparr>l_readers := (l_readers l)(a := Some (r\<lparr>r_uses := r_uses r - 1\<rparr>))\<rparr>))"

text \<open>
  A Writer is a pointer to its \<^verbatim>\<open>InnerWriter\<close> (at \<open>a\<close>) and a Reader base (at \<open>b\<close>) that neither locks
  nor unlocks. The two counts are raised and dropped separately: Clear drops the first only, and a
  Writer copied to a Reader keeps the second alive.
\<close>

definition Writer_Create ::
  "'o IBatchable option \<Rightarrow> bool \<Rightarrow> bool \<Rightarrow> nat \<Rightarrow> nat \<Rightarrow> 'o Locked \<Rightarrow> 'o Locked option" where
  "Writer_Create pBatchable batched lock a b l =
     Option.bind (InnerWriter_ctor pBatchable batched lock a l) (Reader_Create False False b)"

definition Writer_GetShared :: "'o Locked \<Rightarrow> nat \<Rightarrow> 'o result" where
  "Writer_GetShared l a = (case l_writers l a of None \<Rightarrow> Inl UndefinedBehaviour | Some w \<Rightarrow> Inr (l_object l))"

definition Writer_update :: "nat \<Rightarrow> ('o \<Rightarrow> 'o) \<Rightarrow> 'o Locked \<Rightarrow> 'o Locked result" where
  "Writer_update a f l = rbind (Writer_GetShared l a) (\<lambda>ob. Inr (l\<lparr>l_object := f ob\<rparr>))"

definition Writer_copy :: "nat \<Rightarrow> 'o Locked \<Rightarrow> 'o Locked result" where
  "Writer_copy a l = (case l_writers l a of
       None \<Rightarrow> Inl UndefinedBehaviour
     | Some w \<Rightarrow> Inr (l\<lparr>l_writers := (l_writers l)(a := Some (w\<lparr>w_uses := w_uses w + 1\<rparr>))\<rparr>))"

definition Writer_Clear :: "'o IBatchable option \<Rightarrow> nat \<Rightarrow> 'o Locked \<Rightarrow> 'o Locked result" where
  "Writer_Clear pBatchable a l = (case l_writers l a of
       None \<Rightarrow> Inl UndefinedBehaviour
     | Some w \<Rightarrow> if w_uses w \<le> 1 then InnerWriter_dtor pBatchable a l
         else Inr (l\<lparr>l_writers := (l_writers l)(a := Some (w\<lparr>w_uses := w_uses w - 1\<rparr>))\<rparr>))"

text \<open>The destructor of a Writer: the derived part first, then its Reader base.\<close>

definition Writer_drop :: "'o IBatchable option \<Rightarrow> nat \<Rightarrow> nat \<Rightarrow> 'o Locked \<Rightarrow> 'o Locked result" where
  "Writer_drop pBatchable a b l = rbind (Writer_Clear pBatchable a l) (Reader_drop b)"

section \<open>Locked\<close>

definition Locked_Read :: "nat \<Rightarrow> 'o Locked \<Rightarrow> 'o Locked option" where
  "Locked_Read a l = Reader_Create True True a l"

definition Locked_Read_adopt :: "nat \<Rightarrow> 'o Locked \<Rightarrow> 'o Locked option" where
  "Locked_Read_adopt a l = Reader_Create False True a l"

definition Locked_Write :: "'o IBatchable option \<Rightarrow> nat \<Rightarrow> nat \<Rightarrow> 'o Locked \<Rightarrow> 'o Locked option" where
  "Locked_Write pBatchable a b l = Writer_Create pBatchable False True a b l"

definition Locked_Write_adopt :: "'o IBatchable option \<Rightarrow> nat \<Rightarrow> nat \<Rightarrow> 'o Locked \<Rightarrow> 'o Locked option" where
  "Locked_Write_adopt pBatchable a b l = Writer_Create pBatchable False False a b l"

definition BatchWrite_error :: exn where
  "BatchWrite_error = UnimplementedException ''BatchWrite only implemented for batchable objects''"

definition Locked_BatchWrite ::
  "'o IBatchable option \<Rightarrow> nat \<Rightarrow> nat \<Rightarrow> 'o Locked \<Rightarrow> 'o Locked result option" where
  "Locked_BatchWrite pBatchable a b l =
     (if pBatchable = None then Some (Inl BatchWrite_error)
      else map_option Inr (Writer_Create pBatchable True True a b l))"

definition Locked_BatchWrite_adopt ::
  "'o IBatchable option \<Rightarrow> nat \<Rightarrow> nat \<Rightarrow> 'o Locked \<Rightarrow> 'o Locked result option" where
  "Locked_BatchWrite_adopt pBatchable a b l =
     (if pBatchable = None then Some (Inl BatchWrite_error)
      else map_option Inr (Writer_Create pBatchable True False a b l))"

section \<open>MultiLocker\<close>

definition SharedOnlyMutex_lock :: "shared_mutex \<Rightarrow> shared_mutex option" where
  "SharedOnlyMutex_lock m = mutex_lock_shared m"

definition SharedOnlyMutex_unlock :: "shared_mutex \<Rightarrow> shared_mutex result" where
  "SharedOnlyMutex_unlock m = mutex_unlock_shared m"

definition SharedOnlyMutex_try_lock :: "shared_mutex \<Rightarrow> bool \<times> shared_mutex" where
  "SharedOnlyMutex_try_lock m = (case mutex_lock_shared m of None \<Rightarrow> (False, m) | Some m' \<Rightarrow> (True, m'))"

text \<open>
  \<^verbatim>\<open>std::lock\<close> takes all the mutexes or none (it gives back what it took before it blocks); a mutex
  named twice is never obtained.
\<close>

type_synonym 'o locks = "nat \<Rightarrow> 'o Locked"

definition std_lock :: "(shared_mutex \<Rightarrow> shared_mutex option) \<Rightarrow> nat list \<Rightarrow> 'o locks \<Rightarrow> 'o locks option" where
  "std_lock lock is S =
     (if distinct is \<and> list_all (\<lambda>i. lock (l_mutex (S i)) \<noteq> None) is
      then Some (\<lambda>i. if i \<in> set is then (S i)\<lparr>l_mutex := the (lock (l_mutex (S i)))\<rparr> else S i)
      else None)"

text \<open>
  GetWriter for each lock; the tuple is built from left to right. When one of them throws, the writers
  built so far are destroyed on the way out.
\<close>

fun MultiLocker_unwind :: "(nat \<Rightarrow> 'o IBatchable option) \<Rightarrow> (nat \<times> nat \<times> nat) list \<Rightarrow> 'o locks \<Rightarrow> 'o locks result" where
  "MultiLocker_unwind vts [] S = Inr S"
| "MultiLocker_unwind vts ((i, a, b) # built) S =
     rbind (Writer_drop (vts i) a b (S i)) (\<lambda>l. MultiLocker_unwind vts built (S(i := l)))"

definition MultiLocker_GetWriter ::
  "'o IBatchable option \<Rightarrow> nat \<Rightarrow> nat \<Rightarrow> 'o Locked \<Rightarrow> 'o Locked result option" where
  "MultiLocker_GetWriter pBatchable a b l = Locked_BatchWrite_adopt pBatchable a b l"

fun MultiLocker_GetWriters ::
  "(nat \<Rightarrow> 'o IBatchable option) \<Rightarrow> (nat \<times> nat \<times> nat) list \<Rightarrow> (nat \<times> nat \<times> nat) list \<Rightarrow> 'o locks \<Rightarrow>
     (exn option \<times> 'o locks) result option" where
  "MultiLocker_GetWriters vts built [] S = Some (Inr (None, S))"
| "MultiLocker_GetWriters vts built ((i, a, b) # args) S =
     (case MultiLocker_GetWriter (vts i) a b (S i) of
        None \<Rightarrow> None
      | Some (Inl e) \<Rightarrow> Some (rbind (MultiLocker_unwind vts built S) (\<lambda>S. Inr (Some e, S)))
      | Some (Inr l) \<Rightarrow> MultiLocker_GetWriters vts ((i, a, b) # built) args (S(i := l)))"

definition MultiLocker_Lock ::
  "(nat \<Rightarrow> 'o IBatchable option) \<Rightarrow> (nat \<times> nat \<times> nat) list \<Rightarrow> 'o locks \<Rightarrow> (exn option \<times> 'o locks) result option" where
  "MultiLocker_Lock vts args S =
     Option.bind (std_lock mutex_lock (map fst args) S) (MultiLocker_GetWriters vts [] args)"

definition MultiLocker_GetReader :: "nat \<Rightarrow> 'o Locked \<Rightarrow> 'o Locked option" where
  "MultiLocker_GetReader a l = Locked_Read_adopt a l"

fun MultiLocker_GetReaders :: "(nat \<times> nat) list \<Rightarrow> 'o locks \<Rightarrow> 'o locks option" where
  "MultiLocker_GetReaders [] S = Some S"
| "MultiLocker_GetReaders ((i, a) # args) S =
     Option.bind (MultiLocker_GetReader a (S i)) (\<lambda>l. MultiLocker_GetReaders args (S(i := l)))"

definition MultiLocker_LockShared :: "(nat \<times> nat) list \<Rightarrow> 'o locks \<Rightarrow> 'o locks option" where
  "MultiLocker_LockShared args S =
     Option.bind (std_lock SharedOnlyMutex_lock (map fst args) S) (MultiLocker_GetReaders args)"

section \<open>The step relation\<close>

text \<open>
  One operation of a thread on one \<^verbatim>\<open>Locked\<close> object: obtaining a handle at an address the allocator
  returns (\<open>fresh\<close>), copying, dropping or clearing one, or calling a mutating method through a Writer.
  The steps are those that return; what a MultiLocker that throws leaves behind is a lemma of its own
  (\<open>MultiLocker_Lock_leaks\<close> below).
\<close>

datatype 'o op =
    OpRead nat
  | OpWrite nat nat
  | OpBatchWrite nat nat
  | CopyReader nat
  | DropReader nat
  | CopyWriter nat
  | ClearWriter nat
  | DropWriter nat nat
  | Update nat "'o \<Rightarrow> 'o"

definition fresh :: "'o Locked \<Rightarrow> nat \<Rightarrow> bool" where
  "fresh l a \<longleftrightarrow> l_readers l a = None \<and> l_writers l a = None"

fun Locked_exec :: "'o IBatchable option \<Rightarrow> 'o op \<Rightarrow> 'o Locked \<Rightarrow> 'o Locked result option" where
  "Locked_exec v (OpRead a) l = (if fresh l a then map_option Inr (Locked_Read a l) else None)"
| "Locked_exec v (OpWrite a b) l =
     (if fresh l a \<and> fresh l b then map_option Inr (Locked_Write v a b l) else None)"
| "Locked_exec v (OpBatchWrite a b) l =
     (if fresh l a \<and> fresh l b then Locked_BatchWrite v a b l else None)"
| "Locked_exec v (CopyReader a) l = Some (Reader_copy a l)"
| "Locked_exec v (DropReader a) l = Some (Reader_drop a l)"
| "Locked_exec v (CopyWriter a) l = Some (Writer_copy a l)"
| "Locked_exec v (ClearWriter a) l = Some (Writer_Clear v a l)"
| "Locked_exec v (DropWriter a b) l = Some (Writer_drop v a b l)"
| "Locked_exec v (Update a f) l = Some (Writer_update a f l)"

inductive locks_step :: "(nat \<Rightarrow> 'o IBatchable option) \<Rightarrow> 'o locks \<Rightarrow> 'o locks \<Rightarrow> bool"
  for vts :: "nat \<Rightarrow> 'o IBatchable option" where
  one: "Locked_exec (vts i) x (S i) = Some (Inr l) \<Longrightarrow> locks_step vts S (S(i := l))"
| multi: "list_all (\<lambda>(i, a, b). fresh (S i) a \<and> fresh (S i) b) args \<Longrightarrow>
    MultiLocker_Lock vts args S = Some (Inr (None, S')) \<Longrightarrow> locks_step vts S S'"
| multi_shared: "list_all (\<lambda>(i, a). fresh (S i) a) args \<Longrightarrow>
    MultiLocker_LockShared args S = Some S' \<Longrightarrow> locks_step vts S S'"

inductive locks_reach :: "(nat \<Rightarrow> 'o IBatchable option) \<Rightarrow> 'o locks \<Rightarrow> 'o locks \<Rightarrow> bool"
  for vts :: "nat \<Rightarrow> 'o IBatchable option" and S0 :: "'o locks" where
  start: "locks_reach vts S0 S0"
| more: "locks_reach vts S0 S \<Longrightarrow> locks_step vts S S' \<Longrightarrow> locks_reach vts S0 S'"

text \<open>The states a program can be in: all objects start unlocked, without handles, and clean.\<close>

definition locks_init :: "(nat \<Rightarrow> 'o IBatchable option) \<Rightarrow> 'o locks \<Rightarrow> bool" where
  "locks_init vts S \<longleftrightarrow> (\<forall>i. (\<exists>ob. S i = new_Locked ob \<and> (\<forall>b. vts i = Some b \<longrightarrow> \<not> ib_IsDirty b ob)))"

section \<open>The contract of a batchable object\<close>

locale batchable =
  fixes ib :: "'o IBatchable"
  assumes dirty_set: "ib_IsDirty ib (ib_SetDirty ib d ob) = d"
    and dirty_end: "ib_IsDirty ib (ib_OnEndWrite ib ob) = ib_IsDirty ib ob"

section \<open>The invariant\<close>

definition locking :: "(nat \<Rightarrow> InnerReader option) \<Rightarrow> nat set" where
  "locking rs = {a. \<exists>r. rs a = Some r \<and> r_unlock r}"

definition sole :: "(nat \<Rightarrow> InnerWriter option) \<Rightarrow> bool" where
  "sole ws \<longleftrightarrow> (\<forall>a b. ws a \<noteq> None \<longrightarrow> ws b \<noteq> None \<longrightarrow> a = b)"

definition lock_inv :: "'o IBatchable option \<Rightarrow> 'o Locked \<Rightarrow> bool" where
  "lock_inv v l \<longleftrightarrow>
     finite (dom (l_readers l)) \<and>
     m_shared (l_mutex l) = card (locking (l_readers l)) \<and>
     sole (l_writers l) \<and>
     (m_exclusive (l_mutex l) \<longleftrightarrow> l_writers l \<noteq> Map.empty) \<and>
     (m_exclusive (l_mutex l) \<longrightarrow> m_shared (l_mutex l) = 0) \<and>
     (\<forall>b. v = Some b \<longrightarrow> l_writers l = Map.empty \<longrightarrow> \<not> ib_IsDirty b (l_object l))"

lemma finite_locking [simp]: "finite (dom rs) \<Longrightarrow> finite (locking rs)"
  by (rule finite_subset [of _ "dom rs"]) (auto simp: locking_def)

lemma locking_upd [simp]:
  "locking (rs(a := Some r)) = (if r_unlock r then insert a (locking rs) else locking rs - {a})"
  "locking (rs(a := None)) = locking rs - {a}"
  by (auto simp: locking_def split: if_splits)

lemma sole_simps [simp]:
  "sole Map.empty"
  "sole [a \<mapsto> w]"
  "sole ws \<Longrightarrow> ws a = Some w \<Longrightarrow> sole (ws(a \<mapsto> w'))"
  "sole ws \<Longrightarrow> sole (ws(a := None))"
  by (auto simp: sole_def split: if_splits)

lemma sole_gone: "sole ws \<Longrightarrow> ws a = Some w \<Longrightarrow> ws(a := None) = Map.empty"
  unfolding sole_def by (metis fun_upd_apply option.distinct(1))

lemma lock_inv_new: "(\<And>b. v = Some b \<Longrightarrow> \<not> ib_IsDirty b ob) \<Longrightarrow> lock_inv v (new_Locked ob)"
  by (auto simp: lock_inv_def new_Locked_def locking_def)

text \<open>Each operation keeps the invariant; the mutex-taking part of the MultiLocker is a case of its own.\<close>

definition vt_ok :: "'o IBatchable option \<Rightarrow> bool" where
  "vt_ok v \<longleftrightarrow> (\<forall>b. v = Some b \<longrightarrow> batchable b)"

lemmas mutex_defs = mutex_lock_def mutex_unlock_def mutex_lock_shared_def mutex_unlock_shared_def

lemma lock_inv_D:
  assumes "lock_inv v l"
  shows lock_inv_finite: "finite (dom (l_readers l))"
    and lock_inv_shared: "m_shared (l_mutex l) = card (locking (l_readers l))"
    and lock_inv_sole: "sole (l_writers l)"
    and lock_inv_exclusive: "m_exclusive (l_mutex l) \<longleftrightarrow> l_writers l \<noteq> Map.empty"
    and lock_inv_disjoint: "m_exclusive (l_mutex l) \<Longrightarrow> m_shared (l_mutex l) = 0"
    and lock_inv_clean: "v = Some b \<Longrightarrow> l_writers l = Map.empty \<Longrightarrow> \<not> ib_IsDirty b (l_object l)"
  using assms unfolding lock_inv_def by blast+

lemma InnerReader_ctor_inv:
  assumes inv: "lock_inv v l" and fr: "l_readers l a = None"
    and ctor: "InnerReader_ctor u u a l = Some l'"
  shows "lock_inv v l'"
proof -
  have a: "a \<notin> locking (l_readers l)" using fr by (auto simp: locking_def)
  then show ?thesis
    using inv ctor by (auto simp: InnerReader_ctor_def lock_inv_def mutex_lock_shared_def split: if_splits)
qed

lemma InnerReader_drop_inv:
  assumes inv: "lock_inv v l" and r: "l_readers l a = Some r"
  shows "\<exists>l'. Reader_drop a l = Inr l' \<and> lock_inv v l'"
proof (cases "r_unlock r")
  case True
  then have a: "a \<in> locking (l_readers l)" using r by (auto simp: locking_def)
  then have pos: "0 < m_shared (l_mutex l)"
    using inv by (auto simp: lock_inv_def card_gt_0_iff)
  show ?thesis
    using inv a pos r True
    by (auto simp: Reader_drop_def InnerReader_dtor_def lock_inv_def mutex_unlock_shared_def insert_absorb)
next
  case False
  then have "a \<notin> locking (l_readers l)" using r by (auto simp: locking_def)
  then show ?thesis
    using inv r False
    by (auto simp: Reader_drop_def InnerReader_dtor_def lock_inv_def mutex_unlock_shared_def)
qed

lemma Reader_copy_inv:
  assumes inv: "lock_inv v l" and cp: "Reader_copy a l = Inr l'"
  shows "lock_inv v l'"
proof -
  obtain r where r: "l_readers l a = Some r" using cp by (auto simp: Reader_copy_def split: option.splits)
  then have "locking ((l_readers l)(a := Some (r\<lparr>r_uses := r_uses r + 1\<rparr>))) = locking (l_readers l)"
    by (auto simp: locking_def)
  then show ?thesis using inv cp r by (auto simp: Reader_copy_def lock_inv_def)
qed

text \<open>A writer is built on a mutex that is held exclusively, or that is free and taken now.\<close>

lemma Writer_Create_inv:
  assumes inv: "lock_inv v l" and fr: "fresh l b" and mk: "Writer_Create v batched True a b l = Some l'"
  shows "lock_inv v l'"
proof -
  have free: "\<not> m_exclusive (l_mutex l)" "m_shared (l_mutex l) = 0"
    using mk by (auto simp: Writer_Create_def InnerWriter_ctor_def mutex_lock_def split: if_splits)
  then have w: "l_writers l = Map.empty" using lock_inv_exclusive [OF inv] by blast
  have b: "b \<notin> locking (l_readers l)" using fr by (auto simp: locking_def fresh_def)
  show ?thesis
    using inv mk free w b
    by (auto simp: Writer_Create_def Reader_Create_def InnerReader_ctor_def InnerWriter_ctor_def
        mutex_lock_def lock_inv_def split: if_splits)
qed

lemma Writer_update_inv:
  assumes inv: "lock_inv v l" and up: "Writer_update a f l = Inr l'"
  shows "lock_inv v l'"
  using inv up by (auto simp: Writer_update_def Writer_GetShared_def lock_inv_def split: option.splits)

lemma Writer_copy_inv:
  assumes inv: "lock_inv v l" and cp: "Writer_copy a l = Inr l'"
  shows "lock_inv v l'"
proof -
  obtain w where w: "l_writers l a = Some w" using cp by (auto simp: Writer_copy_def split: option.splits)
  have ex: "m_exclusive (l_mutex l)" using lock_inv_exclusive [OF inv] w by auto
  show ?thesis
    using inv cp w ex by (auto simp: Writer_copy_def lock_inv_def)
qed

lemma InnerWriter_clean:
  assumes "vt_ok v" "v = Some b"
  shows "\<not> ib_IsDirty b (InnerWriter_OnEndWrite v (InnerWriter_Rollback v ob))"
    and "InnerWriter_Commit v ob = Inr ob' \<Longrightarrow> \<not> ib_IsDirty b (InnerWriter_OnEndWrite v ob')"
proof -
  have b: "batchable b" using assms by (simp add: vt_ok_def)
  note laws = batchable.dirty_set [OF b] batchable.dirty_end [OF b]
  show "\<not> ib_IsDirty b (InnerWriter_OnEndWrite v (InnerWriter_Rollback v ob))"
    using assms(2) by (simp add: InnerWriter_OnEndWrite_def InnerWriter_Rollback_def laws)
  show "InnerWriter_Commit v ob = Inr ob' \<Longrightarrow> \<not> ib_IsDirty b (InnerWriter_OnEndWrite v ob')"
    using assms(2)
    by (auto simp: InnerWriter_OnEndWrite_def InnerWriter_Commit_def laws split: if_splits)
qed

lemma Writer_Clear_inv:
  assumes ok: "vt_ok v" and inv: "lock_inv v l" and cl: "Writer_Clear v a l = Inr l'"
  shows "lock_inv v l'"
proof -
  obtain w where w: "l_writers l a = Some w" using cl by (auto simp: Writer_Clear_def split: option.splits)
  have gone: "(l_writers l)(a := None) = Map.empty" by (rule sole_gone [OF lock_inv_sole [OF inv] w])
  have ex: "m_exclusive (l_mutex l)" using lock_inv_exclusive [OF inv] w by auto
  show ?thesis
  proof (cases "w_uses w \<le> 1")
    case True
    then have dt: "InnerWriter_dtor v a l = Inr l'" using cl w by (simp add: Writer_Clear_def)
    then show ?thesis
      using inv dt w ex InnerWriter_clean [OF ok]
      by (auto simp: InnerWriter_dtor_def lock_inv_def mutex_unlock_def gone split: if_splits)
  next
    case False
    then show ?thesis
      using inv cl w ex by (auto simp: Writer_Clear_def lock_inv_def)
  qed
qed

lemma Writer_drop_inv:
  assumes "vt_ok v" "lock_inv v l" "Writer_drop v a b l = Inr l'"
  shows "lock_inv v l'"
proof -
  obtain l1 where l1: "Writer_Clear v a l = Inr l1" "Reader_drop b l1 = Inr l'"
    using assms(3) by (auto simp: Writer_drop_def)
  then obtain r where r: "l_readers l1 b = Some r" by (auto simp: Reader_drop_def split: option.splits)
  then show ?thesis
    using InnerReader_drop_inv [OF Writer_Clear_inv [OF assms(1,2) l1(1)] r] l1(2) by simp
qed

lemma Reader_drop_inv:
  assumes "lock_inv v l" "Reader_drop a l = Inr l'"
  shows "lock_inv v l'"
proof -
  obtain r where "l_readers l a = Some r" using assms(2) by (auto simp: Reader_drop_def split: option.splits)
  then show ?thesis using InnerReader_drop_inv [OF assms(1)] assms(2) by fastforce
qed

lemma Locked_exec_inv:
  assumes ok: "vt_ok v" and inv: "lock_inv v l" and ex: "Locked_exec v x l = Some (Inr l')"
  shows "lock_inv v l'"
proof (cases x)
  case (OpRead a)
  then show ?thesis
    using ex InnerReader_ctor_inv [OF inv, of a True]
    by (auto simp: Locked_Read_def Reader_Create_def fresh_def split: if_splits)
next
  case (OpWrite a b)
  then show ?thesis
    using ex Writer_Create_inv [OF inv, of b False a] by (auto simp: Locked_Write_def split: if_splits)
next
  case (OpBatchWrite a b)
  then show ?thesis
    using ex Writer_Create_inv [OF inv, of b True a] by (auto simp: Locked_BatchWrite_def split: if_splits)
qed (use ex inv in \<open>auto intro: Reader_copy_inv Reader_drop_inv Writer_copy_inv Writer_Clear_inv [OF ok]
       Writer_drop_inv [OF ok] Writer_update_inv\<close>)

text \<open>
  The MultiLocker: after \<^verbatim>\<open>std::lock\<close> the named locks wait for their handle; each GetWriter or GetReader that
  adopts a lock does what Write or Read would have done on the mutex as it was.
\<close>

definition taken :: "(shared_mutex \<Rightarrow> shared_mutex option) \<Rightarrow> 'o IBatchable option \<Rightarrow> 'o Locked \<Rightarrow> bool" where
  "taken lock v l \<longleftrightarrow> (\<exists>l0 m. lock_inv v l0 \<and> lock (l_mutex l0) = Some m \<and> l = l0\<lparr>l_mutex := m\<rparr>)"

definition waiting :: "(shared_mutex \<Rightarrow> shared_mutex option) \<Rightarrow> (nat \<Rightarrow> 'o IBatchable option) \<Rightarrow> nat list \<Rightarrow> 'o locks \<Rightarrow> bool" where
  "waiting lock vts is S \<longleftrightarrow>
     (\<forall>i. if i \<in> set is then taken lock (vts i) (S i) else lock_inv (vts i) (S i))"

lemma std_lock_waiting:
  assumes "\<And>i. lock_inv (vts i) (S i)" "std_lock lock is S = Some S'"
  shows "distinct is" "waiting lock vts is S'"
proof -
  from assms(2) have d: "distinct is" and all: "\<And>i. i \<in> set is \<Longrightarrow> lock (l_mutex (S i)) \<noteq> None"
    and S': "S' = (\<lambda>i. if i \<in> set is then (S i)\<lparr>l_mutex := the (lock (l_mutex (S i)))\<rparr> else S i)"
    by (auto simp: std_lock_def list_all_iff split: if_splits)
  show "distinct is" by (rule d)
  have "taken lock (vts i) (S' i)" if "i \<in> set is" for i
    unfolding taken_def using assms(1) [of i] all [OF that] S' that
    by (intro exI [of _ "S i"] exI [of _ "the (lock (l_mutex (S i)))"]) auto
  then show "waiting lock vts is S'" using assms(1) S' by (simp add: waiting_def)
qed

lemma fresh_mutex [simp]: "fresh (l\<lparr>l_mutex := m\<rparr>) a = fresh l a"
  by (simp add: fresh_def)

lemma std_lock_fresh: "std_lock lock is S = Some S' \<Longrightarrow> fresh (S' i) a = fresh (S i) a"
  by (auto simp: std_lock_def split: if_splits)

lemma Writer_Create_adopt:
  "mutex_lock (l_mutex l) = Some m \<Longrightarrow>
     Writer_Create v batched False a b (l\<lparr>l_mutex := m\<rparr>) = Writer_Create v batched True a b l"
  by (simp add: Writer_Create_def InnerWriter_ctor_def)

lemma Reader_Create_adopt:
  "mutex_lock_shared (l_mutex l) = Some m \<Longrightarrow>
     Reader_Create False u a (l\<lparr>l_mutex := m\<rparr>) = Reader_Create True u a l"
  by (simp add: Reader_Create_def InnerReader_ctor_def)

lemma GetWriter_taken:
  assumes "taken mutex_lock v l" "fresh l b" "MultiLocker_GetWriter v a b l = Some (Inr l')"
  shows "lock_inv v l'"
proof -
  obtain l0 m where l0: "lock_inv v l0" "mutex_lock (l_mutex l0) = Some m" "l = l0\<lparr>l_mutex := m\<rparr>"
    using assms(1) by (auto simp: taken_def)
  then have "Writer_Create v True True a b l0 = Some l'"
    using assms(3) Writer_Create_adopt [OF l0(2)]
    by (auto simp: MultiLocker_GetWriter_def Locked_BatchWrite_adopt_def split: if_splits)
  then show ?thesis using Writer_Create_inv l0 assms(2) by simp
qed

lemma GetReader_taken:
  assumes "taken SharedOnlyMutex_lock v l" "fresh l a" "MultiLocker_GetReader a l = Some l'"
  shows "lock_inv v l'"
proof -
  obtain l0 m where l0: "lock_inv v l0" "mutex_lock_shared (l_mutex l0) = Some m" "l = l0\<lparr>l_mutex := m\<rparr>"
    using assms(1) by (auto simp: taken_def SharedOnlyMutex_lock_def)
  then have "InnerReader_ctor True True a l0 = Some l'"
    using assms(3) Reader_Create_adopt [OF l0(2)]
    by (simp add: MultiLocker_GetReader_def Locked_Read_adopt_def Reader_Create_def)
  then show ?thesis using InnerReader_ctor_inv [OF l0(1), of a True l'] l0(3) assms(2) by (simp add: fresh_def)
qed

lemma waiting_Cons:
  assumes "waiting lock vts (i # is) S" "i \<notin> set is"
  shows "taken lock (vts i) (S i)" "lock_inv (vts i) l \<Longrightarrow> waiting lock vts is (S(i := l))"
  using assms by (auto simp: waiting_def split: if_splits)

lemma MultiLocker_GetWriters_inv:
  assumes "waiting mutex_lock vts (map fst args) S" "distinct (map fst args)"
    and "list_all (\<lambda>(i, a, b). fresh (S i) a \<and> fresh (S i) b) args"
    and "MultiLocker_GetWriters vts built args S = Some (Inr (None, S'))"
  shows "lock_inv (vts i) (S' i)"
  using assms
proof (induction vts built args S rule: MultiLocker_GetWriters.induct)
  case (1 vts built S)
  then show ?case by (simp add: waiting_def)
next
  case (2 vts built j a b args S)
  obtain l where l: "MultiLocker_GetWriter (vts j) a b (S j) = Some (Inr l)"
    and rest: "MultiLocker_GetWriters vts ((j, a, b) # built) args (S(j := l)) = Some (Inr (None, S'))"
    using "2.prems"(4) by (auto split: option.splits sum.splits)
  have j: "j \<notin> set (map fst args)" using "2.prems"(2) by simp
  have "lock_inv (vts j) l"
    using "2.prems"(1,3) waiting_Cons(1) [OF _ j] l by (auto intro: GetWriter_taken)
  then have w: "waiting mutex_lock vts (map fst args) (S(j := l))"
    using "2.prems"(1) waiting_Cons(2) [OF _ j] by simp
  have "list_all (\<lambda>(i, a, b). fresh ((S(j := l)) i) a \<and> fresh ((S(j := l)) i) b) args"
    using "2.prems"(3) j by (auto simp: list_all_iff image_iff split_beta)
  then show ?case using "2.IH" [OF l refl w _ _ rest] "2.prems"(2) by simp
qed

lemma MultiLocker_GetReaders_inv:
  assumes "waiting SharedOnlyMutex_lock vts (map fst args) S" "distinct (map fst args)"
    and "list_all (\<lambda>(i, a). fresh (S i) a) args"
    and "MultiLocker_GetReaders args S = Some S'"
  shows "lock_inv (vts i) (S' i)"
  using assms
proof (induction args S rule: MultiLocker_GetReaders.induct)
  case (1 S)
  then show ?case by (simp add: waiting_def)
next
  case (2 j a args S)
  obtain l where l: "MultiLocker_GetReader a (S j) = Some l"
    and rest: "MultiLocker_GetReaders args (S(j := l)) = Some S'"
    using "2.prems"(4) by (auto simp: Option.bind_eq_Some_conv)
  have j: "j \<notin> set (map fst args)" using "2.prems"(2) by simp
  have "lock_inv (vts j) l"
    using "2.prems"(1,3) waiting_Cons(1) [OF _ j] l by (auto intro: GetReader_taken)
  then have w: "waiting SharedOnlyMutex_lock vts (map fst args) (S(j := l))"
    using "2.prems"(1) waiting_Cons(2) [OF _ j] by simp
  have "list_all (\<lambda>(i, a). fresh ((S(j := l)) i) a) args"
    using "2.prems"(3) j by (auto simp: list_all_iff image_iff split_beta)
  then show ?case using "2.IH" [OF l w _ _ rest] "2.prems"(2) by simp
qed

lemma locks_step_inv:
  assumes "locks_step vts S S'" "\<And>i. vt_ok (vts i)" "\<And>i. lock_inv (vts i) (S i)"
  shows "lock_inv (vts i) (S' i)"
  using assms
proof (induction rule: locks_step.induct)
  case (one j x S l)
  then show ?case using Locked_exec_inv by fastforce
next
  case (multi S args S')
  then obtain S1 where S1: "std_lock mutex_lock (map fst args) S = Some S1"
    "MultiLocker_GetWriters vts [] args S1 = Some (Inr (None, S'))"
    by (auto simp: MultiLocker_Lock_def Option.bind_eq_Some_conv)
  moreover have "list_all (\<lambda>(i, a, b). fresh (S1 i) a \<and> fresh (S1 i) b) args"
    using multi(1) std_lock_fresh [OF S1(1)] by simp
  ultimately show ?case
    using MultiLocker_GetWriters_inv std_lock_waiting [OF multi(4) S1(1)] by blast
next
  case (multi_shared S args S')
  then obtain S1 where S1: "std_lock SharedOnlyMutex_lock (map fst args) S = Some S1"
    "MultiLocker_GetReaders args S1 = Some S'"
    by (auto simp: MultiLocker_LockShared_def Option.bind_eq_Some_conv)
  moreover have "list_all (\<lambda>(i, a). fresh (S1 i) a) args"
    using multi_shared(1) std_lock_fresh [OF S1(1)] by simp
  ultimately show ?case
    using MultiLocker_GetReaders_inv std_lock_waiting [OF multi_shared(4) S1(1)] by blast
qed

lemma locks_reach_inv:
  assumes "locks_reach vts S0 S" "locks_init vts S0" "\<And>i. vt_ok (vts i)"
  shows "lock_inv (vts i) (S i)"
  using assms
proof (induction arbitrary: i rule: locks_reach.induct)
  case start
  then obtain ob where "S0 i = new_Locked ob" "\<forall>b. vts i = Some b \<longrightarrow> \<not> ib_IsDirty b ob"
    unfolding locks_init_def by blast
  then show ?case by (simp add: lock_inv_new)
next
  case (more S S')
  then show ?case using locks_step_inv by blast
qed

section \<open>Giving locks back\<close>

lemma locks_reach_cell:
  assumes "locks_reach vts S (S(i := l))" "Locked_exec (vts i) x l = Some (Inr l')"
  shows "locks_reach vts S (S(i := l'))"
  using locks_reach.more [OF assms(1) locks_step.one [of vts i x "S(i := l)" l']] assms(2) by simp

lemma drop_reader:
  assumes "lock_inv (vts i) l" "locks_reach vts S (S(i := l))" "l_readers l a = Some r"
  shows "\<exists>l'. locks_reach vts S (S(i := l')) \<and> lock_inv (vts i) l' \<and>
     l_readers l' = (l_readers l)(a := None) \<and> l_writers l' = l_writers l"
  using assms
proof (induction "r_uses r" arbitrary: l r rule: less_induct)
  case less
  obtain l1 where l1: "Reader_drop a l = Inr l1" "lock_inv (vts i) l1"
    using InnerReader_drop_inv [OF less.prems(1,3)] by blast
  have reach: "locks_reach vts S (S(i := l1))"
    by (rule locks_reach_cell [OF less.prems(2), of "DropReader a"]) (simp add: l1)
  show ?case
  proof (cases "r_uses r \<le> 1")
    case True
    then have "l_readers l1 = (l_readers l)(a := None) \<and> l_writers l1 = l_writers l"
      using l1(1) less.prems(3) by (auto simp: Reader_drop_def InnerReader_dtor_def)
    then show ?thesis using l1(2) reach by blast
  next
    case False
    define r1 where "r1 = r\<lparr>r_uses := r_uses r - 1\<rparr>"
    have upd: "l_readers l1 = (l_readers l)(a := Some r1)" "l_writers l1 = l_writers l"
      using l1(1) less.prems(3) False by (auto simp: Reader_drop_def r1_def)
    have "r_uses r1 < r_uses r" using False by (simp add: r1_def)
    then show ?thesis using less.hyps [of r1 l1] l1(2) reach upd by simp
  qed
qed

lemma drop_readers:
  assumes "finite A" "lock_inv (vts i) l" "locks_reach vts S (S(i := l))" "dom (l_readers l) = A"
  shows "\<exists>l'. locks_reach vts S (S(i := l')) \<and> lock_inv (vts i) l' \<and>
     l_readers l' = Map.empty \<and> l_writers l' = l_writers l"
  using assms
proof (induction A arbitrary: l)
  case empty
  then show ?case by blast
next
  case (insert a A)
  then obtain r where "l_readers l a = Some r" by blast
  then obtain l1 where l1: "locks_reach vts S (S(i := l1))" "lock_inv (vts i) l1"
    "l_readers l1 = (l_readers l)(a := None)" "l_writers l1 = l_writers l"
    using drop_reader [OF insert.prems(1,2)] by blast
  have "dom (l_readers l1) = A" using l1(3) insert.prems(3) insert.hyps(2) by auto
  then show ?case using insert.IH [OF l1(2,1)] l1(4) by simp
qed

text \<open>A writer's destructor returns when the object's Commit does.\<close>

definition commit_total :: "'o IBatchable option \<Rightarrow> bool" where
  "commit_total v \<longleftrightarrow> (\<forall>b ob. v = Some b \<longrightarrow> (\<exists>ob'. ib_Commit b ob = Inr ob'))"

lemma InnerWriter_Commit_total: "commit_total v \<Longrightarrow> \<exists>ob'. InnerWriter_Commit v ob = Inr ob'"
  by (auto simp: InnerWriter_Commit_def commit_total_def split: option.splits)

lemma Writer_Clear_total:
  assumes inv: "lock_inv v l" and w: "l_writers l a = Some w" and tot: "commit_total v"
  shows "\<exists>l'. Writer_Clear v a l = Inr l' \<and> l_readers l' = l_readers l \<and>
    l_writers l' = (if w_uses w \<le> 1 then Map.empty else (l_writers l)(a \<mapsto> w\<lparr>w_uses := w_uses w - 1\<rparr>))"
proof -
  have ex: "m_exclusive (l_mutex l)" using lock_inv_exclusive [OF inv] w by auto
  have gone: "(l_writers l)(a := None) = Map.empty" by (rule sole_gone [OF lock_inv_sole [OF inv] w])
  obtain ob where "InnerWriter_Commit v (l_object l) = Inr ob" using InnerWriter_Commit_total [OF tot] by blast
  then show ?thesis
    using w ex gone by (auto simp: Writer_Clear_def InnerWriter_dtor_def mutex_unlock_def)
qed

lemma drop_writer:
  assumes "\<And>i. vt_ok (vts i)" "commit_total (vts i)"
    and "lock_inv (vts i) l" "locks_reach vts S (S(i := l))" "l_writers l a = Some w"
  shows "\<exists>l'. locks_reach vts S (S(i := l')) \<and> lock_inv (vts i) l' \<and>
     l_readers l' = l_readers l \<and> l_writers l' = Map.empty"
  using assms(3-)
proof (induction "w_uses w" arbitrary: l w rule: less_induct)
  case less
  obtain l1 where l1: "Writer_Clear (vts i) a l = Inr l1" "l_readers l1 = l_readers l"
    "l_writers l1 = (if w_uses w \<le> 1 then Map.empty else (l_writers l)(a \<mapsto> w\<lparr>w_uses := w_uses w - 1\<rparr>))"
    using Writer_Clear_total [OF less.prems(1,3) assms(2)] by blast
  have inv: "lock_inv (vts i) l1" by (rule Writer_Clear_inv [OF assms(1) less.prems(1) l1(1)])
  have reach: "locks_reach vts S (S(i := l1))"
    by (rule locks_reach_cell [OF less.prems(2), of "ClearWriter a"]) (simp add: l1)
  show ?case
  proof (cases "w_uses w \<le> 1")
    case True
    then show ?thesis using inv reach l1(2,3) by auto
  next
    case False
    then have "w_uses (w\<lparr>w_uses := w_uses w - 1\<rparr>) < w_uses w" by simp
    then show ?thesis using less.hyps [of "w\<lparr>w_uses := w_uses w - 1\<rparr>" l1] inv reach l1(2,3) False by simp
  qed
qed

lemma give_back:
  assumes "\<And>i. vt_ok (vts i)" "commit_total (vts i)" "lock_inv (vts i) (S i)"
  shows "\<exists>l. locks_reach vts S (S(i := l)) \<and> lock_inv (vts i) l \<and> l_readers l = Map.empty \<and> l_writers l = Map.empty"
proof -
  have "locks_reach vts S (S(i := S i))" by (simp add: locks_reach.start)
  then obtain l1 where l1: "locks_reach vts S (S(i := l1))" "lock_inv (vts i) l1" "l_readers l1 = Map.empty"
    using drop_readers [of _ vts i "S i" S] lock_inv_finite [OF assms(3)] assms(3) by blast
  show ?thesis
  proof (cases "l_writers l1 = Map.empty")
    case True
    then show ?thesis using l1 by blast
  next
    case False
    then obtain a w where "l_writers l1 a = Some w" by (auto simp: fun_eq_iff)
    then show ?thesis using drop_writer [OF assms(1,2) l1(2,1)] l1(3) by metis
  qed
qed

lemma Writer_Create_free:
  assumes inv: "lock_inv v l" and free: "l_readers l = Map.empty" "l_writers l = Map.empty"
  shows "\<exists>l'. Writer_Create v batched True a b l = Some l' \<and> l_writers l' a \<noteq> None"
proof -
  have "m_shared (l_mutex l) = 0"
    using lock_inv_shared [OF inv] free(1) by (simp add: locking_def)
  moreover have "\<not> m_exclusive (l_mutex l)" using lock_inv_exclusive [OF inv] free(2) by simp
  ultimately show ?thesis
    by (simp add: Writer_Create_def InnerWriter_ctor_def mutex_lock_def Reader_Create_def InnerReader_ctor_def)
qed

section \<open>Mutual exclusion and release\<close>


text \<open>A batchable object for examples: a pending value, a stored value, a dirty flag.\<close>

definition example_batchable :: "(nat \<times> nat \<times> bool) IBatchable" where
  "example_batchable = \<lparr>
     ib_Commit = (\<lambda>(p, v, d). Inr (p, p, d)), ib_Rollback = (\<lambda>(p, v, d). (v, v, d)),
     ib_OnInitWrite = id, ib_OnEndWrite = id,
     ib_IsDirty = (\<lambda>(p, v, d). d), ib_SetDirty = (\<lambda>d (p, v, _). (p, v, d))\<rparr>"

lemma example_batchable_ok: "batchable example_batchable"
  by unfold_locales (auto simp: example_batchable_def)

definition example_locks :: "(nat \<times> nat \<times> bool) locks" where
  "example_locks = (\<lambda>_. new_Locked (0, 0, False))"

definition example_written :: "(nat \<times> nat \<times> bool) Locked" where
  "example_written = \<lparr>l_object = (0, 0, True), l_mutex = \<lparr>m_exclusive = True, m_shared = 0\<rparr>,
     l_readers = [2 \<mapsto> \<lparr>r_unlock = False, r_uses = 1\<rparr>], l_writers = [1 \<mapsto> \<lparr>w_batched = True, w_uses = 1\<rparr>]\<rparr>"

lemma example_locks_init: "locks_init (\<lambda>_. Some example_batchable) example_locks"
  unfolding locks_init_def
  by (intro allI exI [of _ "(0, 0, False)"]) (simp add: example_locks_def example_batchable_def)

lemma example_reach:
  "locks_reach (\<lambda>_. Some example_batchable) example_locks (example_locks(0 := example_written))"
proof -
  have "Locked_exec (Some example_batchable) (OpBatchWrite 1 2) (example_locks 0) = Some (Inr example_written)"
    by (simp add: example_locks_def example_written_def new_Locked_def fresh_def Locked_BatchWrite_def
        Writer_Create_def InnerWriter_ctor_def InnerWriter_OnInitWrite_def Reader_Create_def InnerReader_ctor_def
        mutex_lock_def example_batchable_def)
  then show ?thesis
    by (intro locks_reach.more [OF locks_reach.start] locks_step.one [of _ 0 "OpBatchWrite 1 2"])
qed




text \<open>
  MultiLocker::Lock obtains its writers with BatchWrite. If the last of the locked objects is not
  batchable, the call throws after \<^verbatim>\<open>std::lock\<close> took all the mutexes: that object's mutex stays
  locked with no handle left to unlock it, and no later Read or Write on it returns.
\<close>

lemma MultiLocker_Lock_leaks:
  assumes "S i = new_Locked ob1" "S j = new_Locked ob2" "i \<noteq> j" "vts i = Some b1" "vts j = None"
  shows "\<exists>S'. MultiLocker_Lock vts [(i, a1, b1'), (j, a2, b2')] S = Some (Inr (Some BatchWrite_error, S')) \<and>
     m_exclusive (l_mutex (S' j)) \<and> l_readers (S' j) = Map.empty \<and> l_writers (S' j) = Map.empty \<and>
     \<not> m_exclusive (l_mutex (S' i)) \<and>
     (\<forall>a b. Locked_exec (vts j) (OpRead a) (S' j) = None \<and> Locked_exec (vts j) (OpWrite a b) (S' j) = None)"
  using assms
  by (simp add: MultiLocker_Lock_def std_lock_def new_Locked_def mutex_defs MultiLocker_GetWriter_def
      Locked_BatchWrite_adopt_def Writer_Create_def InnerWriter_ctor_def Reader_Create_def InnerReader_ctor_def
      Writer_drop_def Writer_Clear_def InnerWriter_dtor_def Reader_drop_def InnerReader_dtor_def
      Locked_Read_def Locked_Write_def)

section \<open>Sessions\<close>

text \<open>
  A session on an unlocked object: obtain a Writer, call mutating methods through it, drop it.
\<close>

definition session :: "'o IBatchable option \<Rightarrow> bool \<Rightarrow> ('o \<Rightarrow> 'o) list \<Rightarrow> 'o Locked \<Rightarrow> 'o Locked result option" where
  "session v batched fs l =
     (case Locked_exec v (if batched then OpBatchWrite 0 0 else OpWrite 0 0) l of
        None \<Rightarrow> None
      | Some (Inl e) \<Rightarrow> Some (Inl e)
      | Some (Inr l1) \<Rightarrow> Some (rbind (rfold (Writer_update 0) fs l1) (Writer_drop v 0 0)))"

definition unlocked :: "'o Locked \<Rightarrow> bool" where
  "unlocked l \<longleftrightarrow> l_readers l = Map.empty \<and> l_writers l = Map.empty \<and>
     l_mutex l = \<lparr>m_exclusive = False, m_shared = 0\<rparr>"

text \<open>What a session does to the object, with the locking stripped off.\<close>

definition session_object :: "'o IBatchable \<Rightarrow> bool \<Rightarrow> ('o \<Rightarrow> 'o) list \<Rightarrow> 'o \<Rightarrow> 'o result" where
  "session_object b batched fs ob =
     (let ob1 = fold (\<lambda>f. f) fs (ib_OnInitWrite b (ib_SetDirty b True ob)) in
      rbind (if batched then Inr (InnerWriter_Rollback (Some b) ob1) else InnerWriter_Commit (Some b) ob1)
        (\<lambda>ob2. Inr (ib_OnEndWrite b ob2)))"

lemma rfold_Writer_update:
  "l_writers l a \<noteq> None \<Longrightarrow> rfold (Writer_update a) fs l = Inr (l\<lparr>l_object := fold (\<lambda>f. f) fs (l_object l)\<rparr>)"
  by (induction fs arbitrary: l) (auto simp: Writer_update_def Writer_GetShared_def)

lemma session_unlocked:
  assumes "unlocked l"
  shows "session (Some b) batched fs l =
    Some (rbind (session_object b batched fs (l_object l)) (\<lambda>ob. Inr (l\<lparr>l_object := ob\<rparr>)))"
proof -
  obtain ob where l: "l = new_Locked ob"
    using assms by (cases l) (simp add: unlocked_def new_Locked_def)
  show ?thesis
    unfolding l session_def session_object_def
    by (cases batched)
      (simp_all add: new_Locked_def fresh_def Locked_BatchWrite_def Locked_Write_def Writer_Create_def
        InnerWriter_ctor_def Reader_Create_def InnerReader_ctor_def mutex_defs rfold_Writer_update
        InnerWriter_OnInitWrite_def Let_def Writer_drop_def Writer_Clear_def InnerWriter_dtor_def
        Reader_drop_def InnerReader_dtor_def InnerWriter_OnEndWrite_def rbind_assoc)
qed

lemma session_dirty:
  assumes "ob1 = fold (\<lambda>f. f) fs (ib_OnInitWrite b (ib_SetDirty b True ob))" "ib_IsDirty b ob1"
  shows "session_object b True fs ob = Inr (ib_OnEndWrite b (ib_SetDirty b False (ib_Rollback b ob1)))"
    and "session_object b False fs ob =
      rbind (ib_Commit b ob1) (\<lambda>ob2. Inr (ib_OnEndWrite b (ib_SetDirty b False ob2)))"
  using assms by (simp_all add: session_object_def Let_def InnerWriter_Rollback_def InnerWriter_Commit_def rbind_assoc)

text \<open>
  The contract of a transactional object. \<open>stored\<close> is the state that survives, \<open>view\<close> what reads see,
  \<open>change f g\<close> says that the method \<open>f\<close> means \<open>g\<close> on the state; \<open>idle\<close> and \<open>active\<close> tell whether a
  write is in progress.
\<close>

locale transactional = batchable +
  fixes idle active :: "'a \<Rightarrow> bool"
    and stored view :: "'a \<Rightarrow> 's"
    and change :: "('a \<Rightarrow> 'a) \<Rightarrow> ('s \<Rightarrow> 's) \<Rightarrow> bool"
  assumes begin_write:
      "idle ob \<Longrightarrow> ob' = ib_OnInitWrite ib (ib_SetDirty ib True ob) \<Longrightarrow>
         active ob' \<and> ib_IsDirty ib ob' \<and> stored ob' = stored ob \<and> view ob' = stored ob"
    and change_view:
      "change f g \<Longrightarrow> active ob \<Longrightarrow>
         active (f ob) \<and> ib_IsDirty ib (f ob) = ib_IsDirty ib ob \<and> stored (f ob) = stored ob \<and> view (f ob) = g (view ob)"
    and end_rollback:
      "active ob \<Longrightarrow> ob' = ib_OnEndWrite ib (ib_SetDirty ib False (ib_Rollback ib ob)) \<Longrightarrow>
         idle ob' \<and> stored ob' = stored ob"
    and end_commit:
      "active ob \<Longrightarrow> ib_Commit ib ob = Inr ob1 \<Longrightarrow> ob' = ib_OnEndWrite ib (ib_SetDirty ib False ob1) \<Longrightarrow>
         idle ob' \<and> stored ob' = view ob"
    and commit_again:
      "active ob \<Longrightarrow> ib_Commit ib ob = Inr ob1 \<Longrightarrow>
         active ob1 \<and> ib_IsDirty ib ob1 = ib_IsDirty ib ob \<and> stored ob1 = view ob"
begin

lemma changes_view:
  assumes "list_all2 change fs gs" "active ob"
  shows "active (fold (\<lambda>f. f) fs ob) \<and> ib_IsDirty ib (fold (\<lambda>f. f) fs ob) = ib_IsDirty ib ob \<and>
     stored (fold (\<lambda>f. f) fs ob) = stored ob \<and> view (fold (\<lambda>f. f) fs ob) = fold (\<lambda>g. g) gs (view ob)"
  using assms by (induction arbitrary: ob rule: list_all2_induct) (auto dest: change_view)

lemma session_rolls_back:
  assumes "unlocked l" "idle (l_object l)" "list_all2 change fs gs"
  shows "\<exists>ob. session (Some ib) True fs l = Some (Inr (l\<lparr>l_object := ob\<rparr>)) \<and> idle ob \<and> stored ob = stored (l_object l)"
proof -
  define ob1 where "ob1 = ib_OnInitWrite ib (ib_SetDirty ib True (l_object l))"
  have "active ob1" "ib_IsDirty ib ob1" "stored ob1 = stored (l_object l)"
    using begin_write [OF assms(2) ob1_def] by auto
  then have "active (fold (\<lambda>f. f) fs ob1)" "ib_IsDirty ib (fold (\<lambda>f. f) fs ob1)"
      "stored (fold (\<lambda>f. f) fs ob1) = stored (l_object l)"
    using changes_view [OF assms(3)] by auto
  then show ?thesis
    using end_rollback [OF _ refl] session_dirty(1) [of "fold (\<lambda>f. f) fs ob1" fs ib "l_object l"]
    unfolding session_unlocked [OF assms(1)] ob1_def by auto
qed

lemma session_commits:
  assumes "unlocked l" "idle (l_object l)" "list_all2 change fs gs"
    and "session (Some ib) False fs l = Some (Inr l')"
  shows "\<exists>ob. l' = l\<lparr>l_object := ob\<rparr> \<and> idle ob \<and> stored ob = fold (\<lambda>g. g) gs (stored (l_object l))"
proof -
  define ob1 where "ob1 = ib_OnInitWrite ib (ib_SetDirty ib True (l_object l))"
  have "active ob1" "ib_IsDirty ib ob1" "view ob1 = stored (l_object l)"
    using begin_write [OF assms(2) ob1_def] by auto
  then have a: "active (fold (\<lambda>f. f) fs ob1)" and d: "ib_IsDirty ib (fold (\<lambda>f. f) fs ob1)"
      and v: "view (fold (\<lambda>f. f) fs ob1) = fold (\<lambda>g. g) gs (stored (l_object l))"
    using changes_view [OF assms(3)] by auto
  have s: "session_object ib False fs (l_object l) =
      rbind (ib_Commit ib (fold (\<lambda>f. f) fs ob1)) (\<lambda>ob2. Inr (ib_OnEndWrite ib (ib_SetDirty ib False ob2)))"
    by (rule session_dirty(2) [OF _ d]) (simp add: ob1_def)
  have "rbind (session_object ib False fs (l_object l)) (\<lambda>ob. Inr (l\<lparr>l_object := ob\<rparr>)) = Inr l'"
    using assms(4) unfolding session_unlocked [OF assms(1)] by (rule option.inject [THEN iffD1])
  then have r: "rbind (ib_Commit ib (fold (\<lambda>f. f) fs ob1))
      (\<lambda>ob2. Inr (l\<lparr>l_object := ib_OnEndWrite ib (ib_SetDirty ib False ob2)\<rparr>)) = Inr l'"
    by (simp add: s rbind_assoc del: rbind_eq_Inr)
  show ?thesis
  proof (cases "ib_Commit ib (fold (\<lambda>f. f) fs ob1)")
    case (Inl e)
    then show ?thesis using r by (simp only: rbind_simps sum.distinct)
  next
    case (Inr ob2)
    then have "l' = l\<lparr>l_object := ib_OnEndWrite ib (ib_SetDirty ib False ob2)\<rparr>"
      using r by (simp only: rbind_simps sum.inject)
    moreover have "idle (ib_OnEndWrite ib (ib_SetDirty ib False ob2))"
      "stored (ib_OnEndWrite ib (ib_SetDirty ib False ob2)) = fold (\<lambda>g. g) gs (stored (l_object l))"
      using end_commit [OF a Inr refl] unfolding v by auto
    ultimately show ?thesis by (intro exI [of _ "ib_OnEndWrite ib (ib_SetDirty ib False ob2)"]) auto
  qed
qed

text \<open>A batched session that ends with an explicit Commit through the Writer keeps what it wrote.\<close>

lemma session_batch_commits:
  assumes "unlocked l" "idle (l_object l)" "list_all2 change fs gs"
    and "\<And>ob. active ob \<Longrightarrow> ib_Commit ib ob = Inr (commit ob)"
  shows "\<exists>ob. session (Some ib) True (fs @ [commit]) l = Some (Inr (l\<lparr>l_object := ob\<rparr>)) \<and>
     idle ob \<and> stored ob = fold (\<lambda>g. g) gs (stored (l_object l))"
proof -
  define ob1 where "ob1 = ib_OnInitWrite ib (ib_SetDirty ib True (l_object l))"
  have "active ob1" "ib_IsDirty ib ob1" "view ob1 = stored (l_object l)"
    using begin_write [OF assms(2) ob1_def] by auto
  then have a: "active (fold (\<lambda>f. f) fs ob1)" and d: "ib_IsDirty ib (fold (\<lambda>f. f) fs ob1)"
      and v: "view (fold (\<lambda>f. f) fs ob1) = fold (\<lambda>g. g) gs (stored (l_object l))"
    using changes_view [OF assms(3)] by auto
  define ob2 where "ob2 = commit (fold (\<lambda>f. f) fs ob1)"
  have "active ob2" "ib_IsDirty ib ob2" "stored ob2 = fold (\<lambda>g. g) gs (stored (l_object l))"
    using commit_again [OF a assms(4) [OF a]] d v by (auto simp: ob2_def)
  then show ?thesis
    using end_rollback [OF _ refl] session_dirty(1) [of ob2 "fs @ [commit]" ib "l_object l"]
    unfolding session_unlocked [OF assms(1)] ob2_def ob1_def by auto
qed

end

end
