(* ===== verification/MW_Db.thy ===== *)
theory MW_Db
  imports MW_Blocks MW_Lock MW_Files
begin

text \<open>
  src/db: OrderedMultimap, DBTable, DBEntry, DBTransaction, Database, DBFilterPolicy, ChainStore and
  BlockDB. LevelDB is a parameter: a record of the calls the sources make (Open, Get, Write of a batch), with
  its documented behaviour (a batch is applied in order, or not at all) as the locale \<open>leveldb_library\<close>.

  A transaction keeps the batch it will write and, by key, the objects it added, so that reads inside
  a transaction see its writes. The Database and the BlockDB that forwards to it are transactional
  objects in the sense of MW_Lock, which gives what a write session through a Locked<IBlockDB> commits
  and what it discards.
\<close>

section \<open>OrderedMultimap\<close>

record ('k, 'v) OrderedMultimap =
  om_map :: "'k \<Rightarrow> 'v list option"

definition new_OrderedMultimap :: "('k, 'v) OrderedMultimap" where
  "new_OrderedMultimap = \<lparr>om_map = (\<lambda>_. None)\<rparr>"

definition OrderedMultimap_insert :: "'k \<times> 'v \<Rightarrow> ('k, 'v) OrderedMultimap \<Rightarrow> ('k, 'v) OrderedMultimap" where
  "OrderedMultimap_insert p m = (case om_map m (fst p) of
       Some vs \<Rightarrow> m\<lparr>om_map := (om_map m)(fst p \<mapsto> vs @ [snd p])\<rparr>
     | None \<Rightarrow> m\<lparr>om_map := (om_map m)(fst p \<mapsto> [snd p])\<rparr>)"

definition OrderedMultimap_find_last :: "('k, 'v) OrderedMultimap \<Rightarrow> 'k \<Rightarrow> 'v option" where
  "OrderedMultimap_find_last m key = (case om_map m key of
       Some vs \<Rightarrow> if vs \<noteq> [] then Some (last vs) else None
     | None \<Rightarrow> None)"

definition OrderedMultimap_erase :: "'k \<Rightarrow> ('k, 'v) OrderedMultimap \<Rightarrow> ('k, 'v) OrderedMultimap" where
  "OrderedMultimap_erase key m = (case om_map m key of
       Some vs \<Rightarrow> if vs \<noteq> [] then m\<lparr>om_map := (om_map m)(key \<mapsto> take (length vs - 1) vs)\<rparr> else m
     | None \<Rightarrow> m)"

section \<open>LevelDB\<close>

datatype batch_op = BatchPut string bytes | BatchDelete string

record 'd leveldb =
  ldb_Open :: "fspath \<Rightarrow> fsys \<Rightarrow> string + 'd"
  ldb_Get :: "'d \<Rightarrow> string \<Rightarrow> bytes option"
  ldb_Write :: "batch_op list \<Rightarrow> 'd \<Rightarrow> string + 'd"

fun batch_op_apply :: "batch_op \<Rightarrow> (string \<Rightarrow> bytes option) \<Rightarrow> string \<Rightarrow> bytes option" where
  "batch_op_apply (BatchPut k v) f = f(k \<mapsto> v)"
| "batch_op_apply (BatchDelete k) f = f(k := None)"

definition batch_apply :: "batch_op list \<Rightarrow> (string \<Rightarrow> bytes option) \<Rightarrow> string \<Rightarrow> bytes option" where
  "batch_apply ops f = fold batch_op_apply ops f"

locale leveldb_library =
  fixes L :: "'d leveldb"
  assumes write_get: "ldb_Write L ops d = Inr d' \<Longrightarrow> ldb_Get L d' = batch_apply ops (ldb_Get L d)"

text \<open>A store in memory satisfies the contract.\<close>

definition memory_leveldb :: "(string \<Rightarrow> bytes option) leveldb" where
  "memory_leveldb = \<lparr>ldb_Open = (\<lambda>_ _. Inr (\<lambda>_. None)), ldb_Get = (\<lambda>d. d), ldb_Write = (\<lambda>ops d. Inr (batch_apply ops d))\<rparr>"

interpretation memory: leveldb_library memory_leveldb
  by unfold_locales (auto simp: memory_leveldb_def)

section \<open>DBTable, DBEntry and the serializable classes\<close>

record DBTable =
  tb_prefix :: char
  tb_allowDuplicates :: bool

definition new_DBTable :: "char \<Rightarrow> DBTable" where
  "new_DBTable prefix = \<lparr>tb_prefix = prefix, tb_allowDuplicates = False\<rparr>"

definition BuildKey :: "DBTable \<Rightarrow> string \<Rightarrow> string" where
  "BuildKey table itemKey = tb_prefix table # itemKey"

record 't DBEntry =
  de_key :: string
  de_item :: 't

text \<open>
  A class \<open>'t\<close> derived from ISerializable: how it serializes and reads itself, and the up- and
  downcast (\<^verbatim>\<open>dynamic_pointer_cast\<close>) between it and the pointers \<open>'v\<close> to ISerializable.
\<close>

record ('v, 't) serializable =
  sz_Serialize :: "'t \<Rightarrow> Serializer \<Rightarrow> Serializer"
  sz_Deserialize :: "'t reader"
  sz_up :: "'t \<Rightarrow> 'v"
  sz_cast :: "'v \<Rightarrow> 't option"

section \<open>DBTransaction\<close>

record 'v DBTransaction =
  tr_batch :: "batch_op list"
  tr_added :: "(string, 'v) OrderedMultimap"

definition new_DBTransaction :: "'v DBTransaction" where
  "new_DBTransaction = \<lparr>tr_batch = [], tr_added = new_OrderedMultimap\<rparr>"

definition DBTransaction_Put_entry ::
  "('v, 't) serializable \<Rightarrow> DBTable \<Rightarrow> 't DBEntry \<Rightarrow> 'v DBTransaction \<Rightarrow> 'v DBTransaction" where
  "DBTransaction_Put_entry T table entry t =
     (let key = BuildKey table (de_key entry);
          serializer = sz_Serialize T (de_item entry) new_Serializer
      in t\<lparr>tr_batch := tr_batch t @ [BatchPut key (m_serialized serializer)],
           tr_added := OrderedMultimap_insert (key, sz_up T (de_item entry)) (tr_added t)\<rparr>)"

definition DBTransaction_Put ::
  "('v, 't) serializable \<Rightarrow> DBTable \<Rightarrow> 't DBEntry list \<Rightarrow> 'v DBTransaction \<Rightarrow> 'v DBTransaction" where
  "DBTransaction_Put T table entries t = fold (DBTransaction_Put_entry T table) entries t"

text \<open>
  Reading an item from LevelDB. The callers are \<^verbatim>\<open>noexcept\<close>: an exception of Deserialize terminates the
  program (\<open>Inl\<close>).
\<close>

definition Get_stored ::
  "'d leveldb \<Rightarrow> ('v, 't) serializable \<Rightarrow> DBTable \<Rightarrow> string \<Rightarrow> 'd \<Rightarrow> 't DBEntry option result" where
  "Get_stored L T table key d =
     (case ldb_Get L d (BuildKey table key) of
        Some itemStr \<Rightarrow> rbind (sz_Deserialize T (new_Deserializer itemStr))
          (\<lambda>(item, _). Inr (Some \<lparr>de_key = key, de_item = item\<rparr>))
      | None \<Rightarrow> Inr None)"

definition DBTransaction_Get ::
  "'d leveldb \<Rightarrow> ('v, 't) serializable \<Rightarrow> DBTable \<Rightarrow> string \<Rightarrow> 'd \<Rightarrow> 'v DBTransaction \<Rightarrow> 't DBEntry option result" where
  "DBTransaction_Get L T table key d t =
     (case Option.bind (OrderedMultimap_find_last (tr_added t) (BuildKey table key)) (sz_cast T) of
        Some pObject \<Rightarrow> Inr (Some \<lparr>de_key = key, de_item = pObject\<rparr>)
      | None \<Rightarrow> Get_stored L T table key d)"

definition DBTransaction_Delete :: "DBTable \<Rightarrow> string \<Rightarrow> 'v DBTransaction \<Rightarrow> 'v DBTransaction" where
  "DBTransaction_Delete table key t =
     t\<lparr>tr_batch := tr_batch t @ [BatchDelete (BuildKey table key)],
       tr_added := OrderedMultimap_erase (BuildKey table key) (tr_added t)\<rparr>"

definition DBTransaction_Commit :: "'d leveldb \<Rightarrow> 'd \<Rightarrow> 'v DBTransaction \<Rightarrow> 'd result" where
  "DBTransaction_Commit L d t =
     (case ldb_Write L (tr_batch t) d of
        Inr d' \<Rightarrow> Inr d'
      | Inl status \<Rightarrow> Inl (DatabaseException (''Commit failed with status '' @ status)))"

section \<open>Database\<close>

record ('d, 'v) Database =
  db_pDB :: 'd
  db_pTx :: "'v DBTransaction option"

definition Database_Open :: "'d leveldb \<Rightarrow> fspath \<Rightarrow> fsys \<Rightarrow> (('d, 'v) Database \<times> fsys) result" where
  "Database_Open L path fs =
     rbind (FilePath_CreateDirIfMissing path fs) (\<lambda>fs.
       (case ldb_Open L path fs of
          Inl status \<Rightarrow> Inl (DatabaseException (''Open failed with status '' @ status))
        | Inr pDB \<Rightarrow> Inr (\<lparr>db_pDB = pDB, db_pTx = None\<rparr>, fs)))"

definition Database_Get ::
  "'d leveldb \<Rightarrow> ('v, 't) serializable \<Rightarrow> DBTable \<Rightarrow> string \<Rightarrow> ('d, 'v) Database \<Rightarrow> 't DBEntry option result" where
  "Database_Get L T table key db =
     (case db_pTx db of
        Some t \<Rightarrow> DBTransaction_Get L T table key (db_pDB db) t
      | None \<Rightarrow> Get_stored L T table key (db_pDB db))"

definition Database_Put ::
  "'d leveldb \<Rightarrow> ('v, 't) serializable \<Rightarrow> DBTable \<Rightarrow> 't DBEntry list \<Rightarrow> ('d, 'v) Database \<Rightarrow> ('d, 'v) Database result" where
  "Database_Put L T table entries db =
     (case db_pTx db of
        Some t \<Rightarrow> Inr (db\<lparr>db_pTx := Some (DBTransaction_Put T table entries t)\<rparr>)
      | None \<Rightarrow> rbind (DBTransaction_Commit L (db_pDB db) (DBTransaction_Put T table entries new_DBTransaction))
          (\<lambda>d. Inr (db\<lparr>db_pDB := d\<rparr>)))"

definition Database_OnInitWrite :: "('d, 'v) Database \<Rightarrow> ('d, 'v) Database" where
  "Database_OnInitWrite db = db\<lparr>db_pTx := Some new_DBTransaction\<rparr>"

definition Database_OnEndWrite :: "('d, 'v) Database \<Rightarrow> ('d, 'v) Database" where
  "Database_OnEndWrite db = db\<lparr>db_pTx := None\<rparr>"

definition Database_Commit :: "'d leveldb \<Rightarrow> ('d, 'v) Database \<Rightarrow> ('d, 'v) Database result" where
  "Database_Commit L db = (case db_pTx db of
       None \<Rightarrow> Inl UndefinedBehaviour
     | Some t \<Rightarrow> rbind (DBTransaction_Commit L (db_pDB db) t) (\<lambda>d. Inr (db\<lparr>db_pDB := d\<rparr>)))"

definition Database_Rollback :: "('d, 'v) Database \<Rightarrow> ('d, 'v) Database" where
  "Database_Rollback db = db\<lparr>db_pTx := None\<rparr>"

section \<open>DBFilterPolicy\<close>

text \<open>The Bloom filter of LevelDB, a parameter, is built and queried on the keys without their table prefix.\<close>

record filter_policy =
  fp_CreateFilter :: "string list \<Rightarrow> string"
  fp_KeyMayMatch :: "string \<Rightarrow> string \<Rightarrow> bool"

definition trim_prefix :: "string \<Rightarrow> string result" where
  "trim_prefix key = (case key of [] \<Rightarrow> Inl UndefinedBehaviour | c # cs \<Rightarrow> Inr cs)"

definition DBFilterPolicy_CreateFilter :: "filter_policy \<Rightarrow> string list \<Rightarrow> string result" where
  "DBFilterPolicy_CreateFilter P keys =
     rbind (rfold (\<lambda>key trimmed. rbind (trim_prefix key) (\<lambda>t. Inr (trimmed @ [t]))) keys [])
       (\<lambda>trimmed. Inr (fp_CreateFilter P trimmed))"

definition DBFilterPolicy_KeyMayMatch :: "filter_policy \<Rightarrow> string \<Rightarrow> string \<Rightarrow> bool result" where
  "DBFilterPolicy_KeyMayMatch P key flt = rbind (trim_prefix key) (\<lambda>t. Inr (fp_KeyMayMatch P t flt))"

section \<open>ChainStore\<close>

definition ChainStore_Load :: "fspath \<Rightarrow> unit" where
  "ChainStore_Load chainPath = ()"

definition ChainStore_GetHashByHeight :: "unit \<Rightarrow> u64 \<Rightarrow> Hash option" where
  "ChainStore_GetHashByHeight store height = None"

section \<open>BlockDB\<close>

text \<open>
  The objects a BlockDB stores, as pointers to ISerializable, and the downcast to each class.
\<close>

datatype ('h, 'k) stored = Header 'h | Block "('h, 'k) IBlock" | Utxo UTXO

record ('j, 'h, 'k) chain_classes =
  cc_header :: "('j, 'h) header_class"
  cc_kernel :: "('j, 'k) kernel_class"
  cc_block_Deserialize :: "('h, 'k) IBlock reader"

definition header_type :: "('j, 'h, 'k) chain_classes \<Rightarrow> (('h, 'k) stored, 'h) serializable" where
  "header_type C = \<lparr>sz_Serialize = H_Serialize (cc_header C), sz_Deserialize = IHeader_Deserialize (cc_header C),
     sz_up = Header, sz_cast = (\<lambda>v. case v of Header h \<Rightarrow> Some h | _ \<Rightarrow> None)\<rparr>"

definition block_type :: "bool \<Rightarrow> ('j, 'h, 'k) chain_classes \<Rightarrow> (('h, 'k) stored, ('h, 'k) IBlock) serializable" where
  "block_type be C = \<lparr>sz_Serialize = IBlock_Serialize be (cc_header C) (cc_kernel C), sz_Deserialize = cc_block_Deserialize C,
     sz_up = Block, sz_cast = (\<lambda>v. case v of Block b \<Rightarrow> Some b | _ \<Rightarrow> None)\<rparr>"

definition utxo_type :: "bool \<Rightarrow> (('h, 'k) stored, UTXO) serializable" where
  "utxo_type be = \<lparr>sz_Serialize = UTXO_Serialize be, sz_Deserialize = UTXO_Deserialize,
     sz_up = Utxo, sz_cast = (\<lambda>v. case v of Utxo u \<Rightarrow> Some u | _ \<Rightarrow> None)\<rparr>"

definition HEADER_TABLE :: DBTable where "HEADER_TABLE = new_DBTable (CHR ''H'')"
definition BLOCK_TABLE :: DBTable where "BLOCK_TABLE = new_DBTable (CHR ''B'')"
definition UTXO_TABLE :: DBTable where "UTXO_TABLE = \<lparr>tb_prefix = CHR ''U'', tb_allowDuplicates = True\<rparr>"

text \<open>\<open>bd_dirty\<close> is the flag of the IBatchable base; the chain store has no state.\<close>

record ('d, 'v) BlockDB =
  bd_pDatabase :: "('d, 'v) Database"
  bd_pChainStore :: unit
  bd_dirty :: bool

definition BlockDBFactory_Open ::
  "'d leveldb \<Rightarrow> fspath \<Rightarrow> fsys \<Rightarrow> (('d, 'v) BlockDB Locked \<times> fsys) result" where
  "BlockDBFactory_Open L chainPath fs =
     rbind (Database_Open L (FilePath_GetChild chainPath ''blocks'') fs) (\<lambda>(pDatabase, fs).
       Inr (new_Locked \<lparr>bd_pDatabase = pDatabase,
              bd_pChainStore = ChainStore_Load (FilePath_GetChild chainPath ''chain''), bd_dirty = False\<rparr>, fs))"

definition GetHeaderByHash ::
  "'d leveldb \<Rightarrow> ('j, 'h, 'k) chain_classes \<Rightarrow> Hash \<Rightarrow> ('d, ('h, 'k) stored) BlockDB \<Rightarrow> 'h option result" where
  "GetHeaderByHash L C h bd =
     rbind (Database_Get L (header_type C) HEADER_TABLE (BigInt_ToHex h) (bd_pDatabase bd))
       (\<lambda>pEntry. Inr (map_option de_item pEntry))"

fun GetHeadersByHash ::
  "'d leveldb \<Rightarrow> ('j, 'h, 'k) chain_classes \<Rightarrow> Hash list \<Rightarrow> ('d, ('h, 'k) stored) BlockDB \<Rightarrow> 'h list result" where
  "GetHeadersByHash L C [] bd = Inr []"
| "GetHeadersByHash L C (h # hs) bd =
     rbind (Database_Get L (header_type C) HEADER_TABLE (BigInt_ToHex h) (bd_pDatabase bd)) (\<lambda>pEntry.
     rbind (GetHeadersByHash L C hs bd) (\<lambda>headers.
       Inr (case pEntry of Some e \<Rightarrow> de_item e # headers | None \<Rightarrow> headers)))"

text \<open>The entry holds the header with its hash now cached.\<close>

definition ToHeaderEntry ::
  "(bytes \<Rightarrow> Hash) \<Rightarrow> ('j, 'z IHeader_scheme) header_class \<Rightarrow> 'z IHeader_scheme \<Rightarrow> 'z IHeader_scheme DBEntry" where
  "ToHeaderEntry B H pHeader =
     (case IHeader_GetHash B H pHeader of (h, pHeader) \<Rightarrow> \<lparr>de_key = BigInt_ToHex h, de_item = pHeader\<rparr>)"

definition ToBlockEntry ::
  "(bytes \<Rightarrow> Hash) \<Rightarrow> ('j, 'z IHeader_scheme) header_class \<Rightarrow> ('z IHeader_scheme, 'k) IBlock \<Rightarrow> ('z IHeader_scheme, 'k) IBlock DBEntry" where
  "ToBlockEntry B H pBlock =
     (case IHeader_GetHash B H (blk_header pBlock) of (h, pHeader) \<Rightarrow>
        \<lparr>de_key = BigInt_ToHex h, de_item = pBlock\<lparr>blk_header := pHeader\<rparr>\<rparr>)"

definition AddHeaders ::
  "'d leveldb \<Rightarrow> (bytes \<Rightarrow> Hash) \<Rightarrow> ('j, 'z IHeader_scheme, 'k) chain_classes \<Rightarrow> 'z IHeader_scheme list \<Rightarrow>
     ('d, ('z IHeader_scheme, 'k) stored) BlockDB \<Rightarrow> ('d, ('z IHeader_scheme, 'k) stored) BlockDB result" where
  "AddHeaders L B C headers bd =
     rbind (Database_Put L (header_type C) HEADER_TABLE (map (ToHeaderEntry B (cc_header C)) headers) (bd_pDatabase bd))
       (\<lambda>db. Inr (bd\<lparr>bd_pDatabase := db\<rparr>))"

definition AddHeader ::
  "'d leveldb \<Rightarrow> (bytes \<Rightarrow> Hash) \<Rightarrow> ('j, 'z IHeader_scheme, 'k) chain_classes \<Rightarrow> 'z IHeader_scheme \<Rightarrow>
     ('d, ('z IHeader_scheme, 'k) stored) BlockDB \<Rightarrow> ('d, ('z IHeader_scheme, 'k) stored) BlockDB result" where
  "AddHeader L B C pHeader bd =
     rbind (Database_Put L (header_type C) HEADER_TABLE [ToHeaderEntry B (cc_header C) pHeader] (bd_pDatabase bd))
       (\<lambda>db. Inr (bd\<lparr>bd_pDatabase := db\<rparr>))"

definition GetBlockByHash ::
  "'d leveldb \<Rightarrow> bool \<Rightarrow> ('j, 'h, 'k) chain_classes \<Rightarrow> Hash \<Rightarrow> ('d, ('h, 'k) stored) BlockDB \<Rightarrow> ('h, 'k) IBlock option result" where
  "GetBlockByHash L be C h bd =
     rbind (Database_Get L (block_type be C) BLOCK_TABLE (BigInt_ToHex h) (bd_pDatabase bd))
       (\<lambda>pEntry. Inr (map_option de_item pEntry))"

definition GetBlockByHeight ::
  "'d leveldb \<Rightarrow> bool \<Rightarrow> ('j, 'h, 'k) chain_classes \<Rightarrow> u64 \<Rightarrow> ('d, ('h, 'k) stored) BlockDB \<Rightarrow> ('h, 'k) IBlock option result" where
  "GetBlockByHeight L be C height bd =
     (case ChainStore_GetHashByHeight (bd_pChainStore bd) height of
        Some h \<Rightarrow> GetBlockByHash L be C h bd
      | None \<Rightarrow> Inr None)"

definition AddBlock ::
  "'d leveldb \<Rightarrow> (bytes \<Rightarrow> Hash) \<Rightarrow> bool \<Rightarrow> ('j, 'z IHeader_scheme, 'k) chain_classes \<Rightarrow> ('z IHeader_scheme, 'k) IBlock \<Rightarrow>
     ('d, ('z IHeader_scheme, 'k) stored) BlockDB \<Rightarrow> ('d, ('z IHeader_scheme, 'k) stored) BlockDB result" where
  "AddBlock L B be C pBlock bd =
     rbind (Database_Put L (block_type be C) BLOCK_TABLE [ToBlockEntry B (cc_header C) pBlock] (bd_pDatabase bd))
       (\<lambda>db. Inr (bd\<lparr>bd_pDatabase := db\<rparr>))"

definition RemoveOldBlocks :: "u64 \<Rightarrow> ('d, 'v) BlockDB \<Rightarrow> ('d, 'v) BlockDB" where
  "RemoveOldBlocks height bd = bd"

text \<open>
  \<^verbatim>\<open>insert\<close> of an unordered_map keeps the entry of a key that is already present.
\<close>

fun GetUTXOs ::
  "'d leveldb \<Rightarrow> bool \<Rightarrow> Commitment list \<Rightarrow> ('d, ('h, 'k) stored) BlockDB \<Rightarrow> (Commitment \<Rightarrow> UTXO option) \<Rightarrow> (Commitment \<Rightarrow> UTXO option) result" where
  "GetUTXOs L be [] bd utxos = Inr utxos"
| "GetUTXOs L be (c # cs) bd utxos =
     rbind (Database_Get L (utxo_type be) UTXO_TABLE (Commitment_ToHex c) (bd_pDatabase bd)) (\<lambda>pUTXO.
       GetUTXOs L be cs bd
         (case pUTXO of Some e \<Rightarrow> if utxos c = None then utxos(c \<mapsto> de_item e) else utxos | None \<Rightarrow> utxos))"

definition AddUTXOs :: "UTXO list \<Rightarrow> ('d, 'v) BlockDB \<Rightarrow> ('d, 'v) BlockDB" where
  "AddUTXOs utxos bd = bd"

definition RemoveUTXOs :: "Commitment list \<Rightarrow> ('d, 'v) BlockDB \<Rightarrow> ('d, 'v) BlockDB" where
  "RemoveUTXOs commitments bd = bd"

definition RemoveAllUTXOs :: "('d, 'v) BlockDB \<Rightarrow> ('d, 'v) BlockDB" where
  "RemoveAllUTXOs bd = bd"

definition BlockDB_Commit :: "'d leveldb \<Rightarrow> ('d, 'v) BlockDB \<Rightarrow> ('d, 'v) BlockDB result" where
  "BlockDB_Commit L bd = rbind (Database_Commit L (bd_pDatabase bd)) (\<lambda>db. Inr (bd\<lparr>bd_pDatabase := db\<rparr>))"

definition BlockDB_Rollback :: "('d, 'v) BlockDB \<Rightarrow> ('d, 'v) BlockDB" where
  "BlockDB_Rollback bd = bd\<lparr>bd_pDatabase := Database_Rollback (bd_pDatabase bd)\<rparr>"

definition BlockDB_OnInitWrite :: "('d, 'v) BlockDB \<Rightarrow> ('d, 'v) BlockDB" where
  "BlockDB_OnInitWrite bd = bd\<lparr>bd_pDatabase := Database_OnInitWrite (bd_pDatabase bd)\<rparr>"

definition BlockDB_OnEndWrite :: "('d, 'v) BlockDB \<Rightarrow> ('d, 'v) BlockDB" where
  "BlockDB_OnEndWrite bd = bd\<lparr>bd_pDatabase := Database_OnEndWrite (bd_pDatabase bd)\<rparr>"

definition BlockDB_batchable :: "'d leveldb \<Rightarrow> ('d, 'v) BlockDB IBatchable" where
  "BlockDB_batchable L = \<lparr>ib_Commit = BlockDB_Commit L, ib_Rollback = BlockDB_Rollback,
     ib_OnInitWrite = BlockDB_OnInitWrite, ib_OnEndWrite = BlockDB_OnEndWrite,
     ib_IsDirty = bd_dirty, ib_SetDirty = (\<lambda>d bd. bd\<lparr>bd_dirty := d\<rparr>)\<rparr>"

section \<open>The ordered multimap\<close>

lemma find_last_insert [simp]:
  "OrderedMultimap_find_last (OrderedMultimap_insert (k, v) m) k' =
     (if k' = k then Some v else OrderedMultimap_find_last m k')"
  by (auto simp: OrderedMultimap_find_last_def OrderedMultimap_insert_def split: option.splits)

text \<open>Erasing takes back the last insertion, and only that one.\<close>

lemma find_last_erase_insert [simp]:
  "OrderedMultimap_find_last (OrderedMultimap_erase k (OrderedMultimap_insert (k, v) m)) =
     OrderedMultimap_find_last m"
  by (rule ext) (auto simp: OrderedMultimap_find_last_def OrderedMultimap_insert_def OrderedMultimap_erase_def
      split: option.splits)

lemma find_last_new [simp]: "OrderedMultimap_find_last new_OrderedMultimap k = None"
  by (simp add: new_OrderedMultimap_def OrderedMultimap_find_last_def)

section \<open>Transactions\<close>

lemma batch_apply_Nil [simp]: "batch_apply [] f = f"
  by (simp add: batch_apply_def)

lemma batch_apply_append [simp]: "batch_apply (xs @ ys) f = batch_apply ys (batch_apply xs f)"
  by (simp add: batch_apply_def)

lemma BuildKey_eq [simp]:
  "BuildKey t k = BuildKey t' k' \<longleftrightarrow> tb_prefix t = tb_prefix t' \<and> k = k'"
  by (simp add: BuildKey_def)

text \<open>The batch a Put adds, and the last entry it holds for a key.\<close>

definition put_ops :: "('v, 't) serializable \<Rightarrow> DBTable \<Rightarrow> 't DBEntry list \<Rightarrow> batch_op list" where
  "put_ops T table entries =
     map (\<lambda>e. BatchPut (BuildKey table (de_key e)) (Serialized (sz_Serialize T (de_item e)))) entries"

definition put_last :: "'t DBEntry list \<Rightarrow> string \<Rightarrow> 't option" where
  "put_last entries key = map_option de_item (find (\<lambda>e. de_key e = key) (rev entries))"

lemma put_last_simps [simp]:
  "put_last [] key = None"
  "put_last (es @ [e]) key = (if de_key e = key then Some (de_item e) else put_last es key)"
  by (simp_all add: put_last_def)

lemma DBTransaction_Put_snoc:
  "DBTransaction_Put T table (es @ [e]) t = DBTransaction_Put_entry T table e (DBTransaction_Put T table es t)"
  by (simp add: DBTransaction_Put_def)

lemma DBTransaction_Put_batch:
  "tr_batch (DBTransaction_Put T table es t) = tr_batch t @ put_ops T table es"
  by (induction es rule: rev_induct)
    (simp_all add: DBTransaction_Put_snoc DBTransaction_Put_entry_def put_ops_def Serialized_def Let_def DBTransaction_Put_def)

lemma DBTransaction_Put_added:
  "OrderedMultimap_find_last (tr_added (DBTransaction_Put T table es t)) K =
     (case K of [] \<Rightarrow> OrderedMultimap_find_last (tr_added t) K
      | c # key \<Rightarrow> if c = tb_prefix table \<and> put_last es key \<noteq> None then map_option (sz_up T) (put_last es key)
          else OrderedMultimap_find_last (tr_added t) K)"
proof (induction es rule: rev_induct)
  case Nil
  then show ?case by (simp add: DBTransaction_Put_def split: list.split)
next
  case (snoc e es)
  then show ?case
    by (auto simp: DBTransaction_Put_snoc DBTransaction_Put_entry_def Let_def BuildKey_def split: list.splits)
qed

lemma put_ops_apply:
  "batch_apply (put_ops T table es) f (BuildKey table key) =
     (case put_last es key of Some x \<Rightarrow> Some (Serialized (sz_Serialize T x)) | None \<Rightarrow> f (BuildKey table key))"
  by (induction es rule: rev_induct) (simp_all add: put_ops_def batch_apply_def)

lemma put_ops_other:
  "tb_prefix table \<noteq> tb_prefix table' \<Longrightarrow> batch_apply (put_ops T table es) f (BuildKey table' key) = f (BuildKey table' key)"
  by (induction es rule: rev_induct) (simp_all add: put_ops_def batch_apply_def)

text \<open>Inside a transaction, reads see its writes first.\<close>

lemma DBTransaction_Get_Put:
  assumes "\<And>x. sz_cast T (sz_up T x) = Some x"
  shows "DBTransaction_Get L T table key d (DBTransaction_Put T table es t) =
    (case put_last es key of
       Some x \<Rightarrow> Inr (Some \<lparr>de_key = key, de_item = x\<rparr>)
     | None \<Rightarrow> DBTransaction_Get L T table key d t)"
  using assms by (auto simp: DBTransaction_Get_def DBTransaction_Put_added BuildKey_def split: option.splits)

text \<open>
  A Delete undoes only the last Put of the transaction for its reads, while the batch deletes the key: after two
  Puts and a Delete, Get returns the first value, but Commit leaves none.
\<close>

lemma DBTransaction_Delete_stale:
  assumes "\<And>x. sz_cast T (sz_up T x) = Some x"
    and "t = DBTransaction_Delete table key
      (DBTransaction_Put T table [\<lparr>de_key = key, de_item = x\<rparr>, \<lparr>de_key = key, de_item = y\<rparr>] new_DBTransaction)"
  shows "DBTransaction_Get L T table key d t = Inr (Some \<lparr>de_key = key, de_item = x\<rparr>)"
    and "batch_apply (tr_batch t) f (BuildKey table key) = None"
  using assms
  by (simp_all add: DBTransaction_Delete_def DBTransaction_Put_def DBTransaction_Put_entry_def new_DBTransaction_def
      DBTransaction_Get_def Let_def batch_apply_def)

section \<open>The database\<close>

definition Database_stored :: "'d leveldb \<Rightarrow> ('d, 'v) Database \<Rightarrow> string \<Rightarrow> bytes option" where
  "Database_stored L db = ldb_Get L (db_pDB db)"

definition Database_view :: "'d leveldb \<Rightarrow> ('d, 'v) Database \<Rightarrow> string \<Rightarrow> bytes option" where
  "Database_view L db =
     (case db_pTx db of Some t \<Rightarrow> batch_apply (tr_batch t) (ldb_Get L (db_pDB db)) | None \<Rightarrow> ldb_Get L (db_pDB db))"

lemma Database_Put_tx:
  assumes "db_pTx db = Some t"
  shows "Database_Put L T table es db = Inr (db\<lparr>db_pTx := Some (DBTransaction_Put T table es t)\<rparr>)"
  using assms by (simp add: Database_Put_def)

lemma Database_Put_view:
  assumes "leveldb_library L" "Database_Put L T table es db = Inr db'"
  shows "Database_view L db' = batch_apply (put_ops T table es) (Database_view L db)"
proof (cases "db_pTx db")
  case None
  then obtain d where "ldb_Write L (put_ops T table es) (db_pDB db) = Inr d" "db' = db\<lparr>db_pDB := d\<rparr>"
    using assms(2)
    by (auto simp: Database_Put_def DBTransaction_Commit_def DBTransaction_Put_batch new_DBTransaction_def split: sum.splits)
  then show ?thesis using leveldb_library.write_get [OF assms(1)] None by (simp add: Database_view_def)
next
  case (Some t)
  then show ?thesis using assms(2) by (auto simp: Database_Put_tx Database_view_def DBTransaction_Put_batch)
qed

lemma Database_Get_Put:
  assumes "leveldb_library L" "\<And>x. sz_cast T (sz_up T x) = Some x" "Database_Put L T table es db = Inr db'"
  shows "Database_Get L T table key db' =
    (case put_last es key of
       Some x \<Rightarrow> if db_pTx db = None
         then rbind (sz_Deserialize T (new_Deserializer (Serialized (sz_Serialize T x))))
           (\<lambda>(item, _). Inr (Some \<lparr>de_key = key, de_item = item\<rparr>))
         else Inr (Some \<lparr>de_key = key, de_item = x\<rparr>)
     | None \<Rightarrow> Database_Get L T table key db)"
proof (cases "db_pTx db")
  case None
  then have tx: "db_pTx db' = None"
    using assms(3) by (auto simp: Database_Put_def split: option.splits)
  have "ldb_Get L (db_pDB db') = batch_apply (put_ops T table es) (ldb_Get L (db_pDB db))"
    using Database_Put_view [OF assms(1,3)] None tx by (simp add: Database_view_def)
  then show ?thesis
    using None tx by (simp add: Database_Get_def Get_stored_def put_ops_apply split: option.splits)
next
  case (Some t)
  then show ?thesis
    using assms(3) by (auto simp: Database_Put_tx Database_Get_def DBTransaction_Get_Put [OF assms(2)] split: option.splits)
qed

section \<open>Headers of a BlockDB\<close>

text \<open>A header without its cached hash, and what a lookup returns up to that cache.\<close>

definition plain :: "'z IHeader_scheme \<Rightarrow> 'z IHeader_scheme" where
  "plain h = h\<lparr>hd_hash := None\<rparr>"

definition plain_result :: "'z IHeader_scheme option result \<Rightarrow> 'z IHeader_scheme option result" where
  "plain_result r = rbind r (\<lambda>x. Inr (map_option plain x))"

text \<open>
  What BlockDB relies on from the header class: the codec contract on headers without cached hash, and
  that serialization does not depend on the cache.
\<close>

definition header_contract ::
  "('j, 'z IHeader_scheme) header_class \<Rightarrow> ('z IHeader_scheme \<Rightarrow> bytes) \<Rightarrow> ('z IHeader_scheme \<Rightarrow> bool) \<Rightarrow> bool" where
  "header_contract H henc hvalid \<longleftrightarrow>
     codec (H_Serialize H) (H_Deserialize H) henc hvalid \<and>
     (\<forall>h x. H_Serialize H (h\<lparr>hd_hash := x\<rparr>) = H_Serialize H h)"

lemma plain_roundtrip:
  assumes "header_contract H henc hvalid" "hvalid (plain h)" "length (Serialized (H_Serialize H h)) < 2 ^ 63"
  shows "\<exists>d. H_Deserialize H (new_Deserializer (Serialized (H_Serialize H h))) = Inr (plain h, d)"
proof -
  have c: "codec (H_Serialize H) (H_Deserialize H) henc hvalid" using assms(1) by (simp add: header_contract_def)
  have ser: "H_Serialize H h = H_Serialize H (plain h)" using assms(1) by (simp add: plain_def header_contract_def)
  show ?thesis
    using codec.roundtrip [OF c assms(2), of "[]"] assms(3)
    unfolding ser codec.Serialized_enc [OF c] by auto
qed

definition header_hash :: "(bytes \<Rightarrow> Hash) \<Rightarrow> ('j, 'z IHeader_scheme) header_class \<Rightarrow> 'z IHeader_scheme \<Rightarrow> Hash" where
  "header_hash B H h = B (Serialized (H_Serialize H h))"

definition header_storable :: "(bytes \<Rightarrow> Hash) \<Rightarrow> ('j, 'z IHeader_scheme) header_class \<Rightarrow> ('z IHeader_scheme \<Rightarrow> bool) \<Rightarrow> 'z IHeader_scheme \<Rightarrow> bool" where
  "header_storable B H hvalid h \<longleftrightarrow>
     header_hash_ok B H h \<and> hvalid (plain h) \<and> length (Serialized (H_Serialize H h)) < 2 ^ 63"

lemma ToHeaderEntry_key: "header_hash_ok B H h \<Longrightarrow> de_key (ToHeaderEntry B H h) = BigInt_ToHex (header_hash B H h)"
  using IHeader_GetHash_fst [of B H h] by (auto simp: ToHeaderEntry_def header_hash_def split: prod.split)

lemma ToHeaderEntry_item: "plain (de_item (ToHeaderEntry B H h)) = plain h"
  by (auto simp: ToHeaderEntry_def IHeader_GetHash_def Let_def plain_def split: prod.splits option.splits)

lemma BigInt_ToHex_inject: "BigInt_ToHex a = BigInt_ToHex b \<longleftrightarrow> a = b"
  by (cases a, cases b) (simp add: BigInt_ToHex_def ToHex_inject)

lemma put_last_headers:
  assumes "list_all (header_hash_ok B H) hs"
  shows "put_last (map (ToHeaderEntry B H) hs) (BigInt_ToHex h) =
    map_option (\<lambda>x. de_item (ToHeaderEntry B H x)) (find (\<lambda>x. header_hash B H x = h) (rev hs))"
  using assms
  by (induction hs rule: rev_induct) (simp_all add: ToHeaderEntry_key BigInt_ToHex_inject)

lemma find_in_set: "find P xs = Some x \<Longrightarrow> x \<in> set xs \<and> P x"
  by (induction xs) (auto split: if_splits)

lemma header_type_cast: "sz_cast (header_type C) (sz_up (header_type C) x) = Some x"
  by (simp add: header_type_def)

lemma AddHeaders_GetHeader:
  assumes "leveldb_library L" "header_contract (cc_header C) henc hvalid"
    and hs: "list_all (header_storable B (cc_header C) hvalid) hs"
    and add: "AddHeaders L B C hs bd = Inr bd'"
  shows "plain_result (GetHeaderByHash L C h bd') =
    (case find (\<lambda>x. header_hash B (cc_header C) x = h) (rev hs) of
       Some x \<Rightarrow> Inr (Some (plain x))
     | None \<Rightarrow> plain_result (GetHeaderByHash L C h bd))"
proof -
  let ?H = "cc_header C" and ?T = "header_type C"
  let ?es = "map (ToHeaderEntry B ?H) hs"
  obtain db where db: "Database_Put L ?T HEADER_TABLE ?es (bd_pDatabase bd) = Inr db" "bd' = bd\<lparr>bd_pDatabase := db\<rparr>"
    using add by (auto simp: AddHeaders_def)
  have ok: "list_all (header_hash_ok B ?H) hs" using hs by (simp add: list_all_iff header_storable_def)
  note get = Database_Get_Put [OF assms(1) header_type_cast db(1), of "BigInt_ToHex h"]
  show ?thesis
  proof (cases "find (\<lambda>x. header_hash B ?H x = h) (rev hs)")
    case None
    then show ?thesis using get put_last_headers [OF ok, of h] by (simp add: GetHeaderByHash_def db(2))
  next
    case (Some x)
    define y where "y = de_item (ToHeaderEntry B ?H x)"
    have y: "plain y = plain x" by (simp add: y_def ToHeaderEntry_item)
    have "header_storable B ?H hvalid x" using find_in_set [OF Some] hs by (simp add: list_all_iff)
    moreover have "H_Serialize ?H y = H_Serialize ?H x"
      using y assms(2) unfolding header_contract_def by (metis plain_def)
    ultimately obtain d where d: "H_Deserialize ?H (new_Deserializer (Serialized (H_Serialize ?H y))) = Inr (plain y, d)"
      using plain_roundtrip [OF assms(2), of y] y by (auto simp: header_storable_def)
    have "put_last ?es (BigInt_ToHex h) = Some y" using put_last_headers [OF ok, of h] Some by (simp add: y_def)
    then show ?thesis
      using get d Some y
      by (auto simp: GetHeaderByHash_def db(2) plain_result_def header_type_def IHeader_Deserialize_def plain_def)
  qed
qed

section \<open>The BlockDB as a transactional object\<close>

interpretation BlockDB_batch: batchable "BlockDB_batchable L" for L :: "'d leveldb"
  by unfold_locales (simp_all add: BlockDB_batchable_def BlockDB_OnEndWrite_def)

text \<open>
  The calls that change a BlockDB. Inside a write session they cannot fail.
\<close>

datatype ('h, 'k) db_call = CallAddHeaders "'h list" | CallAddBlock "('h, 'k) IBlock"

definition db_call_run ::
  "'d leveldb \<Rightarrow> (bytes \<Rightarrow> Hash) \<Rightarrow> bool \<Rightarrow> ('j, 'z IHeader_scheme, 'k) chain_classes \<Rightarrow> ('z IHeader_scheme, 'k) db_call \<Rightarrow>
     ('d, ('z IHeader_scheme, 'k) stored) BlockDB \<Rightarrow> ('d, ('z IHeader_scheme, 'k) stored) BlockDB result" where
  "db_call_run L B be C c bd = (case c of
       CallAddHeaders hs \<Rightarrow> AddHeaders L B C hs bd
     | CallAddBlock b \<Rightarrow> AddBlock L B be C b bd)"

definition db_call_ops ::
  "(bytes \<Rightarrow> Hash) \<Rightarrow> bool \<Rightarrow> ('j, 'z IHeader_scheme, 'k) chain_classes \<Rightarrow> ('z IHeader_scheme, 'k) db_call \<Rightarrow> batch_op list" where
  "db_call_ops B be C c = (case c of
       CallAddHeaders hs \<Rightarrow> put_ops (header_type C) HEADER_TABLE (map (ToHeaderEntry B (cc_header C)) hs)
     | CallAddBlock b \<Rightarrow> put_ops (block_type be C) BLOCK_TABLE [ToBlockEntry B (cc_header C) b])"

definition BlockDB_call ::
  "'d leveldb \<Rightarrow> (bytes \<Rightarrow> Hash) \<Rightarrow> bool \<Rightarrow> ('j, 'z IHeader_scheme, 'k) chain_classes \<Rightarrow> ('z IHeader_scheme, 'k) db_call \<Rightarrow>
     ('d, ('z IHeader_scheme, 'k) stored) BlockDB \<Rightarrow> ('d, ('z IHeader_scheme, 'k) stored) BlockDB" where
  "BlockDB_call L B be C c bd = (case db_call_run L B be C c bd of Inr bd' \<Rightarrow> bd' | Inl _ \<Rightarrow> bd)"

definition BlockDB_active :: "('d, 'v) BlockDB \<Rightarrow> bool" where
  "BlockDB_active bd \<longleftrightarrow> db_pTx (bd_pDatabase bd) \<noteq> None"

definition BlockDB_change ::
  "'d leveldb \<Rightarrow> (bytes \<Rightarrow> Hash) \<Rightarrow> bool \<Rightarrow> ('j, 'z IHeader_scheme, 'k) chain_classes \<Rightarrow>
     (('d, ('z IHeader_scheme, 'k) stored) BlockDB \<Rightarrow> ('d, ('z IHeader_scheme, 'k) stored) BlockDB) \<Rightarrow>
     ((string \<Rightarrow> bytes option) \<Rightarrow> string \<Rightarrow> bytes option) \<Rightarrow> bool" where
  "BlockDB_change L B be C f g \<longleftrightarrow>
     (\<exists>c. f = BlockDB_call L B be C c \<and> g = batch_apply (db_call_ops B be C c))"

lemma Put_active:
  assumes "db_pTx db = Some t"
  shows "\<exists>t'. Database_Put L T table es db = Inr (db\<lparr>db_pTx := Some t'\<rparr>) \<and> tr_batch t' = tr_batch t @ put_ops T table es"
  using Database_Put_tx [OF assms] DBTransaction_Put_batch by blast

lemma BlockDB_call_active:
  assumes "db_pTx (bd_pDatabase bd) = Some t"
  shows "\<exists>t'. db_call_run L B be C c bd = Inr (bd\<lparr>bd_pDatabase := (bd_pDatabase bd)\<lparr>db_pTx := Some t'\<rparr>\<rparr>) \<and>
     tr_batch t' = tr_batch t @ db_call_ops B be C c"
proof (cases c)
  case (CallAddHeaders hs)
  then show ?thesis
    using Put_active [OF assms, of L "header_type C" HEADER_TABLE "map (ToHeaderEntry B (cc_header C)) hs"]
    by (auto simp: db_call_run_def db_call_ops_def AddHeaders_def)
next
  case (CallAddBlock b)
  then show ?thesis
    using Put_active [OF assms, of L "block_type be C" BLOCK_TABLE "[ToBlockEntry B (cc_header C) b]"]
    by (auto simp: db_call_run_def db_call_ops_def AddBlock_def)
qed

lemma BlockDB_change_view:
  assumes "BlockDB_change L B be C f g" "BlockDB_active bd"
  shows "BlockDB_active (f bd) \<and> bd_dirty (f bd) = bd_dirty bd \<and>
     Database_stored L (bd_pDatabase (f bd)) = Database_stored L (bd_pDatabase bd) \<and>
     Database_view L (bd_pDatabase (f bd)) = g (Database_view L (bd_pDatabase bd))"
proof -
  obtain c where c: "f = BlockDB_call L B be C c" "g = batch_apply (db_call_ops B be C c)"
    using assms(1) by (auto simp: BlockDB_change_def)
  obtain t where t: "db_pTx (bd_pDatabase bd) = Some t" using assms(2) by (auto simp: BlockDB_active_def)
  show ?thesis
    using BlockDB_call_active [OF t, of L B be C c] t
    by (auto simp: c BlockDB_call_def BlockDB_active_def Database_stored_def Database_view_def)
qed

lemma BlockDB_Commit_active:
  assumes "leveldb_library L" "BlockDB_active bd" "BlockDB_Commit L bd = Inr bd'"
  shows "BlockDB_active bd' \<and> bd_dirty bd' = bd_dirty bd \<and>
    Database_stored L (bd_pDatabase bd') = Database_view L (bd_pDatabase bd)"
proof -
  obtain t where t: "db_pTx (bd_pDatabase bd) = Some t" using assms(2) by (auto simp: BlockDB_active_def)
  then obtain d where "ldb_Write L (tr_batch t) (db_pDB (bd_pDatabase bd)) = Inr d"
      "bd' = bd\<lparr>bd_pDatabase := (bd_pDatabase bd)\<lparr>db_pDB := d\<rparr>\<rparr>"
    using assms(3) by (auto simp: BlockDB_Commit_def Database_Commit_def DBTransaction_Commit_def split: sum.splits)
  then show ?thesis
    using leveldb_library.write_get [OF assms(1)] t by (simp add: BlockDB_active_def Database_stored_def Database_view_def)
qed

lemma BlockDB_transactional:
  fixes L :: "'d leveldb" and C :: "('j, 'z IHeader_scheme, 'k) chain_classes"
  assumes "leveldb_library L"
  shows "transactional (BlockDB_batchable L) (\<lambda>bd. \<not> BlockDB_active bd) BlockDB_active
     (\<lambda>bd. Database_stored L (bd_pDatabase bd)) (\<lambda>bd. Database_view L (bd_pDatabase bd)) (BlockDB_change L B be C)"
proof unfold_locales
  note [simp] = BlockDB_batchable_def BlockDB_OnInitWrite_def Database_OnInitWrite_def BlockDB_active_def
    Database_stored_def Database_view_def new_DBTransaction_def BlockDB_OnEndWrite_def Database_OnEndWrite_def
    BlockDB_Rollback_def Database_Rollback_def
  fix ob ob' ob1 :: "('d, ('z IHeader_scheme, 'k) stored) BlockDB"
  show "BlockDB_active ob' \<and> ib_IsDirty (BlockDB_batchable L) ob' \<and>
      Database_stored L (bd_pDatabase ob') = Database_stored L (bd_pDatabase ob) \<and>
      Database_view L (bd_pDatabase ob') = Database_stored L (bd_pDatabase ob)"
    if "ob' = ib_OnInitWrite (BlockDB_batchable L) (ib_SetDirty (BlockDB_batchable L) True ob)"
    using that by simp
  show "\<not> BlockDB_active ob' \<and> Database_stored L (bd_pDatabase ob') = Database_stored L (bd_pDatabase ob)"
    if "ob' = ib_OnEndWrite (BlockDB_batchable L) (ib_SetDirty (BlockDB_batchable L) False (ib_Rollback (BlockDB_batchable L) ob))"
    using that by simp
next
  fix f g and ob :: "('d, ('z IHeader_scheme, 'k) stored) BlockDB"
  assume "BlockDB_change L B be C f g" "BlockDB_active ob"
  from BlockDB_change_view [OF this]
  show "BlockDB_active (f ob) \<and> ib_IsDirty (BlockDB_batchable L) (f ob) = ib_IsDirty (BlockDB_batchable L) ob \<and>
      Database_stored L (bd_pDatabase (f ob)) = Database_stored L (bd_pDatabase ob) \<and>
      Database_view L (bd_pDatabase (f ob)) = g (Database_view L (bd_pDatabase ob))"
    by (simp add: BlockDB_batchable_def)
next
  fix ob ob1 ob' :: "('d, ('z IHeader_scheme, 'k) stored) BlockDB"
  assume a: "BlockDB_active ob" "ib_Commit (BlockDB_batchable L) ob = Inr ob1"
  then have c: "BlockDB_Commit L ob = Inr ob1" by (simp add: BlockDB_batchable_def)
  note r = BlockDB_Commit_active [OF assms a(1) c]
  show "BlockDB_active ob1 \<and> ib_IsDirty (BlockDB_batchable L) ob1 = ib_IsDirty (BlockDB_batchable L) ob \<and>
      Database_stored L (bd_pDatabase ob1) = Database_view L (bd_pDatabase ob)"
    using r by (simp add: BlockDB_batchable_def)
  show "\<not> BlockDB_active ob' \<and> Database_stored L (bd_pDatabase ob') = Database_view L (bd_pDatabase ob)"
    if "ob' = ib_OnEndWrite (BlockDB_batchable L) (ib_SetDirty (BlockDB_batchable L) False ob1)"
    using that r by (simp add: BlockDB_batchable_def BlockDB_OnEndWrite_def Database_OnEndWrite_def BlockDB_active_def Database_stored_def)
qed

sublocale leveldb_library \<subseteq> BlockDB: transactional "BlockDB_batchable L" "\<lambda>bd. \<not> BlockDB_active bd" BlockDB_active
    "\<lambda>bd. Database_stored L (bd_pDatabase bd)" "\<lambda>bd. Database_view L (bd_pDatabase bd)" "BlockDB_change L B be C"
  for B be and C :: "('j, 'z IHeader_scheme, 'k) chain_classes"
  by (rule BlockDB_transactional) (rule leveldb_library_axioms)

section \<open>Properties\<close>

lemma changes_of_calls:
  "list_all2 (BlockDB_change L B be C) (map (BlockDB_call L B be C) cs) (map (\<lambda>c. batch_apply (db_call_ops B be C c)) cs)"
  by (induction cs) (auto simp: BlockDB_change_def)

lemma fold_calls:
  "fold (\<lambda>g. g) (map (\<lambda>c. batch_apply (db_call_ops B be C c)) cs) f = batch_apply (concat (map (db_call_ops B be C) cs)) f"
  by (induction cs arbitrary: f) simp_all

lemma fold_calls_batch:
  assumes "db_pTx (bd_pDatabase bd) = Some t"
  shows "\<exists>t'. fold (\<lambda>f. f) (map (BlockDB_call L B be C) cs) bd =
      bd\<lparr>bd_pDatabase := (bd_pDatabase bd)\<lparr>db_pTx := Some t'\<rparr>\<rparr> \<and>
    tr_batch t' = tr_batch t @ concat (map (db_call_ops B be C) cs)"
  using assms
proof (induction cs arbitrary: bd t)
  case Nil
  then have "bd\<lparr>bd_pDatabase := (bd_pDatabase bd)\<lparr>db_pTx := Some t\<rparr>\<rparr> = bd"
    by (cases bd, cases "bd_pDatabase bd") simp
  then show ?case by (intro exI [of _ t]) simp
next
  case (Cons c cs)
  obtain t1 where t1: "db_call_run L B be C c bd = Inr (bd\<lparr>bd_pDatabase := (bd_pDatabase bd)\<lparr>db_pTx := Some t1\<rparr>\<rparr>)"
      "tr_batch t1 = tr_batch t @ db_call_ops B be C c"
    using BlockDB_call_active [OF Cons.prems] by blast
  define bd1 where "bd1 = bd\<lparr>bd_pDatabase := (bd_pDatabase bd)\<lparr>db_pTx := Some t1\<rparr>\<rparr>"
  have "db_pTx (bd_pDatabase bd1) = Some t1" by (simp add: bd1_def)
  from Cons.IH [OF this] show ?case
    using t1 by (auto simp: BlockDB_call_def bd1_def)
qed

lemma session_write_total:
  assumes "unlocked l" "\<not> BlockDB_active (l_object l)"
    and "ldb_Write L (concat (map (db_call_ops B be C) cs)) (db_pDB (bd_pDatabase (l_object l))) = Inr d"
  shows "\<exists>l'. session (Some (BlockDB_batchable L)) False (map (BlockDB_call L B be C) cs) l = Some (Inr l')"
proof -
  let ?b = "BlockDB_batchable L"
  define bd where "bd = ib_OnInitWrite ?b (ib_SetDirty ?b True (l_object l))"
  have bd: "db_pTx (bd_pDatabase bd) = Some new_DBTransaction" "bd_dirty bd"
      "db_pDB (bd_pDatabase bd) = db_pDB (bd_pDatabase (l_object l))"
    by (simp_all add: bd_def BlockDB_batchable_def BlockDB_OnInitWrite_def Database_OnInitWrite_def)
  obtain t where t: "fold (\<lambda>f. f) (map (BlockDB_call L B be C) cs) bd = bd\<lparr>bd_pDatabase := (bd_pDatabase bd)\<lparr>db_pTx := Some t\<rparr>\<rparr>"
      "tr_batch t = concat (map (db_call_ops B be C) cs)"
    using fold_calls_batch [OF bd(1), of L B be C cs] by (auto simp: new_DBTransaction_def)
  have "\<exists>ob. ib_Commit ?b (fold (\<lambda>f. f) (map (BlockDB_call L B be C) cs) bd) = Inr ob"
    using assms(3) bd(3)
    by (simp add: t BlockDB_batchable_def BlockDB_Commit_def Database_Commit_def DBTransaction_Commit_def)
  moreover have "ib_IsDirty ?b (fold (\<lambda>f. f) (map (BlockDB_call L B be C) cs) bd)"
    using bd(2) by (simp add: t BlockDB_batchable_def)
  ultimately show ?thesis
    unfolding session_unlocked [OF assms(1)] using session_dirty(2) [of _ "map (BlockDB_call L B be C) cs" ?b "l_object l"]
    by (auto simp: bd_def)
qed

text \<open>A header class for examples: all the members one after the other, without the cached hash.\<close>

definition example_header_ser :: "bool \<Rightarrow> IHeader \<Rightarrow> Serializer \<Rightarrow> Serializer" where
  "example_header_ser be h s = Append be (hd_kernelMMRSize h) (Append be (hd_outputMMRSize h)
     (BlindingFactor_Serialize (hd_offset h) (BigInt_Serialize (hd_kernelRoot h)
     (BigInt_Serialize (hd_rangeProofRoot h) (BigInt_Serialize (hd_outputRoot h) (Append be (hd_height h) s))))))"

definition example_header_des :: "bool \<Rightarrow> IHeader reader" where
  "example_header_des be = dbind (Read be) (\<lambda>height. dbind (BigInt_Deserialize 32) (\<lambda>outputRoot.
     dbind (BigInt_Deserialize 32) (\<lambda>rangeProofRoot. dbind (BigInt_Deserialize 32) (\<lambda>kernelRoot.
     dbind BlindingFactor_Deserialize (\<lambda>offset. dbind (Read be) (\<lambda>outputMMRSize. dbind (Read be) (\<lambda>kernelMMRSize.
       dreturn (mk_IHeader height outputRoot rangeProofRoot kernelRoot offset outputMMRSize kernelMMRSize))))))))"

definition example_header_enc :: "IHeader \<Rightarrow> bytes" where
  "example_header_enc h = be_bytes (hd_height h) @ big_bytes (hd_outputRoot h) @ big_bytes (hd_rangeProofRoot h) @
     big_bytes (hd_kernelRoot h) @ BlindingFactor_enc (hd_offset h) @ be_bytes (hd_outputMMRSize h) @ be_bytes (hd_kernelMMRSize h)"

definition example_header_wf :: "IHeader \<Rightarrow> bool" where
  "example_header_wf h \<longleftrightarrow> hd_hash h = None \<and> length (big_bytes (hd_outputRoot h)) = 32 \<and>
     length (big_bytes (hd_rangeProofRoot h)) = 32 \<and> length (big_bytes (hd_kernelRoot h)) = 32 \<and> BlindingFactor_wf (hd_offset h)"

definition example_headers :: "(json_value, IHeader) header_class" where
  "example_headers = \<lparr>H_Serialize = example_header_ser False, H_ToJSON = (\<lambda>h. JNull),
     H_Deserialize = example_header_des False, H_FromJSON = (\<lambda>js. Inl JsonException)\<rparr>"

definition example_classes :: "(json_value, IHeader, IKernel) chain_classes" where
  "example_classes = \<lparr>cc_header = example_headers, cc_kernel = example_kernels False, cc_block_Deserialize = dthrow StdException\<rparr>"

lemma appends_example_header: "appends (example_header_ser be h) (example_header_enc h)"
  using appendsD [OF Hash_codec.ser_appends] appendsD [OF BlindingFactor_codec.ser_appends]
  by (simp add: appends_def example_header_ser_def example_header_enc_def mw_codec)

lemma example_headers_contract: "header_contract example_headers example_header_enc example_header_wf"
  unfolding header_contract_def
proof
  show "codec (H_Serialize example_headers) (H_Deserialize example_headers) example_header_enc example_header_wf"
  proof
    show "appends (H_Serialize example_headers h) (example_header_enc h)" for h
      by (simp add: example_headers_def appends_example_header)
    show "decodes (H_Deserialize example_headers) h (example_header_enc h)" if wf: "example_header_wf h" for h
      using wf unfolding example_headers_def example_header_des_def example_header_enc_def example_header_wf_def header_class.simps
      by - (rule decodes_bind, rule decodes_Read, simp, simp, (rule decodes_bind, rule Hash_codec.des_enc, simp)+,
        rule decodes_bind, rule BlindingFactor_codec.des_enc, simp, rule decodes_bind, rule decodes_Read, simp, simp,
        rule decodes_bind_return, rule decodes_Read, simp, simp, cases h, simp add: mk_IHeader_def)
    show "reader_safe (H_Deserialize example_headers)"
      unfolding example_headers_def example_header_des_def header_class.simps
      by (intro reader_safe_bind Hash_codec.des_safe BlindingFactor_codec.des_safe) auto
  qed
  show "\<forall>h x. H_Serialize example_headers (h\<lparr>hd_hash := x\<rparr>) = H_Serialize example_headers h"
    by (simp add: example_headers_def example_header_ser_def fun_eq_iff)
qed

definition example_header :: IHeader where
  "example_header = mk_IHeader 7 (ValueOf 32 1) (ValueOf 32 2) (ValueOf 32 3) (mk_BlindingFactor (ValueOf 32 3)) 10 20"

definition example_db :: "(string \<Rightarrow> bytes option, (IHeader, IKernel) stored) BlockDB" where
  "example_db = \<lparr>bd_pDatabase = \<lparr>db_pDB = (\<lambda>_. None), db_pTx = None\<rparr>, bd_pChainStore = (), bd_dirty = False\<rparr>"

lemma example_header_storable: "header_storable B_example example_headers example_header_wf example_header"
proof -
  have "Serialized (H_Serialize example_headers example_header) = example_header_enc example_header"
    by (rule Serialized_appends) (simp add: example_headers_def appends_example_header)
  then show ?thesis
    using BlindingFactor_wf_ValueOf
    by (simp add: header_storable_def header_hash_ok_def example_header_def mk_IHeader_def plain_def example_header_wf_def
        example_header_enc_def ValueOf_def mk_BigInt_def BlindingFactor_wf_def mk_BlindingFactor_def)
qed

text \<open>
  C15. A BlockDB is a map from hashes to headers. After AddHeaders, inside a write session or without one, looking up a
  hash returns the last added header with that hash (up to its cached hash), and every other lookup is what it was before; for every header
  class that satisfies the codec contract and does not serialize the cache, over any LevelDB that applies batches in order.
\<close>

theorem BlockDB_headers:
  assumes "leveldb_library L" and "header_contract (cc_header C) henc hvalid"
    and "list_all (header_storable B (cc_header C) hvalid) hs"
    and "AddHeaders L B C hs bd = Inr bd'"
  shows "plain_result (GetHeaderByHash L C h bd') =
    (case find (\<lambda>x. header_hash B (cc_header C) x = h) (rev hs) of
       Some x \<Rightarrow> Inr (Some (plain x))
     | None \<Rightarrow> plain_result (GetHeaderByHash L C h bd))"
  by (rule AddHeaders_GetHeader [OF assms])

theorem BlockDB_headers_witness:
  "\<exists>bd'. AddHeaders memory_leveldb B_example example_classes [example_header] example_db = Inr bd' \<and>
     plain_result (GetHeaderByHash memory_leveldb example_classes (header_hash B_example example_headers example_header) bd') =
       Inr (Some (plain example_header))"
proof -
  have c: "cc_header example_classes = example_headers" by (simp add: example_classes_def)
  obtain bd' where bd': "AddHeaders memory_leveldb B_example example_classes [example_header] example_db = Inr bd'"
    by (simp add: AddHeaders_def Database_Put_def example_db_def DBTransaction_Commit_def memory_leveldb_def)
  have "list_all (header_storable B_example (cc_header example_classes) example_header_wf) [example_header]"
    using example_header_storable by (simp add: c)
  from BlockDB_headers [OF memory.leveldb_library_axioms _ this bd', of example_header_enc] example_headers_contract
  show ?thesis using bd' by (simp add: c)
qed

text \<open>
  C14. Write sessions on a Locked<IBlockDB> are atomic. A BatchWrite session, whatever headers and blocks it adds, leaves the stored
  database as it was when its Writer is dropped; a Write session whose batch LevelDB accepts returns, and has then applied all of its puts
  in order, as one batch; in both cases the object is unlocked with no transaction open.
\<close>

theorem BlockDB_sessions:
  assumes "leveldb_library L" and "unlocked l" and "\<not> BlockDB_active (l_object l)"
  shows "(\<exists>bd. session (Some (BlockDB_batchable L)) True (map (BlockDB_call L B be C) cs) l = Some (Inr (l\<lparr>l_object := bd\<rparr>)) \<and>
            \<not> BlockDB_active bd \<and> Database_stored L (bd_pDatabase bd) = Database_stored L (bd_pDatabase (l_object l))) \<and>
         (\<forall>d. ldb_Write L (concat (map (db_call_ops B be C) cs)) (db_pDB (bd_pDatabase (l_object l))) = Inr d \<longrightarrow>
            (\<exists>bd. session (Some (BlockDB_batchable L)) False (map (BlockDB_call L B be C) cs) l = Some (Inr (l\<lparr>l_object := bd\<rparr>)) \<and>
               \<not> BlockDB_active bd \<and>
               Database_stored L (bd_pDatabase bd) =
                 batch_apply (concat (map (db_call_ops B be C) cs)) (Database_stored L (bd_pDatabase (l_object l)))))"
proof (intro conjI allI impI)
  note t = BlockDB_transactional [OF assms(1), of B be C]
  show "\<exists>bd. session (Some (BlockDB_batchable L)) True (map (BlockDB_call L B be C) cs) l = Some (Inr (l\<lparr>l_object := bd\<rparr>)) \<and>
      \<not> BlockDB_active bd \<and> Database_stored L (bd_pDatabase bd) = Database_stored L (bd_pDatabase (l_object l))"
    by (rule transactional.session_rolls_back [OF t assms(2,3) changes_of_calls])
  fix d
  assume w: "ldb_Write L (concat (map (db_call_ops B be C) cs)) (db_pDB (bd_pDatabase (l_object l))) = Inr d"
  obtain l' where l': "session (Some (BlockDB_batchable L)) False (map (BlockDB_call L B be C) cs) l = Some (Inr l')"
    using session_write_total [OF assms(2,3) w] by blast
  show "\<exists>bd. session (Some (BlockDB_batchable L)) False (map (BlockDB_call L B be C) cs) l = Some (Inr (l\<lparr>l_object := bd\<rparr>)) \<and>
      \<not> BlockDB_active bd \<and> Database_stored L (bd_pDatabase bd) =
        batch_apply (concat (map (db_call_ops B be C) cs)) (Database_stored L (bd_pDatabase (l_object l)))"
    using transactional.session_commits [OF t assms(2,3) changes_of_calls l'] l' by (auto simp: fold_calls)
qed

theorem BlockDB_sessions_witness:
  "\<exists>bd. session (Some (BlockDB_batchable memory_leveldb)) True
       (map (BlockDB_call memory_leveldb B_example False example_classes) [CallAddHeaders [example_header]]) (new_Locked example_db) =
      Some (Inr ((new_Locked example_db)\<lparr>l_object := bd\<rparr>)) \<and>
    Database_stored memory_leveldb (bd_pDatabase bd) = (\<lambda>_. None)"
proof -
  have "unlocked (new_Locked example_db)" "\<not> BlockDB_active (l_object (new_Locked example_db))"
    by (simp_all add: unlocked_def new_Locked_def BlockDB_active_def example_db_def)
  note s = BlockDB_sessions [OF memory.leveldb_library_axioms this, THEN conjunct1]
  have "Database_stored memory_leveldb (bd_pDatabase (l_object (new_Locked example_db))) = (\<lambda>_. None)"
    by (simp add: Database_stored_def memory_leveldb_def new_Locked_def example_db_def)
  then show ?thesis
    using s [of B_example False example_classes "[CallAddHeaders [example_header]]"] by metis
qed

end
