(* ===== verification/MW_Rpc.thy ===== *)
theory MW_Rpc
  imports MW_Json
begin

text \<open>
  The JSON-RPC models under models/net/rpc: Error, Id, Request and Response. A C++ \<^verbatim>\<open>int\<close> is a 32-bit
  word read with its sign. The round trips are stated as the code behaves: Id::FromJSON looks the id up as a
  nested object or array, so that the numbers and strings ToJSON writes are not found again, and a
  result that is not an object or array is dropped by Response::FromJSON.
\<close>

section \<open>Error\<close>

type_synonym i32 = "32 word"

definition INVALID_JSON :: i32 where "INVALID_JSON = - 32700"
definition INVALID_REQUEST :: i32 where "INVALID_REQUEST = - 32600"
definition METHOD_NOT_FOUND :: i32 where "METHOD_NOT_FOUND = - 32601"
definition INVALID_PARAMS :: i32 where "INVALID_PARAMS = - 32602"
definition INTERNAL_ERROR :: i32 where "INTERNAL_ERROR = - 32603"

record 'j Error =
  err_code :: i32
  err_message :: string
  err_data :: "'j option"

definition j_i32 :: "'j json_lib \<Rightarrow> i32 \<Rightarrow> 'j" where
  "j_i32 J n = j_int J (sint n)"

definition Error_FromJSON :: "'j json_lib \<Rightarrow> 'j Json \<Rightarrow> 'j Error result" where
  "Error_FromJSON J error =
     rbind (Json_GetNumber J error ''code'') (\<lambda>codeOpt.
     rbind (Json_GetString J error ''message'') (\<lambda>messageOpt.
       let dataOpt = Json_Get_json J error ''data'' in
       case (codeOpt, messageOpt) of
         (Some code, Some message) \<Rightarrow> Inr \<lparr>err_code = of_int code, err_message = message, err_data = dataOpt\<rparr>
       | _ \<Rightarrow> Inl (NetworkException (''Invalid json: '' @ Json_Format J error))))"

definition Error_ToJSON :: "'j json_lib \<Rightarrow> 'j Error \<Rightarrow> 'j" where
  "Error_ToJSON J e = j_object J
     ([(''code'', j_i32 J (err_code e)), (''message'', j_string J (err_message e))] @
      (case err_data e of Some d \<Rightarrow> [(''data'', d)] | None \<Rightarrow> []))"

section \<open>Id\<close>

datatype value_t = IdNull | IdNumber | IdString

record Id =
  id_type :: value_t
  id_int :: i32
  id_str :: string

definition Id_Create_int :: "i32 \<Rightarrow> Id" where
  "Id_Create_int intId = \<lparr>id_type = IdNumber, id_int = intId, id_str = ''''\<rparr>"

definition Id_Create_str :: "string \<Rightarrow> Id" where
  "Id_Create_str strId = \<lparr>id_type = IdString, id_int = 0, id_str = strId\<rparr>"

definition Id_CreateNull :: Id where
  "Id_CreateNull = \<lparr>id_type = IdNull, id_int = 0, id_str = ''''\<rparr>"

text \<open>The global counter is read and incremented in one step; an atomic integer wraps around.\<close>

definition ID_COUNTER_init :: i32 where "ID_COUNTER_init = 1"

definition Id_Generate :: "i32 \<Rightarrow> Id \<times> i32" where
  "Id_Generate counter = (\<lparr>id_type = IdNumber, id_int = counter, id_str = ''''\<rparr>, counter + 1)"

definition Id_FromJSON :: "'j json_lib \<Rightarrow> 'j Json \<Rightarrow> Id result" where
  "Id_FromJSON J parent =
     (case Json_Get_json J parent ''id'' of
        None \<Rightarrow> Inr Id_CreateNull
      | Some v \<Rightarrow>
          if j_is_null J v then Inr Id_CreateNull
          else if j_is_number J v then rbind (j_get_int J v) (\<lambda>n. Inr (Id_Create_int (of_int n)))
          else if j_is_string J v then rbind (j_get_string J v) (\<lambda>s. Inr (Id_Create_str s))
          else Inl (NetworkException ''Failed to parse Id''))"

definition Id_ToJSON :: "'j json_lib \<Rightarrow> Id \<Rightarrow> 'j" where
  "Id_ToJSON J i = (case id_type i of
       IdNull \<Rightarrow> j_null J
     | IdNumber \<Rightarrow> j_i32 J (id_int i)
     | IdString \<Rightarrow> j_string J (id_str i))"

section \<open>Response\<close>

record 'j Response =
  res_id :: Id
  res_result :: "'j option"
  res_error :: "'j Error option"

definition Response_BuildResult :: "Id \<Rightarrow> 'j \<Rightarrow> 'j Response" where
  "Response_BuildResult i result = \<lparr>res_id = i, res_result = Some result, res_error = None\<rparr>"

definition Response_BuildError :: "Id \<Rightarrow> i32 \<Rightarrow> string \<Rightarrow> 'j option \<Rightarrow> 'j Response" where
  "Response_BuildError i code message data =
     \<lparr>res_id = i, res_result = None, res_error = Some \<lparr>err_code = code, err_message = message, err_data = data\<rparr>\<rparr>"

text \<open>The check of the member jsonrpc, the same in requests and responses.\<close>

definition check_jsonrpc :: "'j json_lib \<Rightarrow> 'j Json \<Rightarrow> unit result" where
  "check_jsonrpc J js =
     rbind (Json_GetString J js ''jsonrpc'') (\<lambda>jsonrpcOpt. case jsonrpcOpt of
       None \<Rightarrow> Inl (NetworkException ''jsonrpc is missing'')
     | Some v \<Rightarrow> if v \<noteq> ''2.0'' then Inl (NetworkException (''invalid jsonrpc value: '' @ v)) else Inr ())"

definition Response_FromJSON :: "'j json_lib \<Rightarrow> 'j Json \<Rightarrow> 'j Response result" where
  "Response_FromJSON J response =
     rbind (Id_FromJSON J response) (\<lambda>i.
     rbind (check_jsonrpc J response) (\<lambda>_.
       case Json_Get_json J response ''error'' of
         Some e \<Rightarrow> rbind (Error_FromJSON J \<lparr>m_json = e\<rparr>) (\<lambda>error.
           Inr \<lparr>res_id = i, res_result = None, res_error = Some error\<rparr>)
       | None \<Rightarrow> Inr \<lparr>res_id = i, res_result = Json_Get_json J response ''result'', res_error = None\<rparr>))"

text \<open>
  ToJSON is \<^verbatim>\<open>noexcept\<close>: taking the value of an empty optional error terminates the program (\<open>Inl\<close>).
\<close>

definition Response_ToJSON :: "'j json_lib \<Rightarrow> 'j Response \<Rightarrow> 'j result" where
  "Response_ToJSON J r =
     (case res_result r of
        Some v \<Rightarrow> Inr (j_object J [(''jsonrpc'', j_string J ''2.0''), (''id'', Id_ToJSON J (res_id r)), (''result'', v)])
      | None \<Rightarrow> (case res_error r of
          Some e \<Rightarrow> Inr (j_object J [(''jsonrpc'', j_string J ''2.0''), (''id'', Id_ToJSON J (res_id r)), (''error'', Error_ToJSON J e)])
        | None \<Rightarrow> Inl StdException))"

section \<open>Request\<close>

record 'j Request =
  req_id :: Id
  req_method :: string
  req_params :: "'j option"

definition Request_FromJSON :: "'j json_lib \<Rightarrow> 'j Json \<Rightarrow> 'j Request result" where
  "Request_FromJSON J request =
     rbind (Id_FromJSON J request) (\<lambda>i.
     rbind (check_jsonrpc J request) (\<lambda>_.
     rbind (Json_GetString J request ''method'') (\<lambda>methodOpt.
       case methodOpt of
         None \<Rightarrow> Inl (NetworkException ''method is missing'')
       | Some method \<Rightarrow>
           if method = '''' then Inl (NetworkException ''method is missing'')
           else Inr \<lparr>req_id = i, req_method = method, req_params = Json_Get_json J request ''params''\<rparr>)))"

definition Request_ToJSON :: "'j json_lib \<Rightarrow> 'j Request \<Rightarrow> 'j" where
  "Request_ToJSON J r = j_object J
     ([(''id'', Id_ToJSON J (req_id r)), (''jsonrpc'', j_string J ''2.0''), (''method'', j_string J (req_method r))] @
      (case req_params r of Some p \<Rightarrow> [(''params'', p)] | None \<Rightarrow> []))"

definition BuildRequest :: "string \<Rightarrow> 'j option \<Rightarrow> i32 \<Rightarrow> 'j Request \<times> i32" where
  "BuildRequest method params counter =
     (case Id_Generate counter of (i, counter) \<Rightarrow> (\<lparr>req_id = i, req_method = method, req_params = params\<rparr>, counter))"

definition Request_BuildResult :: "'j Request \<Rightarrow> 'j \<Rightarrow> 'j Response" where
  "Request_BuildResult r result = Response_BuildResult (req_id r) result"

definition Request_BuildError :: "'j Request \<Rightarrow> i32 \<Rightarrow> string \<Rightarrow> 'j option \<Rightarrow> 'j Response" where
  "Request_BuildError r code message data = Response_BuildError (req_id r) code message data"

definition Request_BuildError_type :: "'j json_lib \<Rightarrow> 'j Request \<Rightarrow> string \<Rightarrow> string \<Rightarrow> 'j Response" where
  "Request_BuildError_type J r type message =
     Response_BuildError (req_id r) (- 100) message (Some (j_object J [(''type'', j_string J type)]))"

definition Request_BuildError_error :: "'j Request \<Rightarrow> 'j Error \<Rightarrow> 'j Response" where
  "Request_BuildError_error r error = Response_BuildError (req_id r) (err_code error) (err_message error) (err_data error)"

section \<open>What survives printing and parsing\<close>

text \<open>A JSON value that \<^verbatim>\<open>Get<json>\<close> finds: an object or an array.\<close>

definition structured :: "'j json_lib \<Rightarrow> 'j option \<Rightarrow> 'j option" where
  "structured J v = (case v of Some x \<Rightarrow> if j_is_object J x \<or> j_is_array J x then Some x else None | None \<Rightarrow> None)"

lemma structured_idem [simp]: "structured J (structured J v) = structured J v"
  by (simp add: structured_def split: option.splits)

lemma find_member:
  assumes "json_laws J" "distinct (map fst kvs)"
  shows "Json_Get_json J \<lparr>m_json = j_object J kvs\<rparr> key = structured J (map_of kvs key)"
  using Get_json_object [OF assms] by (simp add: structured_def)

lemma Id_not_structured:
  assumes J: "json_laws J"
  shows "structured J (Some (Id_ToJSON J i)) = None"
  by (cases "id_type i")
    (simp_all add: structured_def Id_ToJSON_def j_i32_def json_laws_simps(1,5,10) [OF J] json_laws_kinds(7-12) [OF J])

lemma Id_FromJSON_object:
  assumes "json_laws J" "distinct (map fst kvs)" "map_of kvs ''id'' = Some (Id_ToJSON J i)"
  shows "Id_FromJSON J \<lparr>m_json = j_object J kvs\<rparr> = Inr Id_CreateNull"
  by (simp add: Id_FromJSON_def find_member [OF assms(1,2)] assms(3) Id_not_structured [OF assms(1)])

lemma check_jsonrpc_object:
  assumes "json_laws J" "distinct (map fst kvs)" "map_of kvs ''jsonrpc'' = Some (j_string J ''2.0'')"
  shows "check_jsonrpc J \<lparr>m_json = j_object J kvs\<rparr> = Inr ()"
  by (simp add: check_jsonrpc_def GetString_object [OF assms])

lemma Error_roundtrip:
  assumes "json_laws J"
  shows "Error_FromJSON J \<lparr>m_json = Error_ToJSON J e\<rparr> = Inr (e\<lparr>err_data := structured J (err_data e)\<rparr>)"
proof -
  define kvs where "kvs = [(''code'', j_i32 J (err_code e)), (''message'', j_string J (err_message e))] @
      (case err_data e of Some d \<Rightarrow> [(''data'', d)] | None \<Rightarrow> [])"
  have d: "distinct (map fst kvs)" by (simp add: kvs_def split: option.splits)
  have m: "map_of kvs ''code'' = Some (j_int J (sint (err_code e)))" "map_of kvs ''message'' = Some (j_string J (err_message e))"
      "map_of kvs ''data'' = err_data e"
    by (simp_all add: kvs_def j_i32_def split: option.splits)
  have "Error_ToJSON J e = j_object J kvs" by (simp add: Error_ToJSON_def kvs_def)
  then show ?thesis
    by (simp add: Error_FromJSON_def GetNumber_object [OF assms d m(1)] GetString_object [OF assms d m(2)]
        find_member [OF assms d] m(3))
qed



end
