(* ===== verification/MW_Bech32.thy ===== *)
theory MW_Bech32
  imports MW_Serialization MW_Json
begin

text \<open>
  Bech32 (deps/crypto/src/bech32.cpp) and the class Bech32Address on top of it. The checksum is a
  linear code over 5-bit values: the step of \<^verbatim>\<open>polymod\<close> is linear in state and input, which gives that
  an encoded string decodes to what was encoded, and that no single changed value goes unnoticed.
\<close>

section \<open>The checksum\<close>

definition charset :: string where
  "charset = ''qpzry9x8gf2tvdw0s3jn54khce6mua7l''"

definition charset_rev :: "int list" where
  "charset_rev = [
     -1, -1, -1, -1, -1, -1, -1, -1, -1, -1, -1, -1, -1, -1, -1, -1,
     -1, -1, -1, -1, -1, -1, -1, -1, -1, -1, -1, -1, -1, -1, -1, -1,
     -1, -1, -1, -1, -1, -1, -1, -1, -1, -1, -1, -1, -1, -1, -1, -1,
     15, -1, 10, 17, 21, 20, 26, 30,  7,  5, -1, -1, -1, -1, -1, -1,
     -1, 29, -1, 24, 13, 25,  9,  8, 23, -1, 18, 22, 31, 27, 19, -1,
      1,  0,  3, 16, 11, 28, 12, 14,  6,  4,  2, -1, -1, -1, -1, -1,
     -1, 29, -1, 24, 13, 25,  9,  8, 23, -1, 18, 22, 31, 27, 19, -1,
      1,  0,  3, 16, 11, 28, 12, 14,  6,  4,  2, -1, -1, -1, -1, -1]"

text \<open>The term \<^verbatim>\<open>-((top >> k) & 1) & g\<close>: all ones or all zeros, masked by the coefficient.\<close>

definition gen :: "u8 \<Rightarrow> nat \<Rightarrow> u32 \<Rightarrow> u32" where
  "gen t k g = (- ucast (drop_bit k t AND 1)) AND g"

definition polymod_step :: "u32 \<Rightarrow> u8 \<Rightarrow> u32" where
  "polymod_step chk v =
     (let t = ucast (drop_bit 25 chk) :: u8 in
      push_bit 5 (chk AND 0x1ffffff) XOR ucast v XOR
      gen t 0 0x3b6a57b2 XOR
      gen t 1 0x26508e6d XOR
      gen t 2 0x1ea119fa XOR
      gen t 3 0x3d4233dd XOR
      gen t 4 0x2a1462b3)"

definition polymod :: "u8 list \<Rightarrow> u32" where
  "polymod vals = foldl polymod_step 1 vals"

definition char_between :: "char \<Rightarrow> char \<Rightarrow> char \<Rightarrow> bool" where
  "char_between lo hi c \<longleftrightarrow> of_char lo \<le> (of_char c :: nat) \<and> (of_char c :: nat) \<le> of_char hi"

definition lc :: "char \<Rightarrow> char" where
  "lc c = (if char_between CHR ''A'' CHR ''Z'' c then char_of (of_char c - of_char (CHR ''A'') + (of_char (CHR ''a'') :: nat)) else c)"

definition char_u8 :: "char \<Rightarrow> u8" where
  "char_u8 c = of_nat (of_char c)"

text \<open>The loop writes \<open>c >> 5\<close> at \<open>i\<close> and \<open>c & 0x1f\<close> at \<open>i + size + 1\<close>; the value between them is zero.\<close>

definition expand_hrp :: "string \<Rightarrow> u8 list" where
  "expand_hrp hrp = map (\<lambda>c. drop_bit 5 (char_u8 c)) hrp @ [0] @ map (\<lambda>c. char_u8 c AND 0x1f) hrp"

definition verify_checksum :: "string \<Rightarrow> u8 list \<Rightarrow> bool" where
  "verify_checksum hrp vals \<longleftrightarrow> polymod (expand_hrp hrp @ vals) = 1"

definition create_checksum :: "string \<Rightarrow> u8 list \<Rightarrow> u8 list" where
  "create_checksum hrp vals =
     (let enc = expand_hrp hrp @ vals;
          enc = enc @ replicate 6 0;
          m = polymod enc XOR 1
      in map (\<lambda>i. ucast (drop_bit (5 * (5 - i)) m AND 31)) [0..<6])"

section \<open>Encoding and decoding\<close>

text \<open>
  \<^verbatim>\<open>charset[v]\<close> is in range up to the terminating zero at 32; beyond it the read is undefined behaviour.
\<close>

definition charset_at :: "u8 \<Rightarrow> char result" where
  "charset_at v = (if unat v < 32 then Inr (charset ! unat v)
     else if unat v = 32 then Inr (char_of (0 :: nat)) else Inl UndefinedBehaviour)"

definition bech32_encode :: "string \<Rightarrow> u8 list \<Rightarrow> string result" where
  "bech32_encode hrp vals =
     (let checksum = create_checksum hrp vals;
          combined = vals @ checksum
      in rfold (\<lambda>v ret. rbind (charset_at v) (\<lambda>c. Inr (ret @ [c]))) combined (hrp @ ''1''))"

text \<open>The first loop, with its flags \<open>ok\<close>, \<open>lower\<close> and \<open>upper\<close>; it stops at the first bad character.\<close>

fun decode_scan :: "string \<Rightarrow> bool \<times> bool \<times> bool \<Rightarrow> bool \<times> bool \<times> bool" where
  "decode_scan [] st = st"
| "decode_scan (c # cs) (ok, lower, upper) =
     (if \<not> ok then (ok, lower, upper)
      else decode_scan cs
        (\<not> (of_char c < (33 :: nat) \<or> of_char c > (126 :: nat)),
         lower \<or> char_between CHR ''a'' CHR ''z'' c,
         upper \<or> char_between CHR ''A'' CHR ''Z'' c))"

fun rfind :: "char \<Rightarrow> string \<Rightarrow> nat option" where
  "rfind c [] = None"
| "rfind c (x # xs) = (case rfind c xs of Some i \<Rightarrow> Some (Suc i) | None \<Rightarrow> if x = c then Some 0 else None)"

definition charset_rev_at :: "char \<Rightarrow> int result" where
  "charset_rev_at c = vec_at charset_rev (of_char c)"

definition decode_values :: "string \<Rightarrow> (bool \<times> u8 list) result" where
  "decode_values str = rfold (\<lambda>c (ok, vals). rbind (charset_rev_at c) (\<lambda>v.
      Inr (ok \<and> v \<noteq> -1, vals @ [of_int v]))) str (True, [])"

definition bech32_decode :: "string \<Rightarrow> (string \<times> u8 list) result" where
  "bech32_decode str =
     (case decode_scan str (True, False, False) of (ok, lower, upper) \<Rightarrow>
        let ok = (if lower \<and> upper then False else ok) in
        case rfind (CHR ''1'') str of
          None \<Rightarrow> Inr ('''', [])
        | Some pos \<Rightarrow>
            if ok \<and> length str \<le> 90 \<and> pos \<ge> 1 \<and> pos + 7 \<le> length str
            then rbind (decode_values (drop (pos + 1) str)) (\<lambda>(ok, vals).
              let hrp = map lc (take pos str) in
              if ok \<and> verify_checksum hrp vals then Inr (hrp, take (length vals - 6) vals) else Inr ('''', []))
            else Inr ('''', []))"

section \<open>Bech32Address\<close>

record Bech32Address =
  b32_address :: bytes

definition Bech32Address_FromString :: "string \<Rightarrow> Bech32Address result" where
  "Bech32Address_FromString address = rbind (bech32_decode address) (\<lambda>d. Inr \<lparr>b32_address = snd d\<rparr>)"

definition Bech32Address_eq :: "Bech32Address \<Rightarrow> Bech32Address \<Rightarrow> bool" where
  "Bech32Address_eq a b \<longleftrightarrow> b32_address a = b32_address b"

definition Bech32Address_neq :: "Bech32Address \<Rightarrow> Bech32Address \<Rightarrow> bool" where
  "Bech32Address_neq a b \<longleftrightarrow> b32_address a \<noteq> b32_address b"

definition Bech32Address_Serialize :: "bool \<Rightarrow> Bech32Address \<Rightarrow> Serializer \<Rightarrow> Serializer" where
  "Bech32Address_Serialize be a serializer =
     AppendVec (b32_address a) (Append be (of_nat (length (b32_address a)) :: u8) serializer)"

definition Bech32Address_Deserialize :: "bool \<Rightarrow> Bech32Address reader" where
  "Bech32Address_Deserialize be = dbind (Read be) (\<lambda>numBytes :: u8.
     dbind (ReadVector (ucast numBytes)) (\<lambda>address. dreturn \<lparr>b32_address = address\<rparr>))"

definition Bech32Address_ToJSON :: "'j json_lib \<Rightarrow> Bech32Address \<Rightarrow> 'j result" where
  "Bech32Address_ToJSON J a = rbind (bech32_encode ''bc'' (b32_address a)) (\<lambda>address. Inr (j_string J address))"

definition Bech32Address_FromJSON :: "'j json_lib \<Rightarrow> 'j Json \<Rightarrow> Bech32Address result" where
  "Bech32Address_FromJSON J js =
     rbind (Json_Get (j_get_string J) js) (\<lambda>addressStr.
     rbind (bech32_decode addressStr) (\<lambda>decoded.
       if fst decoded = '''' then Inl (DeserializationException (''Failed to Bech32 decode address: '' @ addressStr))
       else Inr \<lparr>b32_address = snd decoded\<rparr>))"

section \<open>Linearity\<close>

lemma gen_eq: "gen t k g = (if bit t k then g else 0)"
proof -
  have "drop_bit k t AND 1 = (if bit t k then 1 else 0)"
    by (simp add: and_one_eq bit_iff_odd_drop_bit mod_2_eq_odd)
  then show ?thesis
    by (simp add: gen_def)
qed

definition sel :: "bool \<Rightarrow> u32 \<Rightarrow> u32" where
  "sel b g = (if b then g else 0)"

lemma sel_xor: "sel (p = (\<not> q)) g = sel p g XOR sel q g"
  by (simp add: sel_def)

lemma bit_sel: "bit (sel b g) n \<longleftrightarrow> b \<and> bit g n"
  by (simp add: sel_def)

lemma bit_top: "k < 5 \<Longrightarrow> bit (ucast (drop_bit 25 (c :: u32)) :: u8) k \<longleftrightarrow> bit c (25 + k)"
  by (auto simp: bit_ucast_iff bit_drop_bit_eq)

lemma polymod_step_eq:
  "polymod_step c v = push_bit 5 (c AND 0x1ffffff) XOR ucast v XOR
      sel (bit c 25) 0x3b6a57b2 XOR sel (bit c 26) 0x26508e6d XOR sel (bit c 27) 0x1ea119fa XOR
      sel (bit c 28) 0x3d4233dd XOR sel (bit c 29) 0x2a1462b3"
  by (simp add: polymod_step_def Let_def gen_eq sel_def bit_top [of 0, simplified] bit_top [of 1, simplified]
      bit_top [of 2, simplified] bit_top [of 3, simplified] bit_top [of 4, simplified])

lemma ucast_xor: "(ucast (v XOR w :: u8) :: u32) = ucast v XOR ucast w"
  by (rule bit_word_eqI) (auto simp: bit_ucast_iff bit_xor_iff)

lemma polymod_step_xor:
  "polymod_step (a XOR b) (v XOR w) = polymod_step a v XOR polymod_step b w"
proof -
  have "(a XOR b) AND 0x1ffffff = (a AND 0x1ffffff) XOR (b AND 0x1ffffff)"
    by (rule bit_word_eqI) (auto simp: bit_and_iff bit_xor_iff)
  then show ?thesis
    unfolding polymod_step_eq by (simp add: bit_xor_iff sel_xor push_bit_xor ucast_xor ac_simps)
qed

lemma polymod_fold_xor:
  assumes "length vs = length ws"
  shows "foldl polymod_step (a XOR b) (map2 (XOR) vs ws) = foldl polymod_step a vs XOR foldl polymod_step b ws"
  using assms by (induction vs ws arbitrary: a b rule: list_induct2) (simp_all add: polymod_step_xor)

definition low30 :: "u32 \<Rightarrow> bool" where
  "low30 c \<longleftrightarrow> (\<forall>n. bit c n \<longrightarrow> n < 30)"

lemma low30_take_bit: "low30 c \<longleftrightarrow> take_bit 30 c = c"
proof
  assume "take_bit 30 c = c"
  then show "low30 c"
    unfolding low30_def by (metis bit_take_bit_iff)
qed (auto simp: low30_def bit_eq_iff bit_take_bit_iff)

lemma low30_xor: "low30 a \<Longrightarrow> low30 b \<Longrightarrow> low30 (a XOR b)"
  by (auto simp: low30_def bit_xor_iff)

lemma low30_sel: "take_bit 30 g = g \<Longrightarrow> low30 (sel b g)"
  by (simp add: low30_take_bit sel_def)

lemma low30_ucast: "low30 (ucast (v :: u8))"
proof -
  have "n < 8" if "bit v n" for n
    using bit_imp_le_length [OF that] by simp
  then show ?thesis
    by (fastforce simp: low30_def bit_ucast_iff)
qed

lemma low30_step: "low30 (polymod_step c v)"
proof -
  have "low30 (push_bit 5 (c AND mask 25))"
    by (auto simp: low30_def bit_push_bit_iff bit_and_iff bit_mask_iff)
  moreover have "(0x1ffffff :: u32) = mask 25"
    by (simp add: mask_eq_exp_minus_1)
  ultimately have "low30 (push_bit 5 (c AND 0x1ffffff))"
    by metis
  then show ?thesis
    unfolding polymod_step_eq by (intro low30_xor low30_sel low30_ucast) simp_all
qed

lemma low30_polymod: "low30 (polymod vs)"
proof (cases vs rule: rev_cases)
  case Nil
  then show ?thesis
    by (simp add: polymod_def low30_take_bit)
next
  case (snoc ys y)
  then show ?thesis
    by (simp add: polymod_def low30_step)
qed

lemma step_shift:
  assumes "\<And>n. bit c n \<Longrightarrow> n < 25"
  shows "polymod_step c v = push_bit 5 c XOR ucast v"
proof -
  have "c AND 0x1ffffff = c"
  proof (rule bit_word_eqI)
    fix n
    have m: "(0x1ffffff :: u32) = mask 25"
      by (simp add: mask_eq_exp_minus_1)
    show "bit (c AND 0x1ffffff) n = bit c n"
      unfolding m using assms [of n] by (auto simp: bit_and_iff bit_mask_iff)
  qed
  moreover have "\<not> bit c 25" "\<not> bit c 26" "\<not> bit c 27" "\<not> bit c 28" "\<not> bit c 29"
    using assms [of 25] assms [of 26] assms [of 27] assms [of 28] assms [of 29] by auto
  ultimately show ?thesis
    by (simp add: polymod_step_eq sel_def)
qed

lemma step_digit:
  assumes "low30 m"
  shows "polymod_step (drop_bit (5 * Suc k) m) (ucast (drop_bit (5 * k) m AND 31)) = drop_bit (5 * k) m"
proof -
  have m31: "(31 :: u32) = mask 5"
    by (simp add: mask_eq_exp_minus_1)
  have "polymod_step (drop_bit (5 * Suc k) m) (ucast (drop_bit (5 * k) m AND 31)) =
      push_bit 5 (drop_bit (5 * Suc k) m) XOR ucast (ucast (drop_bit (5 * k) m AND 31) :: u8)"
    using assms by (intro step_shift) (auto simp: bit_drop_bit_eq low30_def)
  also have "\<dots> = drop_bit (5 * k) m"
    unfolding m31
    by (rule bit_word_eqI)
      (auto simp: bit_xor_iff bit_push_bit_iff bit_drop_bit_eq bit_ucast_iff bit_and_iff bit_mask_iff algebra_simps)
  finally show ?thesis .
qed

section \<open>The checksum verifies\<close>

lemma create_checksum_eq:
  "create_checksum hrp vals =
     map (\<lambda>i. ucast (drop_bit (5 * (5 - i)) (polymod (expand_hrp hrp @ vals @ replicate 6 0) XOR 1) AND 31)) [0..<6]"
  by (simp add: create_checksum_def Let_def)

lemma length_create_checksum [simp]: "length (create_checksum hrp vals) = 6"
  by (simp add: create_checksum_eq)

lemma unat_and_31: "unat (ucast (m AND 31 :: u32) :: u8) < 32"
proof -
  have "(31 :: u32) = mask 5"
    by (simp add: mask_eq_exp_minus_1)
  then have "m AND 31 = take_bit 5 m"
    by (metis take_bit_eq_mask)
  then have "unat (m AND 31) = unat m mod 32"
    by (simp add: unsigned_take_bit_eq take_bit_nat_def)
  then show ?thesis
    by (simp add: unsigned_ucast_eq take_bit_nat_def)
qed

lemma create_checksum_bound: "\<forall>v\<in>set (create_checksum hrp vals). unat v < 32"
  unfolding create_checksum_eq set_map ball_simps by (intro ballI unat_and_31)

lemma fold_digits:
  assumes "low30 m"
  shows "foldl polymod_step 0 (map (\<lambda>i. ucast (drop_bit (5 * (5 - i)) m AND 31)) [0..<6]) = m"
proof -
  have z: "drop_bit 30 m = 0"
    using assms by (intro bit_word_eqI) (auto simp: bit_drop_bit_eq low30_def)
  have d: "polymod_step (drop_bit (5 * Suc k) m) (ucast (drop_bit (5 * k) m AND 31)) = drop_bit (5 * k) m" for k
    using assms by (rule step_digit)
  have l: "[0..<6] = [0, 1, 2, 3, 4, 5 :: nat]"
    by (simp add: upt_rec)
  show ?thesis
    using d [of 5] d [of 4] d [of 3] d [of 2] d [of 1] d [of 0] unfolding l by (simp add: z)
qed

lemma polymod_append: "polymod (vs @ ws) = foldl polymod_step (polymod vs) ws"
  by (simp add: polymod_def)

lemma foldl_zeros_xor:
  "foldl polymod_step c ws = foldl polymod_step c (replicate (length ws) 0) XOR foldl polymod_step 0 ws"
proof -
  have "map2 (XOR) (replicate (length ws) 0) ws = ws"
    by (rule nth_equalityI) auto
  then show ?thesis
    using polymod_fold_xor [of "replicate (length ws) 0" ws c 0] by simp
qed

lemma create_checksum_verifies: "verify_checksum hrp (vals @ create_checksum hrp vals)"
proof -
  define M where "M = polymod (expand_hrp hrp @ vals @ replicate 6 0)"
  define P where "P = polymod (expand_hrp hrp @ vals)"
  have M: "M = foldl polymod_step P (replicate 6 0)"
    by (simp add: M_def P_def flip: polymod_append)
  have "low30 1"
    by (simp add: low30_take_bit)
  then have "low30 (M XOR 1)"
    unfolding M_def by (intro low30_xor low30_polymod)
  then have "foldl polymod_step 0 (create_checksum hrp vals) = M XOR 1"
    unfolding create_checksum_eq M_def by (rule fold_digits)
  then have "foldl polymod_step P (create_checksum hrp vals) = M XOR (M XOR 1)"
    by (subst foldl_zeros_xor) (simp add: M)
  then have "polymod (expand_hrp hrp @ vals @ create_checksum hrp vals) = 1"
    by (simp add: P_def flip: polymod_append xor.assoc)
  then show ?thesis
    by (simp add: verify_checksum_def)
qed

section \<open>Round trip\<close>

definition hrp_char :: "char \<Rightarrow> bool" where
  "hrp_char c \<longleftrightarrow> 33 \<le> (of_char c :: nat) \<and> (of_char c :: nat) \<le> 126 \<and> \<not> char_between CHR ''A'' CHR ''Z'' c"

lemma charset_table:
  "list_all (\<lambda>i. hrp_char (charset ! i) \<and> charset ! i \<noteq> CHR ''1'' \<and> charset_rev_at (charset ! i) = Inr (int i)) [0..<32]"
  by code_simp

lemma charset_char:
  assumes "unat (v :: u8) < 32"
  shows "hrp_char (charset ! unat v)" "charset ! unat v \<noteq> CHR ''1''"
    "charset_rev_at (charset ! unat v) = Inr (int (unat v))"
  using charset_table assms by (simp_all add: list_all_iff)

lemma encode_fold:
  assumes "\<forall>v\<in>set vs. unat v < 32"
  shows "rfold (\<lambda>v ret. rbind (charset_at v) (\<lambda>c. Inr (ret @ [c]))) vs acc = Inr (acc @ map (\<lambda>v. charset ! unat v) vs)"
  using assms by (induction vs arbitrary: acc) (simp_all add: charset_at_def)

lemma bech32_encode_eq:
  assumes "\<forall>v\<in>set vals. unat v < 32"
  shows "bech32_encode hrp vals =
    Inr (hrp @ CHR ''1'' # map (\<lambda>v. charset ! unat v) (vals @ create_checksum hrp vals))"
  using assms create_checksum_bound [of hrp vals] unfolding bech32_encode_def Let_def
  by (subst encode_fold) auto

lemma decode_scan_ok:
  assumes "list_all hrp_char s"
  shows "\<exists>l. decode_scan s (True, l0, False) = (True, l, False)"
  using assms by (induction s arbitrary: l0) (auto simp: hrp_char_def not_le)

lemma rfind_none: "c \<notin> set s \<Longrightarrow> rfind c s = None"
  by (induction s) auto

lemma rfind_last: "c \<notin> set t \<Longrightarrow> rfind c (s @ c # t) = Some (length s)"
  by (induction s) (simp_all add: rfind_none)

lemma map_lc: "list_all hrp_char s \<Longrightarrow> map lc s = s"
  by (induction s) (simp_all add: lc_def hrp_char_def)

lemma decode_values_eq:
  assumes "\<forall>v\<in>set vs. unat v < 32"
  shows "decode_values (map (\<lambda>v. charset ! unat v) vs) = Inr (True, vs)"
proof -
  have m1: "uint (v :: u8) \<noteq> - 1" for v
    using unsigned_greater_eq [of v] by (metis not_le neg_0_less_iff_less neg_less_0_iff_less zero_less_one)
  have "rfold (\<lambda>c (ok, vals). rbind (charset_rev_at c) (\<lambda>v. Inr (ok \<and> v \<noteq> -1, vals @ [of_int v])))
      (map (\<lambda>v. charset ! unat v) vs) (True, acc) = Inr (True, acc @ vs)" for acc
    using assms by (induction vs arbitrary: acc) (simp_all add: charset_char m1)
  from this [of "[]"] show ?thesis
    unfolding decode_values_def by simp
qed

lemma bech32_decode_valid:
  assumes hrp: "list_all hrp_char hrp" "hrp \<noteq> []" and vs: "\<forall>v\<in>set vs. unat v < 32"
    and len: "6 \<le> length vs" "length hrp + length vs < 90"
  shows "bech32_decode (hrp @ CHR ''1'' # map (\<lambda>v. charset ! unat v) vs) =
    Inr (if verify_checksum hrp vs then (hrp, take (length vs - 6) vs) else ('''', []))"
proof -
  define cs where "cs = map (\<lambda>v. charset ! unat v) vs"
  define str where "str = hrp @ CHR ''1'' # cs"
  have cs: "list_all hrp_char cs" "CHR ''1'' \<notin> set cs"
    using vs charset_char(1) charset_char(2) [symmetric] by (auto simp: cs_def list_all_iff)
  have "hrp_char CHR ''1''"
    by (simp add: hrp_char_def char_between_def)
  then have "list_all hrp_char str"
    using hrp cs by (simp add: str_def)
  then obtain l where scan: "decode_scan str (True, False, False) = (True, l, False)"
    using decode_scan_ok by blast
  have pos: "rfind (CHR ''1'') str = Some (length hrp)"
    using cs by (simp add: str_def rfind_last)
  have vals: "decode_values (drop (length hrp + 1) str) = Inr (True, vs)"
    using decode_values_eq [OF vs] by (simp add: str_def cs_def)
  have guard: "length str \<le> 90" "1 \<le> length hrp" "length hrp + 7 \<le> length str"
    using hrp len by (simp_all add: str_def cs_def Suc_le_eq)
  have "map lc (take (length hrp) str) = hrp"
    using hrp by (simp add: str_def map_lc)
  then show ?thesis
    unfolding bech32_decode_def using scan pos vals guard
    by (simp add: Let_def flip: cs_def str_def)
qed

lemma bech32_encoded:
  assumes "list_all hrp_char hrp" and "hrp \<noteq> []" and "\<forall>v\<in>set vals. unat v < 32"
    and "length hrp + length vals \<le> 83"
  shows "\<exists>cs. bech32_encode hrp vals = Inr (hrp @ CHR ''1'' # cs) \<and> length cs = length vals + 6 \<and>
    bech32_decode (hrp @ CHR ''1'' # cs) = Inr (hrp, vals)"
proof -
  have "\<forall>v\<in>set (vals @ create_checksum hrp vals). unat v < 32"
    using assms(3) create_checksum_bound [of hrp vals] by auto
  from bech32_decode_valid [OF assms(1, 2) this] assms(4) show ?thesis
    using create_checksum_verifies [of hrp vals] bech32_encode_eq [OF assms(3), of hrp] by simp
qed

text \<open>
  C19. Values below 32 under a readable part of printable characters without upper case
  encode, with nothing read outside the character table, to a string of the expected length that begins
  with the readable part and the separator, and whose decoding gives back the readable part and the values;
  the code's limit is 90 characters in all.
\<close>

theorem bech32_roundtrip:
  assumes "list_all hrp_char hrp" and "hrp \<noteq> []" and "\<forall>v\<in>set vals. unat v < 32"
    and "length hrp + length vals \<le> 83"
  shows "\<exists>cs. bech32_encode hrp vals = Inr (hrp @ CHR ''1'' # cs) \<and> length cs = length vals + 6 \<and>
    bech32_decode (hrp @ CHR ''1'' # cs) = Inr (hrp, vals)"
  using assms by (rule bech32_encoded)

lemma bech32_roundtrip_witness:
  "\<exists>cs. bech32_encode ''bc'' [0, 14, 20, 15] = Inr (''bc'' @ CHR ''1'' # cs) \<and> length cs = length [0 :: u8, 14, 20, 15] + 6 \<and>
    bech32_decode (''bc'' @ CHR ''1'' # cs) = Inr (''bc'', [0, 14, 20, 15])"
  by (rule bech32_roundtrip) (simp_all add: hrp_char_def char_between_def)

section \<open>Error detection\<close>

lemma xor_eq_0: "a XOR b = 0 \<Longrightarrow> a = b" for a b :: u8
  by (metis xor.assoc xor.left_neutral xor_self_eq xor.right_neutral)

definition below :: "nat \<Rightarrow> u32 \<Rightarrow> bool" where
  "below k c \<longleftrightarrow> (\<forall>n. bit c n \<longrightarrow> n < k)"

lemma digit_bit:
  assumes "unat (v :: u8) < 32" and "bit v n"
  shows "n < 5"
proof -
  have "unat (take_bit 5 v) = unat v"
    using assms(1) by (simp add: unsigned_take_bit_eq take_bit_nat_def)
  then have "take_bit 5 v = v"
    by (rule word_unat_eq_iff [THEN iffD2])
  then show ?thesis
    using assms(2) by (metis bit_take_bit_iff)
qed

text \<open>Up to six values pack into the state without touching the generator, so they are zero when the state is.\<close>

lemma pack_zero:
  assumes "\<forall>v\<in>set ds. unat v < 32" and "length ds \<le> 6"
  shows "below (5 * length ds) (foldl polymod_step 0 ds) \<and> (foldl polymod_step 0 ds = 0 \<longrightarrow> (\<forall>v\<in>set ds. v = 0))"
  using assms
proof (induction ds rule: rev_induct)
  case Nil
  then show ?case
    by (simp add: below_def)
next
  case (snoc v ds)
  define c where "c = foldl polymod_step 0 ds"
  have IH: "below (5 * length ds) c" "c = 0 \<longrightarrow> (\<forall>v\<in>set ds. v = 0)"
    using snoc by (simp_all add: c_def)
  have v: "n < 5" if "bit v n" for n
    using snoc.prems(1) that by (intro digit_bit [of v]) simp_all
  have "polymod_step c v = push_bit 5 c XOR ucast v"
    using IH(1) snoc.prems(2) by (intro step_shift) (fastforce simp: below_def)
  then have b: "bit (polymod_step c v) n \<longleftrightarrow> n < 32 \<and> (if n < 5 then bit v n else bit c (n - 5))" for n
    using v [of n] by (auto simp: bit_xor_iff bit_push_bit_iff bit_ucast_iff)
  have "below (5 * length (ds @ [v])) (polymod_step c v)"
    unfolding below_def
  proof (intro allI impI)
    fix n
    assume "bit (polymod_step c v) n"
    then show "n < 5 * length (ds @ [v])"
      using IH(1) [unfolded below_def, rule_format, of "n - 5"] by (auto simp: b split: if_splits)
  qed
  moreover have "c = 0 \<and> v = 0" if z: "polymod_step c v = 0"
  proof
    show "v = 0"
    proof (rule bit_word_eqI)
      fix n
      show "bit v n = bit 0 n"
        using b [of n] v [of n] by (auto simp: z)
    qed
    have "\<not> bit c n" for n
    proof
      assume c: "bit c n"
      then have "n < 25"
        using IH(1) snoc.prems(2) by (fastforce simp: below_def)
      then show False
        using b [of "n + 5"] c by (simp add: z)
    qed
    then show "c = 0"
      by (intro bit_word_eqI) simp
  qed
  ultimately show ?case
    using IH(2) by (auto simp: c_def)
qed

text \<open>Shifting by a zero value is injective on the states: the generator's low five bits are independent.\<close>

lemma step_zero:
  assumes "low30 c" and z: "polymod_step c 0 = 0"
  shows "c = 0"
proof -
  have e: "bit (push_bit 5 (c AND 0x1ffffff) XOR
      sel (bit c 25) 0x3b6a57b2 XOR sel (bit c 26) 0x26508e6d XOR sel (bit c 27) 0x1ea119fa XOR
      sel (bit c 28) 0x3d4233dd XOR sel (bit c 29) 0x2a1462b3) n = False" for n
    using z unfolding polymod_step_eq by simp
  have low: "bit (push_bit 5 c AND 1073741792) n = False" if "n < 5" for n
    using that by (simp add: bit_and_iff bit_push_bit_iff)
  have top: "\<not> bit c 25 \<and> \<not> bit c 26 \<and> \<not> bit c 27 \<and> \<not> bit c 28 \<and> \<not> bit c 29"
    using e [of 0] e [of 1] e [of 2] e [of 3] e [of 4]
    by (simp add: bit_xor_iff bit_sel low) blast
  have lt: "n < 25" if "bit c n" for n
  proof (rule ccontr)
    assume "\<not> n < 25"
    moreover have "n < 30"
      using assms(1) that by (simp add: low30_def)
    ultimately have "n = 25 \<or> n = 26 \<or> n = 27 \<or> n = 28 \<or> n = 29"
      by linarith
    then show False
      using top that by blast
  qed
  then have "push_bit 5 c = 0"
    using step_shift [of c 0] z by simp
  then have "bit (push_bit 5 c) (n + 5) = False" for n
    by simp
  then have "\<not> bit c n" for n
    using lt [of n] by (force simp: bit_push_bit_iff)
  then show ?thesis
    by (intro bit_word_eqI) simp
qed

lemma zeros_inj:
  assumes "low30 c" and "c \<noteq> 0"
  shows "foldl polymod_step c (replicate n 0) \<noteq> 0"
  using assms
proof (induction n arbitrary: c)
  case (Suc n)
  have "polymod_step c 0 \<noteq> 0"
    using step_zero Suc.prems by blast
  then show ?case
    using Suc.IH [OF low30_step] by simp
qed simp

text \<open>
  C20. A valid string in which any run of up to six values is replaced by other values is
  never taken for valid: the checksum fails. A single wrong character is the special case of length one.
\<close>

theorem bech32_detects:
  assumes "verify_checksum hrp (pre @ run @ suf)" and "length run' = length run" and "length run \<le> 6"
    and "\<forall>v\<in>set run \<union> set run'. unat v < 32" and "run' \<noteq> run"
  shows "\<not> verify_checksum hrp (pre @ run' @ suf)"
proof
  assume v': "verify_checksum hrp (pre @ run' @ suf)"
  define d where "d = map2 (XOR) run run'"
  define x where "x = polymod (expand_hrp hrp @ pre)"
  have b32: "unat (a XOR b) < 32" if "unat a < 32" "unat b < 32" for a b :: u8
  proof -
    have "unat (a XOR b) = unat a XOR unat b"
      by (simp add: unsigned_xor_eq)
    also have "\<dots> = take_bit 5 (unat a XOR unat b)"
      using that by (simp add: take_bit_xor take_bit_nat_eq_self)
    finally show ?thesis
      using take_bit_nat_less_exp [of 5 "unat a XOR unat b"] by simp
  qed
  have "map2 (XOR) (run @ suf) (run' @ suf) = d @ replicate (length suf) 0"
    using assms(2) by (auto simp: d_def zip_append intro!: nth_equalityI)
  then have "foldl polymod_step 0 (d @ replicate (length suf) 0) =
      foldl polymod_step x (run @ suf) XOR foldl polymod_step x (run' @ suf)"
    using polymod_fold_xor [of "run @ suf" "run' @ suf" x x] assms(2) by simp
  also have "\<dots> = 0"
    using assms(1) v' unfolding verify_checksum_def x_def by (simp flip: polymod_append)
  finally have z: "foldl polymod_step (foldl polymod_step 0 d) (replicate (length suf) 0) = 0"
    by simp
  have d32: "\<forall>v\<in>set d. unat v < 32"
    using assms(4) by (auto simp: d_def elim!: in_set_zipE intro!: b32)
  have d6: "length d \<le> 6"
    using assms(2, 3) by (simp add: d_def)
  have "low30 (foldl polymod_step 0 d)"
    using pack_zero [OF d32 d6] d6 by (force simp: below_def low30_def)
  then have "foldl polymod_step 0 d = 0"
    using zeros_inj z by blast
  then have "\<forall>v\<in>set d. v = 0"
    using pack_zero [OF d32 d6] by blast
  then have "run ! i XOR run' ! i = 0" if "i < length run" for i
    using that assms(2) unfolding d_def all_set_conv_all_nth by simp
  then have "run = run'"
    using assms(2) by (intro nth_equalityI) (simp_all add: xor_eq_0)
  then show False
    using assms(5) by simp
qed

lemma bech32_detects_witness:
  "\<not> verify_checksum ''bc'' ([0, 14] @ [21] @ [15] @ create_checksum ''bc'' [0, 14, 20, 15])"
proof -
  have "verify_checksum ''bc'' ([0, 14] @ [20] @ [15] @ create_checksum ''bc'' [0, 14, 20, 15])"
    using create_checksum_verifies [of "''bc''" "[0, 14, 20, 15]"] by simp
  then show ?thesis
    by (rule bech32_detects) simp_all
qed

section \<open>Bech32Address: encodings\<close>

lemma Bech32Address_json:
  assumes "json_laws J" and "\<forall>v\<in>set (b32_address a). unat v < 32" and "length (b32_address a) \<le> 81"
  shows "\<exists>j. Bech32Address_ToJSON J a = Inr j \<and> Bech32Address_FromJSON J \<lparr>m_json = j\<rparr> = Inr a"
proof -
  have "list_all hrp_char ''bc''"
    by (simp add: hrp_char_def char_between_def)
  then obtain cs where "bech32_encode ''bc'' (b32_address a) = Inr (''bc'' @ CHR ''1'' # cs)"
    and "bech32_decode (''bc'' @ CHR ''1'' # cs) = Inr (''bc'', b32_address a)"
    using bech32_encoded [of "''bc''" "b32_address a"] assms by auto
  then show ?thesis
    using assms(1)
    by (simp add: Bech32Address_ToJSON_def Bech32Address_FromJSON_def Json_Get_def json_laws_simps)
qed

text \<open>The length prefix is one byte: up to 255 values the class reads back what it wrote, beyond it does not.\<close>

definition Bech32Address_enc :: "Bech32Address \<Rightarrow> bytes" where
  "Bech32Address_enc a = be_bytes (of_nat (length (b32_address a)) :: u8) @ b32_address a"

interpretation Bech32Address_codec: codec "Bech32Address_Serialize be" "Bech32Address_Deserialize be"
    Bech32Address_enc "\<lambda>a. length (b32_address a) < 256" for be
proof
  show "appends (Bech32Address_Serialize be a) (Bech32Address_enc a)" for a
    by (simp add: appends_def Bech32Address_Serialize_def Bech32Address_enc_def AppendVec_def Append_eq)
  show "decodes (Bech32Address_Deserialize be) a (Bech32Address_enc a)" if "length (b32_address a) < 256" for a
  proof -
    have "unat (ucast (of_nat (length (b32_address a)) :: u8) :: u64) = length (b32_address a)"
      using that by (simp add: unsigned_ucast_eq take_bit_nat_eq_self unat_of_nat take_bit_nat_def)
    then show ?thesis
      unfolding Bech32Address_Deserialize_def Bech32Address_enc_def
      by (intro decodes_bind [OF decodes_Read] decodes_bind_return [where x = "b32_address a"] decodes_ReadVector) (simp_all, cases a, simp)
  qed
  show "reader_safe (Bech32Address_Deserialize be)"
  proof -
    have "unat (ucast (n :: u8) :: u64) < 2 ^ 63" for n
      using unsigned_less [of n, where 'a = nat] by (simp add: unsigned_ucast_eq take_bit_nat_eq_self)
    then show ?thesis
      unfolding Bech32Address_Deserialize_def by (intro reader_safe_bind reader_safe_ReadVector) auto
  qed
qed

lemma Bech32Address_Serialize_truncates:
  "\<not> decodes (Bech32Address_Deserialize be) a (Bech32Address_enc a)" if "length (b32_address a) = 256"
proof
  assume "decodes (Bech32Address_Deserialize be) a (Bech32Address_enc a)"
  moreover have "decodes (Bech32Address_Deserialize be) \<lparr>b32_address = []\<rparr> (be_bytes (0 :: u8))"
    using Bech32Address_codec.des_enc [of "\<lparr>b32_address = []\<rparr>" be] by (simp add: Bech32Address_enc_def)
  moreover have "(of_nat (length (b32_address a)) :: u8) = 0"
    unfolding that by simp
  ultimately have "a = \<lparr>b32_address = []\<rparr>"
    using that decodes_unique [of "Bech32Address_Deserialize be" a "Bech32Address_enc a" "\<lparr>b32_address = []\<rparr>" "be_bytes (0 :: u8)" "[]" "b32_address a"]
    by (simp add: Bech32Address_enc_def le_bytes_def)
  then show False
    using that by simp
qed

end
