(* ===== verification/MW_Scheduler.thy ===== *)
theory MW_Scheduler
  imports MW_Prelude
begin

text \<open>
  The scheduler of \<^verbatim>\<open>include/mw/core/common/Scheduler.h\<close> as a state machine. A step is one critical section of
  \<^verbatim>\<open>m_taskMutex\<close>, or one access outside of it, of one of the threads: the callers of \<^verbatim>\<open>RunEvery\<close>, \<^verbatim>\<open>RunOnce\<close> and
  \<^verbatim>\<open>RemoveTask\<close>, the main thread, the workers, and the thread that runs the destructor. Any interleaving of
  them is a trace; the clock ticks at any point. What a trace can run into is a value of \<open>crash\<close>.
\<close>

section \<open>Tasks and the scheduler's state\<close>

text \<open>The body of a task is opaque: how a run of it ends is part of the event that runs it.\<close>

record 'f Task =
  t_task :: 'f
  t_intervalOpt :: "int option"

datatype outcome = Returns | ThrowsStd | ThrowsOther

datatype crash = DanglingIterator | EraseEnd | Terminated

text \<open>Where a worker is: the line of \<^verbatim>\<open>Worker\<close> it executes next.\<close>

datatype worker_pc =
    W_Loop \<comment> \<open>124: the test of the loop\<close>
  | W_Tested \<comment> \<open>126: about to take the lock and wait\<close>
  | W_Waiting \<comment> \<open>127: blocked in wait\<close>
  | W_Woken \<comment> \<open>128: woken, with the lock once it gets it\<close>
  | W_Popped u32 \<comment> \<open>142: about to look the task up\<close>
  | W_Executing u32 \<comment> \<open>145\<close>
  | W_Executed u32 \<comment> \<open>146\<close>
  | W_Finishing u32 "int option" \<comment> \<open>148\<close>
  | W_Done

datatype main_pc = M_Loop | M_Body | M_Done

datatype dtor_pc = D_None | D_Stopped | D_Notified

text \<open>
  \<open>s_tasks\<close> is the multimap in its iteration order. Of the callers, \<open>s_calls\<close> holds those between
  the increment of \<^verbatim>\<open>m_nextId\<close> and the lock, \<open>s_log\<close> the ids of the tasks that were run.
\<close>

record 'f Scheduler =
  s_stop :: bool
  s_nextId :: u32
  s_tasksById :: "u32 \<Rightarrow> 'f Task option"
  s_tasks :: "(int \<times> u32) list"
  s_workers :: "worker_pc list"
  s_main :: main_pc
  s_dtor :: dtor_pc
  s_calls :: "(u32 \<times> 'f Task) list"
  s_now :: int
  s_log :: "u32 list"

text \<open>\<^verbatim>\<open>m_nextId\<close> is not initialised: its first value is an argument.\<close>

definition Scheduler_Create :: "u8 \<Rightarrow> u32 \<Rightarrow> int \<Rightarrow> 'f Scheduler" where
  "Scheduler_Create numThreads id0 now =
     \<lparr>s_stop = False, s_nextId = id0, s_tasksById = (\<lambda>_. None), s_tasks = [],
      s_workers = replicate (unat numThreads) W_Loop, s_main = M_Loop, s_dtor = D_None, s_calls = [],
      s_now = now, s_log = []\<rparr>"

section \<open>The containers and the condition variable\<close>

fun multimap_insert :: "int \<times> u32 \<Rightarrow> (int \<times> u32) list \<Rightarrow> (int \<times> u32) list" where
  "multimap_insert p [] = [p]"
| "multimap_insert p (q # qs) = (if fst q \<le> fst p then q # multimap_insert p qs else p # q # qs)"

definition umap_insert :: "'k \<Rightarrow> 'v \<Rightarrow> ('k \<Rightarrow> 'v option) \<Rightarrow> 'k \<Rightarrow> 'v option" where
  "umap_insert k v m = (case m k of Some _ \<Rightarrow> m | None \<Rightarrow> m(k \<mapsto> v))"

text \<open>\<^verbatim>\<open>notify_one\<close> wakes one of the waiting workers, \<open>w\<close> say, or none when none waits.\<close>

definition notify_one :: "nat \<Rightarrow> worker_pc list \<Rightarrow> worker_pc list option" where
  "notify_one w ws = (if W_Waiting \<in> set ws
     then if w < length ws \<and> ws ! w = W_Waiting then Some (ws[w := W_Woken]) else None
     else Some ws)"

definition notify_all :: "worker_pc list \<Rightarrow> worker_pc list" where
  "notify_all = map (\<lambda>p. if p = W_Waiting then W_Woken else p)"

section \<open>The callers\<close>

definition take_id :: "'f Task \<Rightarrow> 'f Scheduler \<Rightarrow> 'f Scheduler" where
  "take_id t s = s\<lparr>s_nextId := s_nextId s + 1, s_calls := s_calls s @ [(s_nextId s, t)]\<rparr>"

definition RunEvery_locked :: "u32 \<Rightarrow> 'f Task \<Rightarrow> int \<Rightarrow> 'f Scheduler \<Rightarrow> 'f Scheduler" where
  "RunEvery_locked taskId t interval s =
     s\<lparr>s_tasksById := umap_insert taskId t (s_tasksById s),
       s_tasks := multimap_insert (s_now s + interval, taskId) (s_tasks s)\<rparr>"

definition RunOnce_locked :: "nat \<Rightarrow> u32 \<Rightarrow> 'f Task \<Rightarrow> 'f Scheduler \<Rightarrow> 'f Scheduler option" where
  "RunOnce_locked w taskId t s =
     map_option (\<lambda>ws. s\<lparr>s_tasksById := umap_insert taskId t (s_tasksById s),
       s_tasks := multimap_insert (s_now s, taskId) (s_tasks s), s_workers := ws\<rparr>) (notify_one w (s_workers s))"

text \<open>The \<open>k\<close>-th of the calls that have taken their id gets the lock.\<close>

definition insert_call :: "nat \<Rightarrow> nat \<Rightarrow> 'f Scheduler \<Rightarrow> 'f Scheduler option" where
  "insert_call k w s = (if k < length (s_calls s)
     then let (taskId, t) = s_calls s ! k;
              s' = s\<lparr>s_calls := take k (s_calls s) @ drop (Suc k) (s_calls s)\<rparr>
          in case t_intervalOpt t of
               Some interval \<Rightarrow> Some (RunEvery_locked taskId t interval s')
             | None \<Rightarrow> RunOnce_locked w taskId t s'
     else None)"

definition RemoveTask :: "u32 \<Rightarrow> 'f Scheduler \<Rightarrow> 'f Scheduler" where
  "RemoveTask taskId s = (case s_tasksById s taskId of
     Some _ \<Rightarrow> s\<lparr>s_tasksById := (s_tasksById s)(taskId := None)\<rparr> | None \<Rightarrow> s)"

section \<open>The threads\<close>

definition due :: "'f Scheduler \<Rightarrow> bool" where
  "due s \<longleftrightarrow> (case s_tasks s of [] \<Rightarrow> False | q # qs \<Rightarrow> fst q \<le> s_now s)"

definition main_test :: "'f Scheduler \<Rightarrow> 'f Scheduler option" where
  "main_test s = (if s_main s = M_Loop then Some (s\<lparr>s_main := (if s_stop s then M_Done else M_Body)\<rparr>) else None)"

definition main_body :: "nat \<Rightarrow> 'f Scheduler \<Rightarrow> 'f Scheduler option" where
  "main_body w s = (if s_main s = M_Body
     then if due s then map_option (\<lambda>ws. s\<lparr>s_workers := ws, s_main := M_Loop\<rparr>) (notify_one w (s_workers s))
          else Some (s\<lparr>s_main := M_Loop\<rparr>)
     else None)"

definition set_pc :: "nat \<Rightarrow> worker_pc \<Rightarrow> 'f Scheduler \<Rightarrow> 'f Scheduler" where
  "set_pc i p s = s\<lparr>s_workers := (s_workers s)[i := p]\<rparr>"

text \<open>One step of worker \<open>i\<close>; \<open>r\<close> is how the task ends that it runs, if it runs one.\<close>

definition worker_step :: "nat \<Rightarrow> outcome \<Rightarrow> 'f Scheduler \<Rightarrow> (crash + 'f Scheduler) option" where
  "worker_step i r s = (if i < length (s_workers s)
     then case s_workers s ! i of
         W_Loop \<Rightarrow> Some (Inr (set_pc i (if s_stop s then W_Done else W_Tested) s))
       | W_Tested \<Rightarrow> Some (Inr (set_pc i W_Waiting s))
       | W_Waiting \<Rightarrow> None
       | W_Woken \<Rightarrow>
           if s_stop s then Some (Inr (set_pc i W_Done s))
           else if \<not> due s then Some (Inr (set_pc i W_Loop s))
           else Some (Inr (set_pc i (W_Popped (snd (hd (s_tasks s)))) (s\<lparr>s_tasks := tl (s_tasks s)\<rparr>)))
       | W_Popped taskId \<Rightarrow>
           Some (Inr (set_pc i (if s_tasksById s taskId \<noteq> None then W_Executing taskId else W_Loop) s))
       | W_Executing taskId \<Rightarrow> (case s_tasksById s taskId of
           None \<Rightarrow> Some (Inl DanglingIterator)
         | Some t \<Rightarrow> (case r of
             ThrowsOther \<Rightarrow> Some (Inl Terminated)
           | _ \<Rightarrow> Some (Inr (set_pc i (W_Executed taskId) (s\<lparr>s_log := s_log s @ [taskId]\<rparr>)))))
       | W_Executed taskId \<Rightarrow> (case s_tasksById s taskId of
           None \<Rightarrow> Some (Inl DanglingIterator)
         | Some t \<Rightarrow> Some (Inr (set_pc i (W_Finishing taskId (t_intervalOpt t)) s)))
       | W_Finishing taskId (Some interval) \<Rightarrow>
           Some (Inr (set_pc i W_Loop (s\<lparr>s_tasks := multimap_insert (s_now s + interval, taskId) (s_tasks s)\<rparr>)))
       | W_Finishing taskId None \<Rightarrow> (case s_tasksById s taskId of
           None \<Rightarrow> Some (Inl EraseEnd)
         | Some _ \<Rightarrow> Some (Inr (set_pc i W_Loop (s\<lparr>s_tasksById := (s_tasksById s)(taskId := None)\<rparr>))))
       | W_Done \<Rightarrow> None
     else None)"

text \<open>A wait may end without a notification.\<close>

definition spurious_wakeup :: "nat \<Rightarrow> 'f Scheduler \<Rightarrow> 'f Scheduler option" where
  "spurious_wakeup i s = (if i < length (s_workers s) \<and> s_workers s ! i = W_Waiting then Some (set_pc i W_Woken s) else None)"

text \<open>The destructor sets the flag without the lock, joins the main thread, and notifies all workers before it joins them.\<close>

definition dtor_stop :: "'f Scheduler \<Rightarrow> 'f Scheduler option" where
  "dtor_stop s = (if s_dtor s = D_None then Some (s\<lparr>s_stop := True, s_dtor := D_Stopped\<rparr>) else None)"

definition dtor_notify :: "'f Scheduler \<Rightarrow> 'f Scheduler option" where
  "dtor_notify s = (if s_dtor s = D_Stopped \<and> s_main s = M_Done
     then Some (s\<lparr>s_workers := notify_all (s_workers s), s_dtor := D_Notified\<rparr>) else None)"

section \<open>Traces\<close>

datatype 'f event =
    CallRunEvery 'f int
  | CallRunOnce 'f
  | CallLocked nat nat
  | CallRemoveTask u32
  | MainTest
  | MainBody nat
  | WorkerStep nat outcome
  | Spurious nat
  | DtorStop
  | DtorNotify
  | Tick nat

definition sched_event :: "'f event \<Rightarrow> 'f Scheduler \<Rightarrow> (crash + 'f Scheduler) option" where
  "sched_event e s = (case e of
       CallRunEvery task interval \<Rightarrow> Some (Inr (take_id \<lparr>t_task = task, t_intervalOpt = Some interval\<rparr> s))
     | CallRunOnce task \<Rightarrow> Some (Inr (take_id \<lparr>t_task = task, t_intervalOpt = None\<rparr> s))
     | CallLocked k w \<Rightarrow> map_option Inr (insert_call k w s)
     | CallRemoveTask taskId \<Rightarrow> Some (Inr (RemoveTask taskId s))
     | MainTest \<Rightarrow> map_option Inr (main_test s)
     | MainBody w \<Rightarrow> map_option Inr (main_body w s)
     | WorkerStep i r \<Rightarrow> worker_step i r s
     | Spurious i \<Rightarrow> map_option Inr (spurious_wakeup i s)
     | DtorStop \<Rightarrow> map_option Inr (dtor_stop s)
     | DtorNotify \<Rightarrow> map_option Inr (dtor_notify s)
     | Tick d \<Rightarrow> Some (Inr (s\<lparr>s_now := s_now s + int d\<rparr>)))"

fun sched_run :: "'f event list \<Rightarrow> 'f Scheduler \<Rightarrow> (crash + 'f Scheduler) option" where
  "sched_run [] s = Some (Inr s)"
| "sched_run (e # es) s = (case sched_event e s of
     Some (Inr s') \<Rightarrow> sched_run es s' | Some (Inl c) \<Rightarrow> (if es = [] then Some (Inl c) else None) | None \<Rightarrow> None)"

fun is_remove :: "'f event \<Rightarrow> bool" where
  "is_remove (CallRemoveTask _) = True"
| "is_remove _ = False"

fun is_call :: "'f event \<Rightarrow> bool" where
  "is_call (CallRunEvery _ _) = True"
| "is_call (CallRunOnce _) = True"
| "is_call _ = False"

text \<open>The states that a scheduler reaches without RemoveTask, and the number of ids it has given out.\<close>

inductive sched_reach :: "u32 \<Rightarrow> nat \<Rightarrow> 'f Scheduler \<Rightarrow> bool" for id0 where
  reach_Create: "sched_reach id0 0 (Scheduler_Create numThreads id0 now)"
| reach_call: "sched_reach id0 n s \<Longrightarrow> is_call e \<Longrightarrow> sched_event e s = Some (Inr s') \<Longrightarrow> sched_reach id0 (Suc n) s'"
| reach_step: "sched_reach id0 n s \<Longrightarrow> \<not> is_call e \<Longrightarrow> \<not> is_remove e \<Longrightarrow> sched_event e s = Some (Inr s') \<Longrightarrow>
    sched_reach id0 n s'"

section \<open>Who holds a task\<close>

fun held :: "worker_pc \<Rightarrow> u32 option" where
  "held (W_Popped taskId) = Some taskId"
| "held (W_Executing taskId) = Some taskId"
| "held (W_Executed taskId) = Some taskId"
| "held (W_Finishing taskId interval) = Some taskId"
| "held _ = None"

fun has_run :: "worker_pc \<Rightarrow> u32 option" where
  "has_run (W_Executed taskId) = Some taskId"
| "has_run (W_Finishing taskId interval) = Some taskId"
| "has_run _ = None"

definition workers_at :: "(worker_pc \<Rightarrow> u32 option) \<Rightarrow> u32 \<Rightarrow> worker_pc list \<Rightarrow> int" where
  "workers_at f taskId ws = int (length (filter (\<lambda>p. f p = Some taskId) ws))"

definition pending :: "u32 \<Rightarrow> (int \<times> u32) list \<Rightarrow> int" where
  "pending taskId ts = int (length (filter (\<lambda>q. snd q = taskId) ts))"

definition runs :: "u32 \<Rightarrow> 'f Scheduler \<Rightarrow> int" where
  "runs taskId s = int (length (filter (\<lambda>i. i = taskId) (s_log s)))"

lemma workers_at_update:
  "i < length ws \<Longrightarrow> workers_at f taskId (ws[i := p]) =
     workers_at f taskId ws - of_bool (f (ws ! i) = Some taskId) + of_bool (f p = Some taskId)"
proof (induction ws arbitrary: i)
  case (Cons w ws)
  then show ?case
    by (cases i) (auto simp: workers_at_def)
qed simp

lemma workers_at_pos: "i < length ws \<Longrightarrow> f (ws ! i) = Some taskId \<Longrightarrow> 1 \<le> workers_at f taskId ws"
  by (auto simp: workers_at_def Suc_le_eq filter_empty_conv)

lemma workers_at_nonneg: "0 \<le> workers_at f taskId ws"
  by (simp add: workers_at_def)

lemma has_run_held: "has_run p = Some taskId \<Longrightarrow> held p = Some taskId"
  by (cases p) auto

lemma has_run_le_held: "workers_at has_run taskId ws \<le> workers_at held taskId ws"
  unfolding workers_at_def by (induction ws) (auto dest: has_run_held)

lemma pending_nonneg: "0 \<le> pending taskId ts"
  by (simp add: pending_def)

lemma pending_insert: "pending taskId (multimap_insert (t, i) ts) = pending taskId ts + of_bool (i = taskId)"
  by (induction ts) (auto simp: pending_def)

lemma pending_tl: "due s \<Longrightarrow> pending taskId (tl (s_tasks s)) = pending taskId (s_tasks s) - of_bool (snd (hd (s_tasks s)) = taskId)"
  by (cases "s_tasks s") (auto simp: due_def pending_def)

lemma sorted_multimap_insert: "sorted (map fst ts) \<Longrightarrow> sorted (map fst (multimap_insert p ts))"
proof (induction ts)
  case (Cons q qs)
  have "set (map fst (multimap_insert p qs)) = insert (fst p) (fst ` set qs)"
    by (induction qs) auto
  with Cons show ?case
    by auto
qed simp

section \<open>The invariant\<close>

definition given_out :: "u32 \<Rightarrow> nat \<Rightarrow> u32 set" where
  "given_out id0 n = {id0 + of_nat k | k. k < n}"

definition owned :: "'f Scheduler \<Rightarrow> bool" where
  "owned s \<longleftrightarrow> (\<forall>taskId. pending taskId (s_tasks s) + workers_at held taskId (s_workers s) =
     of_bool (s_tasksById s taskId \<noteq> None))"

definition ids_ok :: "u32 \<Rightarrow> nat \<Rightarrow> 'f Scheduler \<Rightarrow> bool" where
  "ids_ok id0 n s \<longleftrightarrow> s_nextId s = id0 + of_nat n \<and> distinct (map fst (s_calls s)) \<and>
     fst ` set (s_calls s) \<union> dom (s_tasksById s) \<subseteq> given_out id0 n \<and> fst ` set (s_calls s) \<inter> dom (s_tasksById s) = {}"

definition finishing_ok :: "'f Scheduler \<Rightarrow> bool" where
  "finishing_ok s \<longleftrightarrow> (\<forall>taskId interval. W_Finishing taskId interval \<in> set (s_workers s) \<longrightarrow>
     map_option t_intervalOpt (s_tasksById s taskId) = Some interval)"

definition log_ok :: "u32 \<Rightarrow> nat \<Rightarrow> 'f Scheduler \<Rightarrow> bool" where
  "log_ok id0 n s \<longleftrightarrow> (\<forall>taskId.
     (\<forall>t. s_tasksById s taskId = Some t \<longrightarrow> t_intervalOpt t = None \<longrightarrow>
        runs taskId s = workers_at has_run taskId (s_workers s)) \<and>
     (s_tasksById s taskId = None \<longrightarrow>
        runs taskId s = of_bool (taskId \<in> given_out id0 n \<and> taskId \<notin> fst ` set (s_calls s))))"

definition sched_inv :: "u32 \<Rightarrow> nat \<Rightarrow> 'f Scheduler \<Rightarrow> bool" where
  "sched_inv id0 n s \<longleftrightarrow> owned s \<and> ids_ok id0 n s \<and> finishing_ok s \<and> log_ok id0 n s \<and> sorted (map fst (s_tasks s))"

lemma sched_invI:
  "owned s \<Longrightarrow> ids_ok id0 n s \<Longrightarrow> finishing_ok s \<Longrightarrow> log_ok id0 n s \<Longrightarrow> sorted (map fst (s_tasks s)) \<Longrightarrow> sched_inv id0 n s"
  by (simp add: sched_inv_def)

lemma sched_invD:
  assumes "sched_inv id0 n s"
  shows "owned s" "ids_ok id0 n s" "finishing_ok s" "log_ok id0 n s" "sorted (map fst (s_tasks s))"
  using assms by (simp_all add: sched_inv_def)

lemma held_registered:
  assumes "owned s" and "i < length (s_workers s)" and "held (s_workers s ! i) = Some taskId"
  shows "s_tasksById s taskId \<noteq> None" and "workers_at held taskId (s_workers s) = 1"
    and "pending taskId (s_tasks s) = 0"
proof -
  have "1 \<le> workers_at held taskId (s_workers s)"
    using workers_at_pos [of i "s_workers s" held taskId] assms(2, 3) by simp
  moreover have "pending taskId (s_tasks s) + workers_at held taskId (s_workers s) = of_bool (s_tasksById s taskId \<noteq> None)"
    using assms(1) by (simp add: owned_def)
  moreover note pending_nonneg [of taskId "s_tasks s"]
  ultimately show "s_tasksById s taskId \<noteq> None" "workers_at held taskId (s_workers s) = 1" "pending taskId (s_tasks s) = 0"
    by (auto simp: of_bool_def split: if_splits)
qed

text \<open>Steps that move workers holding nothing, threads or the clock leave everything the invariant reads.\<close>

fun quiet :: "worker_pc \<Rightarrow> worker_pc" where
  "quiet p = (if held p = None then W_Loop else p)"

lemma quiet_held: "held (quiet p) = held p" "has_run (quiet p) = has_run p"
  by (cases p; simp)+

lemma quiet_workers_at:
  assumes "map quiet ws' = map quiet ws"
  shows "workers_at held taskId ws' = workers_at held taskId ws" and "workers_at has_run taskId ws' = workers_at has_run taskId ws"
proof -
  have *: "workers_at f taskId ws = workers_at f taskId (map quiet ws)" if "\<And>p. f (quiet p) = f p" for f ws
    using that by (simp add: workers_at_def filter_map o_def)
  show "workers_at held taskId ws' = workers_at held taskId ws" "workers_at has_run taskId ws' = workers_at has_run taskId ws"
    using assms *[of held ws] *[of held ws'] *[of has_run ws] *[of has_run ws'] quiet_held by auto
qed

lemma quiet_finishing:
  assumes "map quiet ws' = map quiet ws"
  shows "W_Finishing taskId interval \<in> set ws' \<longleftrightarrow> W_Finishing taskId interval \<in> set ws"
proof -
  have q: "quiet p = W_Finishing taskId interval \<longleftrightarrow> p = W_Finishing taskId interval" for p
    by (cases p) auto
  have "W_Finishing taskId interval \<in> set ws \<longleftrightarrow> W_Finishing taskId interval \<in> set (map quiet ws)" for ws
    unfolding set_map image_iff using q by (metis q)
  then show ?thesis
    using assms by metis
qed

lemma sched_inv_frame:
  assumes "sched_inv id0 n s" and "map quiet (s_workers s') = map quiet (s_workers s)"
    and "s_tasks s' = s_tasks s" and "s_tasksById s' = s_tasksById s" and "s_calls s' = s_calls s"
    and "s_nextId s' = s_nextId s" and "s_log s' = s_log s"
  shows "sched_inv id0 n s'"
  using assms(1) unfolding sched_inv_def owned_def ids_ok_def finishing_ok_def log_ok_def runs_def
  by (simp add: assms(3-) quiet_workers_at [OF assms(2)] quiet_finishing [OF assms(2)] del: quiet.simps)

lemma quiet_update:
  "i < length ws \<Longrightarrow> held (ws ! i) = None \<Longrightarrow> held p = None \<Longrightarrow> map quiet (ws[i := p]) = map quiet ws"
  by (simp add: map_update) (metis list_update_id length_map nth_map quiet.simps)

section \<open>Every step keeps it\<close>

lemma inv_Create: "sched_inv id0 0 (Scheduler_Create numThreads id0 now)"
  by (rule sched_invI)
    (auto simp: Scheduler_Create_def owned_def ids_ok_def finishing_ok_def log_ok_def runs_def pending_def workers_at_def given_out_def)

lemma given_out_Suc: "given_out id0 (Suc n) = insert (id0 + of_nat n) (given_out id0 n)"
  by (auto simp: given_out_def less_Suc_eq)

lemma given_out_fresh: "n < 2 ^ 32 \<Longrightarrow> id0 + of_nat n \<notin> given_out id0 n"
proof
  assume n: "n < 2 ^ 32" and "id0 + of_nat n \<in> given_out id0 n"
  then obtain k where k: "k < n" "(of_nat n :: u32) = of_nat k"
    by (auto simp: given_out_def)
  then have "unat (of_nat n :: u32) = unat (of_nat k :: u32)"
    by simp
  then show False
    using k(1) n by (simp add: unat_of_nat)
qed

lemma inv_take_id:
  assumes "sched_inv id0 n s" and "n < 2 ^ 32"
  shows "sched_inv id0 (Suc n) (take_id t s)"
proof (rule sched_invI)
  have nx: "s_nextId s = id0 + of_nat n" and fresh: "s_nextId s \<notin> given_out id0 n"
    using sched_invD(2) [OF assms(1)] given_out_fresh [OF assms(2), of id0] by (simp_all add: ids_ok_def)
  show "owned (take_id t s)" "finishing_ok (take_id t s)" "sorted (map fst (s_tasks (take_id t s)))"
    using sched_invD [OF assms(1)] by (simp_all add: take_id_def owned_def finishing_ok_def)
  show "ids_ok id0 (Suc n) (take_id t s)"
    using sched_invD(2) [OF assms(1)] nx fresh by (auto simp: take_id_def ids_ok_def given_out_Suc)
  show "log_ok id0 (Suc n) (take_id t s)"
    using sched_invD(4) [OF assms(1)] nx fresh
    by (auto simp: take_id_def log_ok_def runs_def given_out_Suc)
qed

lemma notify_one_quiet: "notify_one w ws = Some ws' \<Longrightarrow> map quiet ws' = map quiet ws"
  using quiet_update [of w ws W_Woken] by (auto simp: notify_one_def simp del: quiet.simps split: if_splits)

lemma notify_all_quiet: "map quiet (notify_all ws) = map quiet ws"
  by (auto simp: notify_all_def)

text \<open>A call that gets the lock: its id is new, so the task is registered and due for the first time.\<close>

lemma inv_register:
  assumes inv: "sched_inv id0 n s" and call: "k < length (s_calls s)" "s_calls s ! k = (taskId, t)"
  shows "sched_inv id0 n (s\<lparr>s_calls := take k (s_calls s) @ drop (Suc k) (s_calls s),
    s_tasksById := umap_insert taskId t (s_tasksById s), s_tasks := multimap_insert (d, taskId) (s_tasks s)\<rparr>)"
    (is "sched_inv id0 n ?s")
proof (rule sched_invI)
  let ?rest = "take k (s_calls s) @ drop (Suc k) (s_calls s)"
  note own = sched_invD(1) [OF inv] and ids = sched_invD(2) [OF inv] and fin = sched_invD(3) [OF inv] and log = sched_invD(4) [OF inv]
  have split: "s_calls s = take k (s_calls s) @ (taskId, t) # drop (Suc k) (s_calls s)"
    using call by (metis id_take_nth_drop)
  have mem: "taskId \<in> fst ` set (s_calls s)"
    using call nth_mem by force
  have new: "s_tasksById s taskId = None"
    using ids mem by (auto simp: ids_ok_def)
  have um: "umap_insert taskId t (s_tasksById s) = (s_tasksById s)(taskId \<mapsto> t)"
    by (simp add: umap_insert_def new)
  have dist: "distinct (map fst (s_calls s))"
    using ids by (simp add: ids_ok_def)
  then have "distinct (map fst (take k (s_calls s) @ (taskId, t) # drop (Suc k) (s_calls s)))"
    using split by metis
  then have rest: "taskId \<notin> fst ` set ?rest" "distinct (map fst ?rest)"
    by auto
  have "set (s_calls s) = insert (taskId, t) (set ?rest)"
    by (subst split) auto
  then have calls: "fst ` set (s_calls s) = insert taskId (fst ` set ?rest)"
    by simp
  have held0: "workers_at held taskId (s_workers s) = 0"
    using own new pending_nonneg [of taskId "s_tasks s"] workers_at_nonneg [of held taskId "s_workers s"]
    by (auto simp: owned_def dest!: spec [of _ taskId])
  show "owned ?s"
    using own new by (auto simp: owned_def um pending_insert)
  show "ids_ok id0 n ?s"
    using ids rest calls by (auto simp: ids_ok_def um)
  show "finishing_ok ?s"
    using fin new by (fastforce simp: finishing_ok_def um)
  show "sorted (map fst (s_tasks ?s))"
    using sched_invD(5) [OF inv] by (simp add: sorted_multimap_insert)
  have "workers_at has_run taskId (s_workers s) = 0"
    using held0 has_run_le_held [of taskId "s_workers s"] workers_at_nonneg [of has_run taskId "s_workers s"] by simp
  moreover have "runs taskId s = 0"
    using log new mem by (simp add: log_ok_def)
  ultimately show "log_ok id0 n ?s"
    using log rest calls by (auto simp: log_ok_def um runs_def)
qed

lemma inv_insert_call:
  assumes "sched_inv id0 n s" and "insert_call k w s = Some s'"
  shows "sched_inv id0 n s'"
proof -
  obtain taskId t where k: "k < length (s_calls s)" "s_calls s ! k = (taskId, t)"
    using assms(2) by (cases "s_calls s ! k") (auto simp: insert_call_def split: if_splits)
  note reg = inv_register [OF assms(1) k]
  show ?thesis
  proof (cases "t_intervalOpt t")
    case None
    then show ?thesis
      using assms(2) k notify_one_quiet
      by (auto simp: insert_call_def RunOnce_locked_def simp del: quiet.simps intro!: sched_inv_frame [OF reg [of "s_now s"]])
  next
    case (Some iv)
    then show ?thesis
      using assms(2) k reg [of "s_now s + iv"] by (auto simp: insert_call_def RunEvery_locked_def)
  qed
qed

text \<open>The steps of a worker that holds a task or takes one.\<close>

lemma finishing_update:
  "finishing_ok s \<Longrightarrow> (\<And>taskId iv. p = W_Finishing taskId iv \<Longrightarrow> map_option t_intervalOpt (s_tasksById s taskId) = Some iv) \<Longrightarrow>
     finishing_ok (set_pc i p s)"
  unfolding finishing_ok_def set_pc_def using set_update_subset_insert [of "s_workers s" i p] by fastforce

lemma inv_pop:
  assumes inv: "sched_inv id0 n s" and i: "i < length (s_workers s)" "s_workers s ! i = W_Woken" and "due s"
  shows "sched_inv id0 n (set_pc i (W_Popped (snd (hd (s_tasks s)))) (s\<lparr>s_tasks := tl (s_tasks s)\<rparr>))"
proof (rule sched_invI)
  let ?s = "set_pc i (W_Popped (snd (hd (s_tasks s)))) (s\<lparr>s_tasks := tl (s_tasks s)\<rparr>)"
  show "owned ?s"
    using sched_invD(1) [OF inv] i pending_tl [OF assms(4)] by (auto simp: owned_def set_pc_def workers_at_update)
  show "ids_ok id0 n ?s"
    using sched_invD(2) [OF inv] by (simp add: ids_ok_def set_pc_def)
  show "finishing_ok ?s"
    using sched_invD(3) [OF inv] by (intro finishing_update) (auto simp: finishing_ok_def)
  show "log_ok id0 n ?s"
    using sched_invD(4) [OF inv] i by (auto simp: log_ok_def set_pc_def runs_def workers_at_update)
  show "sorted (map fst (s_tasks ?s))"
    using sched_invD(5) [OF inv] by (cases "s_tasks s") (auto simp: set_pc_def)
qed

lemma inv_move:
  assumes inv: "sched_inv id0 n s" and i: "i < length (s_workers s)"
    and "held p = held (s_workers s ! i)" and "has_run p = has_run (s_workers s ! i)"
    and "\<And>taskId iv. p = W_Finishing taskId iv \<Longrightarrow> map_option t_intervalOpt (s_tasksById s taskId) = Some iv"
  shows "sched_inv id0 n (set_pc i p s)"
proof (rule sched_invI)
  show "owned (set_pc i p s)" "log_ok id0 n (set_pc i p s)"
    using sched_invD(1,4) [OF inv] assms(2-4) by (auto simp: owned_def log_ok_def runs_def set_pc_def workers_at_update)
  show "finishing_ok (set_pc i p s)"
    using sched_invD(3) [OF inv] assms(5) by (rule finishing_update)
qed (use sched_invD(2,5) [OF inv] in \<open>simp_all add: ids_ok_def set_pc_def\<close>)

lemma inv_execute:
  assumes inv: "sched_inv id0 n s" and i: "i < length (s_workers s)" "s_workers s ! i = W_Executing taskId"
  shows "sched_inv id0 n (set_pc i (W_Executed taskId) (s\<lparr>s_log := s_log s @ [taskId]\<rparr>))" (is "sched_inv id0 n ?s")
proof (rule sched_invI)
  have reg: "s_tasksById s taskId \<noteq> None"
    using held_registered(1) [OF sched_invD(1) [OF inv] i(1)] i by simp
  show "owned ?s"
    using sched_invD(1) [OF inv] i by (auto simp: owned_def set_pc_def workers_at_update)
  show "finishing_ok ?s"
    using sched_invD(3) [OF inv] by (intro finishing_update) (auto simp: finishing_ok_def)
  show "log_ok id0 n ?s"
    using sched_invD(4) [OF inv] i reg by (auto simp: log_ok_def set_pc_def runs_def workers_at_update)
qed (use sched_invD(2,5) [OF inv] in \<open>simp_all add: ids_ok_def set_pc_def\<close>)

lemma inv_requeue:
  assumes inv: "sched_inv id0 n s" and i: "i < length (s_workers s)" "s_workers s ! i = W_Finishing taskId (Some interval)"
  shows "sched_inv id0 n (set_pc i W_Loop (s\<lparr>s_tasks := multimap_insert (d, taskId) (s_tasks s)\<rparr>))" (is "sched_inv id0 n ?s")
proof (rule sched_invI)
  have "map_option t_intervalOpt (s_tasksById s taskId) = Some (Some interval)"
    using sched_invD(3) [OF inv] i nth_mem [OF i(1)] by (auto simp: finishing_ok_def)
  then obtain t where t: "s_tasksById s taskId = Some t" "t_intervalOpt t = Some interval"
    by auto
  show "owned ?s"
    using sched_invD(1) [OF inv] i by (auto simp: owned_def set_pc_def workers_at_update pending_insert)
  show "finishing_ok ?s"
    using sched_invD(3) [OF inv] by (intro finishing_update) (auto simp: finishing_ok_def)
  show "log_ok id0 n ?s"
    using sched_invD(4) [OF inv] i t by (auto simp: log_ok_def set_pc_def runs_def workers_at_update)
qed (use sched_invD(2,5) [OF inv] in \<open>simp_all add: ids_ok_def set_pc_def sorted_multimap_insert\<close>)

lemma inv_erase:
  assumes inv: "sched_inv id0 n s" and i: "i < length (s_workers s)" "s_workers s ! i = W_Finishing taskId None"
  shows "sched_inv id0 n (set_pc i W_Loop (s\<lparr>s_tasksById := (s_tasksById s)(taskId := None)\<rparr>))" (is "sched_inv id0 n ?s")
proof (rule sched_invI)
  note h = held_registered [OF sched_invD(1) [OF inv] i(1), of taskId]
  have "map_option t_intervalOpt (s_tasksById s taskId) = Some None"
    using sched_invD(3) [OF inv] i nth_mem [OF i(1)] by (auto simp: finishing_ok_def)
  then obtain t where t: "s_tasksById s taskId = Some t" "t_intervalOpt t = None"
    by auto
  have ran1: "workers_at has_run taskId (s_workers s) = 1"
    using h(2) i has_run_le_held [of taskId "s_workers s"] workers_at_pos [of i "s_workers s" has_run taskId] by simp
  show "owned ?s"
    using sched_invD(1) [OF inv] i h by (auto simp: owned_def set_pc_def workers_at_update)
  show "ids_ok id0 n ?s"
    using sched_invD(2) [OF inv] by (auto simp: ids_ok_def set_pc_def)
  have "False" if fin: "W_Finishing taskId iv \<in> set ((s_workers s)[i := W_Loop])" for iv
  proof -
    obtain j where "j < length ((s_workers s)[i := W_Loop])" "((s_workers s)[i := W_Loop]) ! j = W_Finishing taskId iv"
      using fin unfolding in_set_conv_nth by blast
    then have "1 \<le> workers_at held taskId ((s_workers s)[i := W_Loop])"
      using workers_at_pos [of j "(s_workers s)[i := W_Loop]" held taskId] by simp
    then show False
      using h(2) i by (simp add: workers_at_update)
  qed
  moreover have "W_Finishing k iv \<in> set (s_workers s)" if "W_Finishing k iv \<in> set ((s_workers s)[i := W_Loop])" for k iv
    using that set_update_subset_insert [of "s_workers s" i W_Loop] by blast
  ultimately show "finishing_ok ?s"
    using sched_invD(3) [OF inv] unfolding finishing_ok_def set_pc_def by fastforce
  have "taskId \<in> given_out id0 n" "taskId \<notin> fst ` set (s_calls s)"
    using sched_invD(2) [OF inv] t by (auto simp: ids_ok_def)
  then show "log_ok id0 n ?s"
    using sched_invD(4) [OF inv] i t ran1 by (auto simp: log_ok_def set_pc_def runs_def workers_at_update)
qed (use sched_invD(5) [OF inv] in \<open>simp_all add: set_pc_def\<close>)

lemma inv_worker_step:
  assumes inv: "sched_inv id0 n s" and st: "worker_step i r s = Some (Inr s')"
  shows "sched_inv id0 n s'"
proof -
  have i: "i < length (s_workers s)"
    using st by (simp add: worker_step_def split: if_splits)
  note move = inv_move [OF inv i]
  show ?thesis
  proof (cases "s_workers s ! i")
    case W_Woken
    then show ?thesis
      using st i inv_pop [OF inv i] by (auto simp: worker_step_def split: if_splits intro!: move)
  next
    case (W_Popped taskId)
    then have "s_tasksById s taskId \<noteq> None"
      using held_registered(1) [OF sched_invD(1) [OF inv] i] by simp
    then show ?thesis
      using W_Popped st i by (auto simp: worker_step_def intro!: move)
  next
    case (W_Executing taskId)
    then show ?thesis
      using st i inv_execute [OF inv i] by (auto simp: worker_step_def split: option.splits outcome.splits)
  next
    case (W_Executed taskId)
    then show ?thesis
      using st i by (auto simp: worker_step_def split: option.splits intro!: move)
  next
    case (W_Finishing taskId iv)
    then show ?thesis
      using st i inv_requeue [OF inv i] inv_erase [OF inv i]
      by (cases iv) (auto simp: worker_step_def split: option.splits)
  qed (use st i in \<open>auto simp: worker_step_def split: if_splits intro!: move\<close>)
qed

lemma inv_event:
  assumes inv: "sched_inv id0 n s" and "sched_event e s = Some (Inr s')" and "\<not> is_call e" and "\<not> is_remove e"
  shows "sched_inv id0 n s'"
proof (cases e)
  case (CallLocked k w)
  then show ?thesis
    using assms inv_insert_call by (auto simp: sched_event_def)
next
  case MainTest
  then show ?thesis
    using assms by (auto simp: sched_event_def main_test_def split: if_splits intro: sched_inv_frame [OF inv])
next
  case (MainBody w)
  then show ?thesis
    using assms notify_one_quiet
    by (auto simp: sched_event_def main_body_def simp del: quiet.simps split: if_splits intro!: sched_inv_frame [OF inv])
next
  case (WorkerStep i r)
  then show ?thesis
    using assms inv_worker_step by (auto simp: sched_event_def)
next
  case (Spurious i)
  then show ?thesis
    using assms by (auto simp: sched_event_def spurious_wakeup_def split: if_splits intro!: inv_move [OF inv])
next
  case DtorStop
  then show ?thesis
    using assms by (auto simp: sched_event_def dtor_stop_def split: if_splits intro: sched_inv_frame [OF inv])
next
  case DtorNotify
  then show ?thesis
    using assms notify_all_quiet
    by (auto simp: sched_event_def dtor_notify_def simp del: quiet.simps split: if_splits intro!: sched_inv_frame [OF inv])
next
  case (Tick d)
  then show ?thesis
    using assms by (auto simp: sched_event_def intro: sched_inv_frame [OF inv])
qed (use assms in simp_all)

lemma reach_inv:
  assumes "sched_reach id0 n s" and "n \<le> 2 ^ 32"
  shows "sched_inv id0 n s"
  using assms
proof (induction rule: sched_reach.induct)
  case (reach_Create numThreads now)
  show ?case
    by (rule inv_Create)
next
  case (reach_call n s e s')
  then have "sched_inv id0 n s" and n: "n < 2 ^ 32"
    by simp_all
  then show ?case
    using reach_call.hyps inv_take_id [of id0 n s] by (cases e) (auto simp: sched_event_def)
next
  case (reach_step n s e s')
  then show ?case
    using inv_event by blast
qed


lemma run_reach:
  assumes "sched_reach id0 n s" and "sched_run es s = Some (Inr s')" and "list_all (\<lambda>e. \<not> is_remove e) es"
  shows "sched_reach id0 (n + length (filter is_call es)) s'"
  using assms
proof (induction es arbitrary: n s)
  case (Cons e es)
  obtain s1 where s1: "sched_event e s = Some (Inr s1)" "sched_run es s1 = Some (Inr s')"
    using Cons.prems(2) by (auto split: option.splits sum.splits if_splits)
  show ?case
  proof (cases "is_call e")
    case True
    then have "sched_reach id0 (Suc n) s1"
      using reach_call Cons.prems(1) s1(1) by blast
    from Cons.IH [OF this s1(2)] show ?thesis
      using True Cons.prems(3) by simp
  next
    case False
    then have "sched_reach id0 n s1"
      using reach_step [of id0 n s e s1] Cons.prems s1(1) by simp
    from Cons.IH [OF this s1(2)] show ?thesis
      using False Cons.prems(3) by simp
  qed
qed simp

text \<open>A one-shot task on one worker, from the call to the end: id 7 is run once and unregistered.\<close>

definition once_trace :: "unit event list" where
  "once_trace = [WorkerStep 0 Returns, WorkerStep 0 Returns, CallRunOnce (), CallLocked 0 0, MainTest, MainBody 0] @
     replicate 5 (WorkerStep 0 Returns)"

definition once_end :: "unit Scheduler" where
  "once_end = \<lparr>s_stop = False, s_nextId = 8, s_tasksById = (\<lambda>_. None), s_tasks = [], s_workers = [W_Loop], s_main = M_Loop,
     s_dtor = D_None, s_calls = [], s_now = 0, s_log = [7]\<rparr>"

lemmas sched_eval = sched_event_def Scheduler_Create_def take_id_def insert_call_def RunOnce_locked_def RunEvery_locked_def
  notify_one_def umap_insert_def main_test_def main_body_def worker_step_def set_pc_def due_def dtor_stop_def dtor_notify_def
  notify_all_def RemoveTask_def

lemma once_run: "sched_run once_trace (Scheduler_Create 1 7 0) = Some (Inr once_end)"
  by (auto simp: once_trace_def once_end_def sched_eval numeral_eq_Suc fun_eq_iff)


section \<open>What goes wrong\<close>

text \<open>
  RemoveTask while a worker runs the task: the worker goes on with an iterator to the removed entry, and when the
  removal falls between its last two steps it erases the end iterator.
\<close>

lemma RemoveTask_dangles:
  "sched_run ([WorkerStep 0 Returns, WorkerStep 0 Returns, CallRunOnce (), CallLocked 0 0] @ replicate 3 (WorkerStep 0 Returns) @
     [CallRemoveTask 7, WorkerStep 0 Returns]) (Scheduler_Create 1 7 0) = Some (Inl DanglingIterator)"
  by (simp add: sched_eval numeral_eq_Suc)

lemma RemoveTask_erases_end:
  "sched_run ([WorkerStep 0 Returns, WorkerStep 0 Returns, CallRunOnce (), CallLocked 0 0] @ replicate 4 (WorkerStep 0 Returns) @
     [CallRemoveTask 7, WorkerStep 0 Returns]) (Scheduler_Create 1 7 0) = Some (Inl EraseEnd)"
  by (simp add: sched_eval numeral_eq_Suc)

text \<open>
  The destructor's notification is lost when a worker has tested the flag and not yet begun to wait: the
  worker then waits for ever, since nothing notifies any more, and the destructor joins it for ever.
\<close>

definition hang_trace :: "unit event list" where
  "hang_trace = [WorkerStep 0 Returns, DtorStop, MainTest, DtorNotify, WorkerStep 0 Returns]"

lemma destructor_hangs:
  "\<exists>s. sched_run hang_trace (Scheduler_Create 1 7 0) = Some (Inr s) \<and> s_dtor s = D_Notified \<and> s_workers s = [W_Waiting] \<and>
     s_main s = M_Done \<and> (\<forall>e r. sched_event e s = Some r \<and> \<not> is_call e \<and> \<not> is_remove e \<longrightarrow>
       (\<exists>d. e = Tick d) \<or> e = Spurious 0)"
proof -
  let ?s = "(Scheduler_Create 1 7 0 :: unit Scheduler)\<lparr>s_stop := True, s_main := M_Done, s_dtor := D_Notified, s_workers := [W_Waiting]\<rparr>"
  have "sched_run hang_trace (Scheduler_Create 1 7 0) = Some (Inr ?s)"
    by (simp add: hang_trace_def sched_eval)
  moreover have "(\<exists>d. e = Tick d) \<or> e = Spurious 0" if "sched_event e ?s = Some r" "\<not> is_call e" "\<not> is_remove e" for e r
    using that by (cases e) (auto simp: sched_eval spurious_wakeup_def split: if_splits)
  ultimately show ?thesis
    by fastforce
qed

end
