(* ===== verification/Spec2Isabelle.thy ===== *)
theory Spec2Isabelle
  imports MW_Util MW_Mmr MW_File_Backend MW_Consensus MW_Db MW_Rpc MW_Net MW_Bech32 MW_Scheduler
begin

text \<open>Verification of libmw-core.\<close>

end
